(* ===== verification/Prelude.thy ===== *)
theory Prelude
  imports Main "HOL-Library.Word"
begin

text \<open>
  Shared vocabulary of the development: the C++ scalar types at their width, the run-time
  faults a C++ statement can end in, the result type with its sequencing operation, the
  loads and stores on a contiguous block of memory, and the generic lemmas on lists and words
  that the component theories use.
\<close>

section \<open>Scalar types\<close>

type_synonym byte = "8 word"
type_synonym size_t = "64 word"
type_synonym int32_t = "32 word"
type_synonym int16_t = "16 word"

text \<open>\<^verbatim>\<open>int\<close> from a wider integer.\<close>

definition to_int32 :: "int \<Rightarrow> int" where
  "to_int32 i = sint (word_of_int i :: int32_t)"

lemma to_int32_id: "0 \<le> i \<Longrightarrow> i < 2 ^ 31 \<Longrightarrow> to_int32 i = i"
  by (simp add: to_int32_def signed_of_int signed_take_bit_int_eq_self)

section \<open>Faults and results\<close>

text \<open>
  A computation of the program either yields a value or ends in a fault: a failed
  \<^verbatim>\<open>assert\<close> (the makefiles never define \<^verbatim>\<open>NDEBUG\<close>), a
  \<^verbatim>\<open>std::length_error\<close> of a container, an access outside a block of memory, an access to
  an object that has been destroyed or through a null pointer, the call of an empty \<^verbatim>\<open>std::function\<close>, or
  \<^verbatim>\<open>LOG(FATAL)\<close>, which aborts the process.
\<close>

datatype fault =
    AssertFailed
  | LengthError
  | OutOfBounds
  | UseAfterFree
  | NullPointer
  | BadFunctionCall
  | LogFatal

type_synonym 'a result = "fault + 'a"

definition rbind :: "'a result \<Rightarrow> ('a \<Rightarrow> 'b result) \<Rightarrow> 'b result" where
  "rbind m f = (case m of Inl e \<Rightarrow> Inl e | Inr x \<Rightarrow> f x)"

lemma rbind_simps [simp]:
  "rbind (Inl e) f = Inl e"
  "rbind (Inr x) f = f x"
  by (simp_all add: rbind_def)

lemma rbind_Inr_iff: "rbind m f = Inr y \<longleftrightarrow> (\<exists>x. m = Inr x \<and> f x = Inr y)"
  by (cases m) auto

lemma rbind_assoc: "rbind (rbind m f) g = rbind m (\<lambda>x. rbind (f x) g)"
  by (cases m) auto

lemma rbind_Inr_right [simp]: "rbind m Inr = m"
  by (cases m) auto

lemma rbind_InrE:
  assumes "rbind m f = Inr y"
  obtains x where "m = Inr x" "f x = Inr y"
  using assms by (auto simp: rbind_Inr_iff)

text \<open>
  Total correctness of a computation: it ends without a fault and its value satisfies the
  postcondition.
\<close>

definition yields :: "'a result \<Rightarrow> ('a \<Rightarrow> bool) \<Rightarrow> bool" where
  "yields m P \<longleftrightarrow> (\<exists>x. m = Inr x \<and> P x)"

lemma yields_simps [simp]:
  "yields (Inr x) P \<longleftrightarrow> P x"
  "\<not> yields (Inl e) P"
  by (simp_all add: yields_def)

lemma yields_rbind: "yields (rbind m f) P \<longleftrightarrow> yields m (\<lambda>x. yields (f x) P)"
  by (cases m) auto

lemma yields_mono: "yields m P \<Longrightarrow> (\<And>x. P x \<Longrightarrow> Q x) \<Longrightarrow> yields m Q"
  by (auto simp: yields_def)

lemma yields_rbindI: "yields m P \<Longrightarrow> (\<And>x. P x \<Longrightarrow> yields (f x) Q) \<Longrightarrow> yields (rbind m f) Q"
  by (auto simp: yields_def)

lemma yields_conj: "yields m P \<Longrightarrow> yields m Q \<Longrightarrow> yields m (\<lambda>x. P x \<and> Q x)"
  by (auto simp: yields_def)

lemma yieldsE:
  assumes "yields m P"
  obtains x where "m = Inr x" "P x"
  using assms by (auto simp: yields_def)

section \<open>Contiguous memory\<close>

text \<open>
  A block of memory is a list of cells. Reading or writing a range that is not inside the
  block is the fault \<^const>\<open>OutOfBounds\<close>.
\<close>

definition load :: "'a list \<Rightarrow> nat \<Rightarrow> nat \<Rightarrow> 'a list result" where
  "load m i n = (if i + n \<le> length m then Inr (take n (drop i m)) else Inl OutOfBounds)"

definition load_range :: "'a list \<Rightarrow> nat \<Rightarrow> nat \<Rightarrow> 'a list result" where
  "load_range m i j =
     (if i \<le> j \<and> j \<le> length m then Inr (take (j - i) (drop i m)) else Inl OutOfBounds)"

definition store :: "'a list \<Rightarrow> nat \<Rightarrow> 'a list \<Rightarrow> 'a list result" where
  "store m i d =
     (if i + length d \<le> length m then Inr (take i m @ d @ drop (i + length d) m)
      else Inl OutOfBounds)"

text \<open>The window \<open>[i, j)\<close> of a block.\<close>

definition window :: "nat \<Rightarrow> nat \<Rightarrow> 'a list \<Rightarrow> 'a list" where
  "window i j m = take (j - i) (drop i m)"

lemma load_ok: "i + n \<le> length m \<Longrightarrow> load m i n = Inr (take n (drop i m))"
  by (simp add: load_def)

lemma store_ok:
  "i + length d \<le> length m \<Longrightarrow> store m i d = Inr (take i m @ d @ drop (i + length d) m)"
  by (simp add: store_def)

lemma store_length: "store m i d = Inr m' \<Longrightarrow> length m' = length m"
  by (auto simp: store_def split: if_splits)

lemma length_window: "j \<le> length m \<Longrightarrow> length (window i j m) = j - i"
  by (simp add: window_def)

lemma window_empty [simp]: "window i i m = []"
  by (simp add: window_def)

lemma window_drop: "window (i + n) j m = drop n (window i j m)"
  by (simp add: window_def drop_take add.commute)

lemma window_take: "i + n \<le> j \<Longrightarrow> window i (i + n) m = take n (window i j m)"
  by (simp add: window_def)

lemma window_split: "i \<le> j \<Longrightarrow> j \<le> k \<Longrightarrow> window i k m = window i j m @ window j k m"
proof -
  assume ij: "i \<le> j" and jk: "j \<le> k"
  have "take (k - i) (drop i m) = take (j - i) (drop i m) @ take (k - j) (drop (j - i) (drop i m))"
    using ij jk by (metis take_add Nat.add_diff_assoc2 le_add_diff_inverse2 add.commute diff_add_assoc2)
  then show ?thesis using ij by (simp add: window_def)
qed

end
