(* ===== verification/Sys.thy ===== *)
theory Sys
  imports Prelude
begin

unbundle bit_operations_syntax

text \<open>
  The boundary to the operating system. The kernel is a parameter (\<open>os\<close>): a record with one
  function per system call, which gives the outcome of the call from the calls made so far
  and its arguments. The program's side is the trace of the calls it made, with their
  outcomes, and \<^verbatim>\<open>errno\<close>, which a failing call sets. Nothing is assumed of the kernel here;
  the properties that rely on documented behaviour name it as a hypothesis.
\<close>

section \<open>Types and constants\<close>

type_synonym fd = int
type_synonym ptr = nat
type_synonym events = "32 word"

datatype ctl_op = EPOLL_CTL_ADD | EPOLL_CTL_DEL | EPOLL_CTL_MOD

record sockaddr_in =
  sin_family :: int
  sin_port :: int16_t
  s_addr :: int32_t

abbreviation EPOLLIN :: events where "EPOLLIN \<equiv> 1"
abbreviation EPOLLPRI :: events where "EPOLLPRI \<equiv> 2"
abbreviation EPOLLOUT :: events where "EPOLLOUT \<equiv> 4"
abbreviation EPOLLERR :: events where "EPOLLERR \<equiv> 8"
abbreviation EPOLLHUP :: events where "EPOLLHUP \<equiv> 16"
abbreviation EPOLLRDHUP :: events where "EPOLLRDHUP \<equiv> 8192"
abbreviation EPOLLET :: events where "EPOLLET \<equiv> 2147483648"

abbreviation EPERM :: int where "EPERM \<equiv> 1"
abbreviation ENOENT :: int where "ENOENT \<equiv> 2"
abbreviation EINTR :: int where "EINTR \<equiv> 4"
abbreviation EBADF :: int where "EBADF \<equiv> 9"
abbreviation EAGAIN :: int where "EAGAIN \<equiv> 11"
abbreviation ENOMEM :: int where "ENOMEM \<equiv> 12"
abbreviation EFAULT :: int where "EFAULT \<equiv> 14"
abbreviation EEXIST :: int where "EEXIST \<equiv> 17"
abbreviation EINVAL :: int where "EINVAL \<equiv> 22"
abbreviation ENFILE :: int where "ENFILE \<equiv> 23"
abbreviation EMFILE :: int where "EMFILE \<equiv> 24"
abbreviation EPROTO :: int where "EPROTO \<equiv> 71"
abbreviation ENOTSOCK :: int where "ENOTSOCK \<equiv> 88"
abbreviation EOPNOTSUPP :: int where "EOPNOTSUPP \<equiv> 95"
abbreviation ECONNABORTED :: int where "ECONNABORTED \<equiv> 103"
abbreviation ECONNRESET :: int where "ECONNRESET \<equiv> 104"
abbreviation ENOBUFS :: int where "ENOBUFS \<equiv> 105"

abbreviation AF_INET :: int where "AF_INET \<equiv> 2"
abbreviation SOMAXCONN :: int where "SOMAXCONN \<equiv> 128"
abbreviation F_GETFD :: int where "F_GETFD \<equiv> 1"
abbreviation F_SETFD :: int where "F_SETFD \<equiv> 2"
abbreviation F_GETFL :: int where "F_GETFL \<equiv> 3"
abbreviation F_SETFL :: int where "F_SETFL \<equiv> 4"
abbreviation FD_CLOEXEC :: int32_t where "FD_CLOEXEC \<equiv> 1"
abbreviation O_NONBLOCK :: int32_t where "O_NONBLOCK \<equiv> 2048"

text \<open>The test of a bit mask in a condition.\<close>

definition has :: "events \<Rightarrow> events \<Rightarrow> bool" where
  "has m bits \<longleftrightarrow> m AND bits \<noteq> 0"

section \<open>Calls and the kernel\<close>

text \<open>An outcome is \<open>Inl errno\<close> or the value the call returns; a call whose value carries no
  information has an optional errno.\<close>

datatype sys_event =
    EvReadv fd "nat list" "int + byte list"
  | EvRecv fd nat "int + byte list"
  | EvWrite fd "byte list" "int + nat"
  | EvClose fd "int option"
  | EvEpollCreate "int + fd"
  | EvEpollCtl fd ctl_op fd events ptr "int option"
  | EvEpollWait fd int int "int + (events \<times> ptr) list"
  | EvSocket "int + fd"
  | EvSetsockopt fd "int option"
  | EvBind fd sockaddr_in "int option"
  | EvListen fd int "int option"
  | EvAccept fd "int + (fd \<times> sockaddr_in)"
  | EvFcntlGet fd int "int + int32_t"
  | EvFcntl fd int int32_t "int option"
  | EvGetsockopt fd "int option"
  | EvSendto fd "byte list" "sockaddr_in option" "int + nat"
  | EvRecvfrom fd nat "int + byte list"
  | EvConnect fd sockaddr_in "int option"

record os =
  os_readv :: "sys_event list \<Rightarrow> fd \<Rightarrow> nat list \<Rightarrow> int + byte list"
  os_recv :: "sys_event list \<Rightarrow> fd \<Rightarrow> nat \<Rightarrow> int + byte list"
  os_write :: "sys_event list \<Rightarrow> fd \<Rightarrow> byte list \<Rightarrow> int + nat"
  os_close :: "sys_event list \<Rightarrow> fd \<Rightarrow> int option"
  os_epoll_create :: "sys_event list \<Rightarrow> int + fd"
  os_epoll_ctl :: "sys_event list \<Rightarrow> fd \<Rightarrow> ctl_op \<Rightarrow> fd \<Rightarrow> events \<Rightarrow> ptr \<Rightarrow> int option"
  os_epoll_wait :: "sys_event list \<Rightarrow> fd \<Rightarrow> int \<Rightarrow> int \<Rightarrow> int + (events \<times> ptr) list"
  os_socket :: "sys_event list \<Rightarrow> int + fd"
  os_setsockopt :: "sys_event list \<Rightarrow> fd \<Rightarrow> int option"
  os_bind :: "sys_event list \<Rightarrow> fd \<Rightarrow> sockaddr_in \<Rightarrow> int option"
  os_listen :: "sys_event list \<Rightarrow> fd \<Rightarrow> int \<Rightarrow> int option"
  os_accept :: "sys_event list \<Rightarrow> fd \<Rightarrow> int + (fd \<times> sockaddr_in)"
  os_fcntl_get :: "sys_event list \<Rightarrow> fd \<Rightarrow> int \<Rightarrow> int + int32_t"
  os_fcntl_set :: "sys_event list \<Rightarrow> fd \<Rightarrow> int \<Rightarrow> int32_t \<Rightarrow> int option"
  os_getsockopt :: "sys_event list \<Rightarrow> fd \<Rightarrow> int option"
  os_sendto :: "sys_event list \<Rightarrow> fd \<Rightarrow> byte list \<Rightarrow> sockaddr_in option \<Rightarrow> int + nat"
  os_recvfrom :: "sys_event list \<Rightarrow> fd \<Rightarrow> nat \<Rightarrow> int + byte list"
  os_connect :: "sys_event list \<Rightarrow> fd \<Rightarrow> sockaddr_in \<Rightarrow> int option"
  os_time :: "sys_event list \<Rightarrow> int"

record sys =
  trace :: "sys_event list"
  errno :: int

definition record_call :: "sys_event \<Rightarrow> int option \<Rightarrow> 'a sys_scheme \<Rightarrow> 'a sys_scheme" where
  "record_call ev err s =
     s\<lparr>trace := trace s @ [ev], errno := (case err of None \<Rightarrow> errno s | Some e \<Rightarrow> e)\<rparr>"

fun err_of :: "int + 'a \<Rightarrow> int option" where
  "err_of (Inl e) = Some e"
| "err_of (Inr _) = None"

definition sys_readv :: "os \<Rightarrow> fd \<Rightarrow> nat list \<Rightarrow> 'a sys_scheme \<Rightarrow> (int + byte list) \<times> 'a sys_scheme" where
  "sys_readv os f iov s =
     (let r = os_readv os (trace s) f iov in (r, record_call (EvReadv f iov r) (err_of r) s))"

definition sys_recv :: "os \<Rightarrow> fd \<Rightarrow> nat \<Rightarrow> 'a sys_scheme \<Rightarrow> (int + byte list) \<times> 'a sys_scheme" where
  "sys_recv os f n s =
     (let r = os_recv os (trace s) f n in (r, record_call (EvRecv f n r) (err_of r) s))"

definition sys_write :: "os \<Rightarrow> fd \<Rightarrow> byte list \<Rightarrow> 'a sys_scheme \<Rightarrow> (int + nat) \<times> 'a sys_scheme" where
  "sys_write os f d s =
     (let r = os_write os (trace s) f d in (r, record_call (EvWrite f d r) (err_of r) s))"

definition sys_close :: "os \<Rightarrow> fd \<Rightarrow> 'a sys_scheme \<Rightarrow> 'a sys_scheme" where
  "sys_close os f s =
     (let r = os_close os (trace s) f in record_call (EvClose f r) r s)"

definition sys_epoll_create :: "os \<Rightarrow> 'a sys_scheme \<Rightarrow> (int + fd) \<times> 'a sys_scheme" where
  "sys_epoll_create os s =
     (let r = os_epoll_create os (trace s) in (r, record_call (EvEpollCreate r) (err_of r) s))"

definition sys_epoll_ctl ::
    "os \<Rightarrow> fd \<Rightarrow> ctl_op \<Rightarrow> fd \<Rightarrow> events \<Rightarrow> ptr \<Rightarrow> 'a sys_scheme \<Rightarrow> int option \<times> 'a sys_scheme" where
  "sys_epoll_ctl os ep ctl f ev p s =
     (let r = os_epoll_ctl os (trace s) ep ctl f ev p
      in (r, record_call (EvEpollCtl ep ctl f ev p r) r s))"

definition sys_epoll_wait ::
    "os \<Rightarrow> fd \<Rightarrow> int \<Rightarrow> int \<Rightarrow> 'a sys_scheme \<Rightarrow> (int + (events \<times> ptr) list) \<times> 'a sys_scheme" where
  "sys_epoll_wait os ep maxevents timeout s =
     (let r = os_epoll_wait os (trace s) ep maxevents timeout
      in (r, record_call (EvEpollWait ep maxevents timeout r) (err_of r) s))"

definition sys_socket :: "os \<Rightarrow> 'a sys_scheme \<Rightarrow> (int + fd) \<times> 'a sys_scheme" where
  "sys_socket os s =
     (let r = os_socket os (trace s) in (r, record_call (EvSocket r) (err_of r) s))"

definition sys_setsockopt :: "os \<Rightarrow> fd \<Rightarrow> 'a sys_scheme \<Rightarrow> int option \<times> 'a sys_scheme" where
  "sys_setsockopt os f s =
     (let r = os_setsockopt os (trace s) f in (r, record_call (EvSetsockopt f r) r s))"

definition sys_bind :: "os \<Rightarrow> fd \<Rightarrow> sockaddr_in \<Rightarrow> 'a sys_scheme \<Rightarrow> int option \<times> 'a sys_scheme" where
  "sys_bind os f a s =
     (let r = os_bind os (trace s) f a in (r, record_call (EvBind f a r) r s))"

definition sys_listen :: "os \<Rightarrow> fd \<Rightarrow> int \<Rightarrow> 'a sys_scheme \<Rightarrow> int option \<times> 'a sys_scheme" where
  "sys_listen os f backlog s =
     (let r = os_listen os (trace s) f backlog in (r, record_call (EvListen f backlog r) r s))"

definition sys_accept :: "os \<Rightarrow> fd \<Rightarrow> 'a sys_scheme \<Rightarrow> (int + (fd \<times> sockaddr_in)) \<times> 'a sys_scheme" where
  "sys_accept os f s =
     (let r = os_accept os (trace s) f in (r, record_call (EvAccept f r) (err_of r) s))"

text \<open>\<^verbatim>\<open>fcntl\<close> returns -1 when it cannot read the flags.\<close>

definition sys_fcntl_get :: "os \<Rightarrow> fd \<Rightarrow> int \<Rightarrow> 'a sys_scheme \<Rightarrow> int32_t \<times> 'a sys_scheme" where
  "sys_fcntl_get os f cmd s =
     (let r = os_fcntl_get os (trace s) f cmd
      in ((case r of Inl _ \<Rightarrow> - 1 | Inr v \<Rightarrow> v), record_call (EvFcntlGet f cmd r) (err_of r) s))"

definition sys_fcntl_set ::
    "os \<Rightarrow> fd \<Rightarrow> int \<Rightarrow> int32_t \<Rightarrow> 'a sys_scheme \<Rightarrow> 'a sys_scheme" where
  "sys_fcntl_set os f cmd arg s =
     (let r = os_fcntl_set os (trace s) f cmd arg in record_call (EvFcntl f cmd arg r) r s)"

definition sys_getsockopt :: "os \<Rightarrow> fd \<Rightarrow> 'a sys_scheme \<Rightarrow> int option \<times> 'a sys_scheme" where
  "sys_getsockopt os f s =
     (let r = os_getsockopt os (trace s) f in (r, record_call (EvGetsockopt f r) r s))"

text \<open>Datagrams.\<close>

definition sys_sendto ::
    "os \<Rightarrow> fd \<Rightarrow> byte list \<Rightarrow> sockaddr_in option \<Rightarrow> 'a sys_scheme \<Rightarrow> (int + nat) \<times> 'a sys_scheme" where
  "sys_sendto os f d a s =
     (let r = os_sendto os (trace s) f d a in (r, record_call (EvSendto f d a r) (err_of r) s))"

definition sys_recvfrom :: "os \<Rightarrow> fd \<Rightarrow> nat \<Rightarrow> 'a sys_scheme \<Rightarrow> (int + byte list) \<times> 'a sys_scheme" where
  "sys_recvfrom os f n s =
     (let r = os_recvfrom os (trace s) f n in (r, record_call (EvRecvfrom f n r) (err_of r) s))"

definition sys_connect :: "os \<Rightarrow> fd \<Rightarrow> sockaddr_in \<Rightarrow> 'a sys_scheme \<Rightarrow> int option \<times> 'a sys_scheme" where
  "sys_connect os f a s =
     (let r = os_connect os (trace s) f a in (r, record_call (EvConnect f a r) r s))"

section \<open>The interest list of an epoll instance\<close>

text \<open>
  What the kernel watches for an epoll descriptor, read off the trace: successful
  \<^verbatim>\<open>epoll_ctl\<close> calls add, change and delete entries, and closing a descriptor drops its
  entry.
\<close>

fun interest_step :: "fd \<Rightarrow> sys_event \<Rightarrow> (fd \<rightharpoonup> events \<times> ptr) \<Rightarrow> (fd \<rightharpoonup> events \<times> ptr)" where
  "interest_step ep (EvEpollCtl ep' ctl f ev p None) m =
     (if ep' = ep then (if ctl = EPOLL_CTL_DEL then m(f := None) else m(f \<mapsto> (ev, p))) else m)"
| "interest_step ep (EvClose f r) m = m(f := None)"
| "interest_step ep _ m = m"

definition interest :: "fd \<Rightarrow> sys_event list \<Rightarrow> (fd \<rightharpoonup> events \<times> ptr)" where
  "interest ep tr = fold (interest_step ep) tr Map.empty"

text \<open>
  The documented behaviour of \<^verbatim>\<open>epoll_ctl\<close> that the servers rely on, for an open descriptor:
  a descriptor that is not watched can be added, one that is can be changed and deleted.
\<close>

definition ctl_works :: "os \<Rightarrow> fd \<Rightarrow> fd \<Rightarrow> bool" where
  "ctl_works os ep f \<longleftrightarrow>
     (\<forall>tr ev p. (interest ep tr f = None \<longrightarrow> os_epoll_ctl os tr ep EPOLL_CTL_ADD f ev p = None)
       \<and> (interest ep tr f \<noteq> None \<longrightarrow>
            os_epoll_ctl os tr ep EPOLL_CTL_MOD f ev p = None
            \<and> os_epoll_ctl os tr ep EPOLL_CTL_DEL f ev p = None))"

text \<open>
  The descriptors that the calls of a trace opened and did not close.
\<close>

fun open_step :: "sys_event \<Rightarrow> fd set \<Rightarrow> fd set" where
  "open_step (EvSocket (Inr f)) fs = insert f fs"
| "open_step (EvAccept g (Inr (f, a))) fs = insert f fs"
| "open_step (EvEpollCreate (Inr f)) fs = insert f fs"
| "open_step (EvClose f r) fs = fs - {f}"
| "open_step _ fs = fs"

definition open_fds :: "sys_event list \<Rightarrow> fd set" where
  "open_fds tr = fold open_step tr {}"

text \<open>Calls that neither open nor close a descriptor nor wait for events nor read, and a trace that grew
  by such calls only.\<close>

fun plain :: "sys_event \<Rightarrow> bool" where
  "plain (EvSocket r) \<longleftrightarrow> False"
| "plain (EvAccept g r) \<longleftrightarrow> False"
| "plain (EvEpollCreate r) \<longleftrightarrow> False"
| "plain (EvClose f r) \<longleftrightarrow> False"
| "plain (EvEpollWait ep n timeout r) \<longleftrightarrow> False"
| "plain (EvReadv f iov r) \<longleftrightarrow> False"
| "plain (EvWrite f d r) \<longleftrightarrow> False"
| "plain _ \<longleftrightarrow> True"

definition quietly :: "sys_event list \<Rightarrow> sys_event list \<Rightarrow> bool" where
  "quietly tr tr' \<longleftrightarrow> (\<exists>evs. tr' = tr @ evs \<and> (\<forall>ev \<in> set evs. plain ev))"

text \<open>
  A simple kernel: \<^verbatim>\<open>epoll_ctl\<close> follows the interest list, \<^verbatim>\<open>epoll_wait\<close> reports the events
  \<open>ev\<close> on the descriptor \<open>f\<close> whenever that is watched, writes are complete, reads meet the
  end of the stream, and no connection is waiting. It shows that what the properties ask of
  the kernel can be met; single calls are overridden where a property needs another outcome.
\<close>

definition sample_ctl :: "sys_event list \<Rightarrow> fd \<Rightarrow> ctl_op \<Rightarrow> fd \<Rightarrow> int option" where
  "sample_ctl tr ep ctl f =
     (if f < 0 then Some EBADF
      else if ctl = EPOLL_CTL_ADD then (if interest ep tr f = None then None else Some EEXIST)
      else if interest ep tr f = None then Some ENOENT else None)"

definition sample_wait ::
    "fd \<Rightarrow> events \<Rightarrow> sys_event list \<Rightarrow> fd \<Rightarrow> int \<Rightarrow> int + (events \<times> ptr) list" where
  "sample_wait f ev tr ep maxevents =
     (if maxevents \<le> 0 then Inl EINVAL
      else case interest ep tr f of None \<Rightarrow> Inr [] | Some (_, p) \<Rightarrow> Inr [(ev, p)])"

definition sample_os :: "fd \<Rightarrow> events \<Rightarrow> os" where
  "sample_os f ev =
     \<lparr>os_readv = \<lambda>tr g iov. Inr [], os_recv = \<lambda>tr g n. Inr [],
      os_write = \<lambda>tr g d. Inr (length d), os_close = \<lambda>tr g. None,
      os_epoll_create = \<lambda>tr. Inr 3,
      os_epoll_ctl = \<lambda>tr ep ctl g m p. sample_ctl tr ep ctl g,
      os_epoll_wait = \<lambda>tr ep n timeout. sample_wait f ev tr ep n,
      os_socket = \<lambda>tr. Inr 4, os_setsockopt = \<lambda>tr g. None, os_bind = \<lambda>tr g a. None,
      os_listen = \<lambda>tr g n. None, os_accept = \<lambda>tr g. Inl EAGAIN,
      os_fcntl_get = \<lambda>tr g cmd. Inr 0, os_fcntl_set = \<lambda>tr g cmd arg. None,
      os_getsockopt = \<lambda>tr g. None, os_sendto = \<lambda>tr g d a. Inr (length d),
      os_recvfrom = \<lambda>tr g n. Inr [], os_connect = \<lambda>tr g a. None, os_time = \<lambda>tr. 1400000000\<rparr>"

section \<open>Lemmas\<close>

lemma record_call_simps [simp]:
  "trace (record_call ev err s) = trace s @ [ev]"
  "errno (record_call ev err s) = (case err of None \<Rightarrow> errno s | Some e \<Rightarrow> e)"
  "sys.more (record_call ev err s) = sys.more s"
  by (simp_all add: record_call_def)

lemma interest_Nil [simp]: "interest ep [] = Map.empty"
  by (simp add: interest_def)

lemma interest_snoc [simp]: "interest ep (tr @ [ev]) = interest_step ep ev (interest ep tr)"
  by (simp add: interest_def)

lemma interest_append:
  "interest ep (tr @ evs) = fold (interest_step ep) evs (interest ep tr)"
  by (simp add: interest_def)

lemma open_fds_Nil [simp]: "open_fds [] = {}"
  by (simp add: open_fds_def)

lemma open_fds_snoc [simp]: "open_fds (tr @ [ev]) = open_step ev (open_fds tr)"
  by (simp add: open_fds_def)

lemma open_step_plain: "plain ev \<Longrightarrow> open_step ev fs = fs"
  by (cases "(ev, fs)" rule: open_step.cases) auto

lemma quietly_refl [simp]: "quietly tr tr"
  by (simp add: quietly_def)

lemma quietly_append [simp]: "quietly tr (tr @ evs) \<longleftrightarrow> (\<forall>ev \<in> set evs. plain ev)"
  by (simp add: quietly_def)

lemma quietly_trans [trans]: "quietly tr tr' \<Longrightarrow> quietly tr' tr'' \<Longrightarrow> quietly tr tr''"
  by (fastforce simp: quietly_def)

lemma quietly_open_fds: "quietly tr tr' \<Longrightarrow> open_fds tr' = open_fds tr"
proof -
  have "fold open_step evs fs = fs" if "\<forall>ev \<in> set evs. plain ev" for evs fs
    using that by (induction evs arbitrary: fs) (simp_all add: open_step_plain)
  then show "quietly tr tr' \<Longrightarrow> open_fds tr' = open_fds tr"
    by (auto simp: quietly_def open_fds_def)
qed

lemma sample_os_simps [simp]:
  "os_readv (sample_os f ev) tr g iov = Inr []"
  "os_recv (sample_os f ev) tr g len = Inr []"
  "os_write (sample_os f ev) tr g d = Inr (length d)"
  "os_close (sample_os f ev) tr g = None"
  "os_epoll_create (sample_os f ev) tr = Inr 3"
  "os_epoll_ctl (sample_os f ev) tr ep ctl g m p = sample_ctl tr ep ctl g"
  "os_epoll_wait (sample_os f ev) tr ep n timeout = sample_wait f ev tr ep n"
  "os_socket (sample_os f ev) tr = Inr 4"
  "os_setsockopt (sample_os f ev) tr g = None"
  "os_bind (sample_os f ev) tr g a = None"
  "os_listen (sample_os f ev) tr g k = None"
  "os_accept (sample_os f ev) tr g = Inl EAGAIN"
  "os_fcntl_get (sample_os f ev) tr g cmd = Inr 0"
  "os_fcntl_set (sample_os f ev) tr g cmd arg = None"
  "os_getsockopt (sample_os f ev) tr g = None"
  "os_sendto (sample_os f ev) tr g d to = Inr (length d)"
  "os_recvfrom (sample_os f ev) tr g len = Inr []"
  "os_connect (sample_os f ev) tr g a = None"
  "os_time (sample_os f ev) tr = 1400000000"
  by (simp_all add: sample_os_def)

lemma sample_ctl_works: "0 \<le> f \<Longrightarrow> ctl_works (sample_os g ev) ep f"
  by (simp add: ctl_works_def sample_ctl_def)

text \<open>Bit masks.\<close>

lemma has_0 [simp]: "\<not> has 0 bits" "\<not> has m 0"
  by (simp_all add: has_def)

lemma has_or: "has m (a OR b) \<longleftrightarrow> has m a \<or> has m b"
  by (auto simp: has_def bit_eq_iff bit_simps)

lemma has_or_left: "has (a OR b) bits \<longleftrightarrow> has a bits \<or> has b bits"
  by (auto simp: has_def bit_eq_iff bit_simps)

lemma has_and_not: "\<not> has (m AND NOT bits) bits"
  by (auto simp: has_def bit_eq_iff bit_simps)

end
