(* ===== verification/Decimal.thy ===== *)
theory Decimal
  imports Prelude
begin

text \<open>
  Numbers as text: decimal output of integers (\<^verbatim>\<open>operator<<\<close>, \<^verbatim>\<open>%d\<close>) and their input with
  \<^verbatim>\<open>atoi\<close>, and that the two fit together.
\<close>

section \<open>Definitions\<close>

fun dec_digits :: "nat \<Rightarrow> string" where
  "dec_digits n =
     (if n < 10 then [char_of (48 + n)] else dec_digits (n div 10) @ [char_of (48 + n mod 10)])"

definition dec_int :: "int \<Rightarrow> string" where
  "dec_int i = (if i < 0 then ''-'' @ dec_digits (nat (- i)) else dec_digits (nat i))"

text \<open>\<^verbatim>\<open>atoi\<close>: white space, a sign and decimal digits; the value is that of \<^verbatim>\<open>strtol\<close>, which
  saturates, converted to \<^verbatim>\<open>int\<close>.\<close>

definition isspace :: "char \<Rightarrow> bool" where
  "isspace c \<longleftrightarrow> c = CHR '' '' \<or> 9 \<le> (of_char c :: nat) \<and> (of_char c :: nat) \<le> 13"

definition isdigit :: "char \<Rightarrow> bool" where
  "isdigit c \<longleftrightarrow> 48 \<le> (of_char c :: nat) \<and> (of_char c :: nat) \<le> 57"

definition dec_value :: "string \<Rightarrow> int" where
  "dec_value ds = foldl (\<lambda>v c. 10 * v + (int (of_char c) - 48)) 0 ds"

definition strtol :: "string \<Rightarrow> int" where
  "strtol s =
     (let t = dropWhile isspace s;
          neg = (t \<noteq> [] \<and> hd t = CHR ''-'');
          ds = takeWhile isdigit (if t \<noteq> [] \<and> (hd t = CHR ''-'' \<or> hd t = CHR ''+'') then tl t else t);
          v = (if neg then - dec_value ds else dec_value ds)
      in max (- (2 ^ 63)) (min (2 ^ 63 - 1) v))"

definition atoi :: "string \<Rightarrow> int" where
  "atoi s = to_int32 (strtol s)"

section \<open>Lemmas\<close>

declare dec_digits.simps [simp del]

lemma dec_value_snoc: "dec_value (ds @ [c]) = 10 * dec_value ds + (int (of_char c) - 48)"
  by (simp add: dec_value_def)

lemma of_char_digit: "n < 10 \<Longrightarrow> (of_char (char_of (48 + n :: nat)) :: nat) = 48 + n"
  by simp

lemma dec_digits_value: "dec_value (dec_digits n) = int n"
proof (induction n rule: dec_digits.induct)
  case (1 n)
  show ?case
  proof (cases "n < 10")
    case True
    then show ?thesis
      by (subst dec_digits.simps) (simp add: dec_value_def of_char_digit del: of_char_of)
  next
    case False
    have "int n = 10 * int (n div 10) + int (n mod 10)" by presburger
    with False 1 show ?thesis
      by (subst dec_digits.simps) (simp add: dec_value_snoc of_char_digit del: of_char_of)
  qed
qed

lemma dec_digits_chars: "c \<in> set (dec_digits n) \<Longrightarrow> isdigit c"
proof (induction n rule: dec_digits.induct)
  case (1 n)
  show ?case
  proof (cases "n < 10")
    case True
    with 1(2) show ?thesis
      by (subst (asm) dec_digits.simps) (simp add: isdigit_def of_char_digit del: of_char_of)
  next
    case False
    with 1(2) have "c \<in> set (dec_digits (n div 10)) \<or> c = char_of (48 + n mod 10)"
      by (subst (asm) dec_digits.simps) auto
    with 1(1) False show ?thesis by (auto simp: isdigit_def of_char_digit simp del: of_char_of)
  qed
qed

lemma dec_digits_nonempty: "dec_digits n \<noteq> []"
  by (subst dec_digits.simps) simp

lemma strtol_digits:
  assumes "ds \<noteq> []" and "\<And>c. c \<in> set ds \<Longrightarrow> isdigit c"
  shows "strtol ds = max (- (2 ^ 63)) (min (2 ^ 63 - 1) (dec_value ds))"
proof -
  obtain c cs where ds: "ds = c # cs" using assms(1) by (cases ds) auto
  then have c: "isdigit c" using assms(2) by simp
  then have "\<not> isspace c" "c \<noteq> CHR ''-''" "c \<noteq> CHR ''+''" by (auto simp: isdigit_def isspace_def)
  moreover have "takeWhile isdigit ds = ds" using assms(2) by (simp add: takeWhile_eq_all_conv)
  ultimately show ?thesis using ds by (simp add: strtol_def)
qed

lemma atoi_dec_digits: "n < 2 ^ 31 \<Longrightarrow> atoi (dec_digits n) = int n"
  using to_int32_id[of "int n"]
  by (simp add: atoi_def strtol_digits dec_digits_nonempty dec_digits_chars dec_digits_value)

lemma dec_digits_length: "n < 10 ^ k \<Longrightarrow> 0 < k \<Longrightarrow> length (dec_digits n) \<le> k"
proof (induction k arbitrary: n)
  case (Suc k)
  show ?case
  proof (cases "n < 10")
    case True
    then show ?thesis by (subst dec_digits.simps) simp
  next
    case False
    then have k: "0 < k" using Suc.prems by (cases k) auto
    have "n div 10 < 10 ^ k" using Suc.prems(1) by (simp add: less_mult_imp_div_less mult.commute)
    with False k Suc.IH show ?thesis by (subst dec_digits.simps) simp
  qed
qed simp

end
