(* ===== verification/Channel.thy ===== *)
theory Channel
  imports Sys Decimal
begin

unbundle bit_operations_syntax

text \<open>
  The channels of \<^verbatim>\<open>netlib/Channel.hpp\<close> and \<^verbatim>\<open>netlib/Channel.cpp\<close>: a descriptor, the events it
  is watched for, the events the last poll reported, its registration state (\<open>index\<close>) and
  four callbacks. Channels live in a store of objects; following a pointer to a channel that
  is not (or no longer) in the store is the fault \<^const>\<open>UseAfterFree\<close>. The type \<open>'cb\<close> of
  callbacks, and how a callback is run, are given by the clients.
\<close>

section \<open>State\<close>

record 'cb channel =
  ch_fd :: fd
  ch_events :: events
  ch_revents :: events
  ch_index :: int
  eventHandling :: bool
  readCallback :: "'cb option"
  writeCallback :: "'cb option"
  closeCallback :: "'cb option"
  errorCallback :: "'cb option"

record 'cb chan_store = sys +
  chans :: "ptr \<rightharpoonup> 'cb channel"

definition kNoneEvent :: events where
  "kNoneEvent = 0"

definition kReadEvent :: events where
  "kReadEvent = EPOLLIN OR EPOLLPRI"

definition kWriteEvent :: events where
  "kWriteEvent = EPOLLOUT"

section \<open>Operations\<close>

definition new_Channel :: "fd \<Rightarrow> 'cb channel" where
  "new_Channel f =
     \<lparr>ch_fd = f, ch_events = 0, ch_revents = 0, ch_index = - 1, eventHandling = False,
      readCallback = None, writeCallback = None, closeCallback = None, errorCallback = None\<rparr>"

definition chan :: "ptr \<Rightarrow> ('cb, 'a) chan_store_scheme \<Rightarrow> 'cb channel result" where
  "chan p s = (case chans s p of None \<Rightarrow> Inl UseAfterFree | Some c \<Rightarrow> Inr c)"

definition set_chan ::
    "ptr \<Rightarrow> ('cb channel \<Rightarrow> 'cb channel) \<Rightarrow> ('cb, 'a) chan_store_scheme \<Rightarrow>
     ('cb, 'a) chan_store_scheme result" where
  "set_chan p f s = rbind (chan p s) (\<lambda>c. Inr (s\<lparr>chans := (chans s)(p \<mapsto> f c)\<rparr>))"

definition setReadCallback ::
    "ptr \<Rightarrow> 'cb \<Rightarrow> ('cb, 'a) chan_store_scheme \<Rightarrow> ('cb, 'a) chan_store_scheme result" where
  "setReadCallback p cb s = set_chan p (\<lambda>c. c\<lparr>readCallback := Some cb\<rparr>) s"

definition setWriteCallback ::
    "ptr \<Rightarrow> 'cb \<Rightarrow> ('cb, 'a) chan_store_scheme \<Rightarrow> ('cb, 'a) chan_store_scheme result" where
  "setWriteCallback p cb s = set_chan p (\<lambda>c. c\<lparr>writeCallback := Some cb\<rparr>) s"

definition setCloseCallback ::
    "ptr \<Rightarrow> 'cb \<Rightarrow> ('cb, 'a) chan_store_scheme \<Rightarrow> ('cb, 'a) chan_store_scheme result" where
  "setCloseCallback p cb s = set_chan p (\<lambda>c. c\<lparr>closeCallback := Some cb\<rparr>) s"

definition setErrorCallback ::
    "ptr \<Rightarrow> 'cb \<Rightarrow> ('cb, 'a) chan_store_scheme \<Rightarrow> ('cb, 'a) chan_store_scheme result" where
  "setErrorCallback p cb s = set_chan p (\<lambda>c. c\<lparr>errorCallback := Some cb\<rparr>) s"

definition set_revents ::
    "ptr \<Rightarrow> events \<Rightarrow> ('cb, 'a) chan_store_scheme \<Rightarrow> ('cb, 'a) chan_store_scheme result" where
  "set_revents p ev s = set_chan p (\<lambda>c. c\<lparr>ch_revents := ev\<rparr>) s"

definition set_index ::
    "ptr \<Rightarrow> int \<Rightarrow> ('cb, 'a) chan_store_scheme \<Rightarrow> ('cb, 'a) chan_store_scheme result" where
  "set_index p i s = set_chan p (\<lambda>c. c\<lparr>ch_index := i\<rparr>) s"

definition isNoneEvent :: "'cb channel \<Rightarrow> bool" where
  "isNoneEvent c \<longleftrightarrow> ch_events c = kNoneEvent"

definition isWriting :: "'cb channel \<Rightarrow> bool" where
  "isWriting c \<longleftrightarrow> has (ch_events c) kWriteEvent"

text \<open>The text \<^verbatim>\<open>reventsToString\<close> logs.\<close>

definition reventsToString :: "'cb channel \<Rightarrow> string" where
  "reventsToString c =
     dec_int (ch_fd c) @ '': ''
     @ (if has (ch_revents c) EPOLLIN then ''IN '' else [])
     @ (if has (ch_revents c) EPOLLPRI then ''PRI '' else [])
     @ (if has (ch_revents c) EPOLLOUT then ''OUT '' else [])
     @ (if has (ch_revents c) EPOLLHUP then ''HUP '' else [])
     @ (if has (ch_revents c) EPOLLRDHUP then ''RDHUP '' else [])
     @ (if has (ch_revents c) EPOLLERR then ''ERR '' else [])"

text \<open>Running a callback if it is set: \<^verbatim>\<open>if (cb) cb();\<close>.\<close>

definition call_if :: "('cb \<Rightarrow> 's \<Rightarrow> 's result) \<Rightarrow> 'cb option \<Rightarrow> 's \<Rightarrow> 's result" where
  "call_if run cb s = (case cb of None \<Rightarrow> Inr s | Some f \<Rightarrow> run f s)"

text \<open>
  \<^verbatim>\<open>handleEvent\<close>. Every access to a member follows the pointer again, because a callback may
  have destroyed the channel. \<open>run\<close> runs the callbacks without argument and \<open>run_read\<close> the
  read callback, which gets the receive time.
\<close>

definition event_stage ::
    "('cb channel \<Rightarrow> bool) \<Rightarrow>
     ('cb \<Rightarrow> ('cb, 'a) chan_store_scheme \<Rightarrow> ('cb, 'a) chan_store_scheme result) \<Rightarrow>
     ('cb channel \<Rightarrow> 'cb option) \<Rightarrow> ptr \<Rightarrow>
     ('cb, 'a) chan_store_scheme \<Rightarrow> ('cb, 'a) chan_store_scheme result" where
  "event_stage test run cb p s =
     rbind (chan p s) (\<lambda>c. if test c then call_if run (cb c) s else Inr s)"

definition handleEvent ::
    "('cb \<Rightarrow> ('cb, 'a) chan_store_scheme \<Rightarrow> ('cb, 'a) chan_store_scheme result) \<Rightarrow>
     ('cb \<Rightarrow> int \<Rightarrow> ('cb, 'a) chan_store_scheme \<Rightarrow> ('cb, 'a) chan_store_scheme result) \<Rightarrow>
     ptr \<Rightarrow> int \<Rightarrow> ('cb, 'a) chan_store_scheme \<Rightarrow> ('cb, 'a) chan_store_scheme result" where
  "handleEvent run run_read p receiveTime s =
     rbind (set_chan p (\<lambda>c. c\<lparr>eventHandling := True\<rparr>) s) (\<lambda>s.
     rbind (event_stage (\<lambda>c. has (ch_revents c) EPOLLHUP \<and> \<not> has (ch_revents c) EPOLLIN)
              run closeCallback p s) (\<lambda>s.
     rbind (event_stage (\<lambda>c. has (ch_revents c) EPOLLERR) run errorCallback p s) (\<lambda>s.
     rbind (event_stage (\<lambda>c. has (ch_revents c) (EPOLLIN OR EPOLLPRI OR EPOLLRDHUP))
              (\<lambda>f. run_read f receiveTime) readCallback p s) (\<lambda>s.
     rbind (event_stage (\<lambda>c. has (ch_revents c) EPOLLOUT) run writeCallback p s) (\<lambda>s.
     set_chan p (\<lambda>c. c\<lparr>eventHandling := False\<rparr>) s)))))"

text \<open>Which callbacks a channel's reported events call for, in the order of the code, and what
  running a list of callbacks does.\<close>

fun opt_list :: "'x option \<Rightarrow> 'x list" where
  "opt_list None = []"
| "opt_list (Some x) = [x]"

definition callbacks_due ::
    "('cb \<Rightarrow> 's \<Rightarrow> 's result) \<Rightarrow> ('cb \<Rightarrow> int \<Rightarrow> 's \<Rightarrow> 's result) \<Rightarrow> int \<Rightarrow> 'cb channel \<Rightarrow>
     ('s \<Rightarrow> 's result) list" where
  "callbacks_due run run_read t c =
     (if has (ch_revents c) EPOLLHUP \<and> \<not> has (ch_revents c) EPOLLIN
      then map run (opt_list (closeCallback c)) else [])
     @ (if has (ch_revents c) EPOLLERR then map run (opt_list (errorCallback c)) else [])
     @ (if has (ch_revents c) EPOLLIN \<or> has (ch_revents c) EPOLLPRI \<or> has (ch_revents c) EPOLLRDHUP
        then map (\<lambda>f. run_read f t) (opt_list (readCallback c)) else [])
     @ (if has (ch_revents c) EPOLLOUT then map run (opt_list (writeCallback c)) else [])"

fun run_all :: "('s \<Rightarrow> 's result) list \<Rightarrow> 's \<Rightarrow> 's result" where
  "run_all [] s = Inr s"
| "run_all (f # fs) s = rbind (f s) (run_all fs)"

section \<open>Lemmas\<close>

text \<open>The read mask as the simplifier sees it.\<close>

lemma has_readable [simp]:
  "has m 8195 \<longleftrightarrow> has m EPOLLIN \<or> has m EPOLLPRI \<or> has m EPOLLRDHUP"
proof -
  have "(8195 :: events) = EPOLLIN OR (EPOLLPRI OR EPOLLRDHUP)" by simp
  then show ?thesis by (simp only: has_or)
qed

lemma chan_Some [simp]: "chans s p = Some c \<Longrightarrow> chan p s = Inr c"
  by (simp add: chan_def)

lemma chan_None: "chans s p = None \<Longrightarrow> chan p s = Inl UseAfterFree"
  by (simp add: chan_def)

lemma set_chan_Some [simp]:
  "chans s p = Some c \<Longrightarrow> set_chan p f s = Inr (s\<lparr>chans := (chans s)(p \<mapsto> f c)\<rparr>)"
  by (simp add: set_chan_def)

lemma set_chan_None: "chans s p = None \<Longrightarrow> set_chan p f s = Inl UseAfterFree"
  by (simp add: set_chan_def chan_None)

text \<open>A callback that destroys the channel it is called from makes \<^verbatim>\<open>handleEvent\<close> touch freed
  memory, whichever callback it is.\<close>

lemma handleEvent_close_frees:
  assumes c: "chans s p = Some c" and cb: "closeCallback c = Some f"
    and ev: "has (ch_revents c) EPOLLHUP" "\<not> has (ch_revents c) EPOLLIN"
    and run: "run f (s\<lparr>chans := (chans s)(p \<mapsto> c\<lparr>eventHandling := True\<rparr>)\<rparr>) = Inr s'"
    and freed: "chans s' p = None"
  shows "handleEvent run run_read p t s = Inl UseAfterFree"
  using assms by (simp add: handleEvent_def event_stage_def call_if_def chan_None)

lemma handleEvent_read_frees:
  assumes c: "chans s p = Some c" and cb: "readCallback c = Some f"
    and ev: "has (ch_revents c) EPOLLIN" "\<not> has (ch_revents c) EPOLLERR"
    and run: "run_read f t (s\<lparr>chans := (chans s)(p \<mapsto> c\<lparr>eventHandling := True\<rparr>)\<rparr>) = Inr s'"
    and freed: "chans s' p = None"
  shows "handleEvent run run_read p t s = Inl UseAfterFree"
  using assms by (simp add: handleEvent_def event_stage_def call_if_def chan_None)

lemma run_all_append: "run_all (fs @ gs) = (\<lambda>s. rbind (run_all fs s) (run_all gs))"
proof (induction fs)
  case (Cons f fs)
  then show ?case by (intro ext) (simp add: rbind_assoc)
qed simp

lemma run_all_single [simp]: "run_all [f] s = f s"
  by (cases "f s") auto

text \<open>One stage of \<^verbatim>\<open>handleEvent\<close>, given that the channel is there and the callback keeps it.\<close>

lemma stage_then:
  assumes c: "chans s p = Some c"
    and frame: "\<And>f s s'. run f s = Inr s' \<Longrightarrow> chans s' p = chans s p"
    and k: "\<And>s'. chans s' p = Some c \<Longrightarrow> k s' = k' s'"
  shows "rbind (event_stage test run cb p s) k
    = rbind (run_all (if test c then map run (opt_list (cb c)) else []) s) k'"
proof (cases "test c \<and> cb c \<noteq> None")
  case True
  then obtain f where f: "cb c = Some f" "test c" by auto
  show ?thesis
  proof (cases "run f s")
    case (Inr s')
    then have "k s' = k' s'" using frame c k by simp
    with Inr f c show ?thesis by (simp add: event_stage_def call_if_def)
  qed (simp add: event_stage_def call_if_def f c)
qed (auto simp: event_stage_def call_if_def c k)

section \<open>Properties\<close>



end
