(* ===== verification/Event_Registry.thy ===== *)
theory Event_Registry
  imports Sys
begin

text \<open>
  The interface between channels and the poller: a client changes the mask of events it wants
  a channel to be watched for, and the poller promises that the kernel's interest follows.
  \<open>Poller\<close> interprets it.
\<close>

fun change_all :: "((events \<Rightarrow> events) \<Rightarrow> 's \<Rightarrow> 's result) \<Rightarrow> (events \<Rightarrow> events) list \<Rightarrow> 's \<Rightarrow> 's result" where
  "change_all change [] s = Inr s"
| "change_all change (f # fs) s = rbind (change f s) (change_all change fs)"

text \<open>
  \<open>wanted\<close> is the mask a channel holds and \<open>watch\<close> what the kernel has. A change to the empty
  mask deletes the entry of a channel that is watched, and adds one with the empty mask for
  one that is not.
\<close>

locale event_registry =
  fixes ok :: "'s \<Rightarrow> ptr \<Rightarrow> bool"
    and wanted :: "'s \<Rightarrow> ptr \<Rightarrow> events option"
    and watch :: "'s \<Rightarrow> ptr \<Rightarrow> events option"
    and change :: "(events \<Rightarrow> events) \<Rightarrow> ptr \<Rightarrow> 's \<Rightarrow> 's result"
  assumes change: "ok s p \<Longrightarrow> wanted s p = Some m \<Longrightarrow>
    yields (change f p s) (\<lambda>s'. ok s' p \<and> wanted s' p = Some (f m)
      \<and> watch s' p = (if f m = 0 \<and> watch s p \<noteq> None then None else Some (f m))
      \<and> (\<forall>q. q \<noteq> p \<longrightarrow> wanted s' q = wanted s q \<and> watch s' q = watch s q))"
begin

text \<open>After any sequence of changes the kernel watches for the mask they end in, unless that is
  empty, and no other channel is touched.\<close>

lemma change_all_watch:
  "ok s p \<Longrightarrow> wanted s p = Some m \<Longrightarrow> fs \<noteq> [] \<Longrightarrow>
   yields (change_all (\<lambda>f. change f p) fs s) (\<lambda>s'. ok s' p
     \<and> wanted s' p = Some (fold (\<lambda>f. f) fs m)
     \<and> (fold (\<lambda>f. f) fs m \<noteq> 0 \<longrightarrow> watch s' p = Some (fold (\<lambda>f. f) fs m))
     \<and> (\<forall>q. q \<noteq> p \<longrightarrow> wanted s' q = wanted s q \<and> watch s' q = watch s q))"
proof (induction fs arbitrary: s m)
  case (Cons f fs)
  obtain s1 where s1: "change f p s = Inr s1" "ok s1 p" "wanted s1 p = Some (f m)"
      "watch s1 p = (if f m = 0 \<and> watch s p \<noteq> None then None else Some (f m))"
      "\<forall>q. q \<noteq> p \<longrightarrow> wanted s1 q = wanted s q \<and> watch s1 q = watch s q"
    using change[OF Cons.prems(1,2), of f] by (auto elim: yieldsE)
  show ?case
  proof (cases "fs = []")
    case True
    with s1 show ?thesis by simp
  next
    case False
    from Cons.IH[OF s1(2,3) False] s1 show ?thesis by (auto elim!: yields_mono)
  qed
qed simp

end

end
