(* ===== verification/Poller.thy ===== *)
theory Poller
  imports Channel Event_Registry
begin

unbundle bit_operations_syntax

text \<open>
  The epoll poller of \<^verbatim>\<open>netlib/Poller.hpp\<close> and \<^verbatim>\<open>netlib/Poller.cpp\<close>: the map from descriptors to
  channels, the registration state of each channel (\<open>kNew\<close>, \<open>kAdded\<close>, \<open>kDeleted\<close>, kept in the
  channel itself), the event array and the calls to \<^verbatim>\<open>epoll_ctl\<close> and \<^verbatim>\<open>epoll_wait\<close>. The
  invariant ties the three to what the kernel watches.
\<close>

section \<open>State\<close>

record 'cb poller = "'cb chan_store" +
  epollfd :: fd
  pevents :: "(events \<times> ptr) list"
  channels :: "fd \<rightharpoonup> ptr"

definition kNew :: int where "kNew = - 1"
definition kAdded :: int where "kAdded = 1"
definition kDeleted :: int where "kDeleted = 2"

text \<open>The largest vector of the 12-byte \<^verbatim>\<open>struct epoll_event\<close>.\<close>

definition pevents_max :: nat where
  "pevents_max = (2 ^ 63 - 1) div 12"

section \<open>Operations\<close>

definition init_Poller :: "os \<Rightarrow> ('cb, 'a) poller_scheme \<Rightarrow> ('cb, 'a) poller_scheme" where
  "init_Poller os s =
     (let (r, s1) = sys_epoll_create os s
      in s1\<lparr>epollfd := (case r of Inl _ \<Rightarrow> - 1 | Inr f \<Rightarrow> f),
            pevents := replicate 16 (0, 0), channels := Map.empty\<rparr>)"

definition destroy_Poller :: "os \<Rightarrow> ('cb, 'a) poller_scheme \<Rightarrow> ('cb, 'a) poller_scheme" where
  "destroy_Poller os s = sys_close os (epollfd s) s"

fun fill_loop ::
    "(events \<times> ptr) list \<Rightarrow> ptr list \<Rightarrow> ('cb, 'a) poller_scheme \<Rightarrow>
     (ptr list \<times> ('cb, 'a) poller_scheme) result" where
  "fill_loop [] active s = Inr (active, s)"
| "fill_loop ((ev, p) # es) active s =
     rbind (set_revents p ev s) (fill_loop es (active @ [p]))"

definition fillActiveChannels ::
    "nat \<Rightarrow> ptr list \<Rightarrow> ('cb, 'a) poller_scheme \<Rightarrow>
     (ptr list \<times> ('cb, 'a) poller_scheme) result" where
  "fillActiveChannels numEvents active s = fill_loop (take numEvents (pevents s)) active s"

definition resize_events :: "nat \<Rightarrow> ('cb, 'a) poller_scheme \<Rightarrow> ('cb, 'a) poller_scheme result" where
  "resize_events n s =
     (if pevents_max < n then Inl LengthError
      else Inr (s\<lparr>pevents := take n (pevents s) @ replicate (n - length (pevents s)) (0, 0)\<rparr>))"

text \<open>\<^verbatim>\<open>poll\<close>: the kernel writes the reported events to the front of the array; a report that
  does not fit is a write outside it. The result is the return value, the list of active
  channels and the state.\<close>

definition poll ::
    "os \<Rightarrow> int \<Rightarrow> ptr list \<Rightarrow> ('cb, 'a) poller_scheme \<Rightarrow>
     (int \<times> ptr list \<times> ('cb, 'a) poller_scheme) result" where
  "poll os timeoutMs active s =
     (let (r, s1) = sys_epoll_wait os (epollfd s) (to_int32 (int (length (pevents s)))) timeoutMs s;
          now = to_int32 (os_time os (trace s1))
      in case r of
           Inl e \<Rightarrow> Inr (now, active, s1)
         | Inr evs \<Rightarrow>
             rbind (store (pevents s1) 0 evs) (\<lambda>es.
               let s2 = s1\<lparr>pevents := es\<rparr> in
               if evs = [] then Inr (now, active, s2)
               else rbind (fillActiveChannels (length evs) active s2) (\<lambda>(active', s3).
                    rbind (resize_events (2 * length (pevents s3)) s3) (\<lambda>s4.
                      Inr (now, active', s4)))))"

definition update ::
    "os \<Rightarrow> ctl_op \<Rightarrow> ptr \<Rightarrow> ('cb, 'a) poller_scheme \<Rightarrow> ('cb, 'a) poller_scheme result" where
  "update os ctl p s =
     rbind (chan p s) (\<lambda>c.
       Inr (snd (sys_epoll_ctl os (epollfd s) ctl (ch_fd c) (ch_events c) p s)))"

definition updateChannel ::
    "os \<Rightarrow> ptr \<Rightarrow> ('cb, 'a) poller_scheme \<Rightarrow> ('cb, 'a) poller_scheme result" where
  "updateChannel os p s =
     rbind (chan p s) (\<lambda>c.
       if ch_index c = kNew \<or> ch_index c = kDeleted
       then let s1 = (if ch_index c = kNew then s\<lparr>channels := (channels s)(ch_fd c \<mapsto> p)\<rparr> else s)
            in rbind (set_index p kAdded s1) (update os EPOLL_CTL_ADD p)
       else if isNoneEvent c
            then rbind (update os EPOLL_CTL_DEL p s) (set_index p kDeleted)
            else update os EPOLL_CTL_MOD p s)"

definition removeChannel ::
    "os \<Rightarrow> ptr \<Rightarrow> ('cb, 'a) poller_scheme \<Rightarrow> ('cb, 'a) poller_scheme result" where
  "removeChannel os p s =
     rbind (chan p s) (\<lambda>c.
       let s1 = s\<lparr>channels := (channels s)(ch_fd c := None)\<rparr>
       in rbind (if ch_index c = kAdded then update os EPOLL_CTL_DEL p s1 else Inr s1)
            (set_index p kNew))"

section \<open>Invariant\<close>

text \<open>What the kernel watches for this poller.\<close>

definition registered :: "('cb, 'a) poller_scheme \<Rightarrow> (fd \<rightharpoonup> events \<times> ptr)" where
  "registered s = interest (epollfd s) (trace s)"

definition channel_ok :: "('cb, 'a) poller_scheme \<Rightarrow> ptr \<Rightarrow> 'cb channel \<Rightarrow> bool" where
  "channel_ok s p c \<longleftrightarrow>
     (ch_index c = kNew \<or> ch_index c = kAdded \<or> ch_index c = kDeleted)
     \<and> (ch_index c \<noteq> kNew \<longrightarrow> channels s (ch_fd c) = Some p)
     \<and> (ch_index c = kDeleted \<longrightarrow> registered s (ch_fd c) = None)
     \<and> (ch_index c = kAdded \<longrightarrow> (\<exists>ev. registered s (ch_fd c) = Some (ev, p)))"

definition poller_ok :: "('cb, 'a) poller_scheme \<Rightarrow> bool" where
  "poller_ok s \<longleftrightarrow>
     (\<forall>p c. chans s p = Some c \<longrightarrow> channel_ok s p c)
     \<and> (\<forall>f p. channels s f = Some p \<longrightarrow>
          (\<exists>c. chans s p = Some c \<and> ch_fd c = f \<and> ch_index c \<noteq> kNew))
     \<and> (\<forall>f ev p. registered s f = Some (ev, p) \<longrightarrow>
          (\<exists>c. chans s p = Some c \<and> ch_fd c = f \<and> ch_index c = kAdded))"

text \<open>What the kernel watches a channel for.\<close>

definition watched :: "('cb, 'a) poller_scheme \<Rightarrow> ptr \<Rightarrow> events option" where
  "watched s p =
     (case chans s p of None \<Rightarrow> None
      | Some c \<Rightarrow> (case registered s (ch_fd c) of None \<Rightarrow> None
                   | Some (ev, q) \<Rightarrow> if q = p then Some ev else None))"

text \<open>A channel that may be updated: its descriptor is open, and no other channel has it.\<close>

definition usable :: "os \<Rightarrow> ('cb, 'a) poller_scheme \<Rightarrow> ptr \<Rightarrow> bool" where
  "usable os s p \<longleftrightarrow>
     (\<exists>c. chans s p = Some c \<and> ctl_works os (epollfd s) (ch_fd c)
        \<and> (ch_index c = kNew \<longrightarrow> channels s (ch_fd c) = None))"

text \<open>What an update does to a channel: its next index, and what is watched.\<close>

definition next_index :: "'cb channel \<Rightarrow> int" where
  "next_index c = (if ch_index c = kAdded \<and> isNoneEvent c then kDeleted else kAdded)"

definition index_after :: "'cb channel \<Rightarrow> int" where
  "index_after c =
     (if ch_index c = kNew \<or> ch_index c = kDeleted then kAdded
      else if isNoneEvent c then kDeleted else ch_index c)"

definition next_watch :: "ptr \<Rightarrow> 'cb channel \<Rightarrow> (events \<times> ptr) option" where
  "next_watch p c = (if ch_index c = kAdded \<and> isNoneEvent c then None else Some (ch_events c, p))"

text \<open>The mask a channel holds, and a change of it followed by an update.\<close>

definition wanted :: "('cb, 'a) poller_scheme \<Rightarrow> ptr \<Rightarrow> events option" where
  "wanted s p = map_option ch_events (chans s p)"

definition change_events ::
    "os \<Rightarrow> (events \<Rightarrow> events) \<Rightarrow> ptr \<Rightarrow> ('cb, 'a) poller_scheme \<Rightarrow> ('cb, 'a) poller_scheme result" where
  "change_events os f p s =
     rbind (set_chan p (\<lambda>c. c\<lparr>ch_events := f (ch_events c)\<rparr>) s) (updateChannel os p)"

text \<open>
  What \<^verbatim>\<open>epoll_wait\<close> is documented to return: at most as many events as it was asked for, each
  for an entry of the interest list, and at most one per entry.
\<close>

definition wait_contract :: "os \<Rightarrow> bool" where
  "wait_contract os \<longleftrightarrow>
     (\<forall>tr ep n timeout evs. os_epoll_wait os tr ep n timeout = Inr evs \<longrightarrow>
        int (length evs) \<le> max 0 n \<and> distinct (map snd evs)
        \<and> (\<forall>(ev, p) \<in> set evs. \<exists>f ev'. interest ep tr f = Some (ev', p)))"

text \<open>Polling a number of times, and how many of the waits of a trace reported an event.\<close>

fun poll_rounds ::
    "os \<Rightarrow> int \<Rightarrow> nat \<Rightarrow> ('cb, 'a) poller_scheme \<Rightarrow> ('cb, 'a) poller_scheme result" where
  "poll_rounds os timeoutMs 0 s = Inr s"
| "poll_rounds os timeoutMs (Suc n) s =
     rbind (poll os timeoutMs [] s) (\<lambda>(now, active, s'). poll_rounds os timeoutMs n s')"

fun reports :: "sys_event \<Rightarrow> bool" where
  "reports (EvEpollWait ep n timeout (Inr (e # es))) \<longleftrightarrow> True"
| "reports _ \<longleftrightarrow> False"

definition busy_waits :: "sys_event list \<Rightarrow> nat" where
  "busy_waits tr = length (filter reports tr)"

text \<open>A state with one channel, registered for reading.\<close>

definition sample_poller :: "int poller" where
  "sample_poller =
     \<lparr>trace = [EvEpollCtl 3 EPOLL_CTL_ADD 5 3 7 None], errno = 0,
      chans = [7 \<mapsto> (new_Channel 5)\<lparr>ch_events := 3, ch_index := kAdded\<rparr>],
      epollfd = 3, pevents = replicate 16 (0, 0), channels = [5 \<mapsto> 7]\<rparr>"

section \<open>Registration\<close>

lemma index_distinct [simp]:
  "kNew \<noteq> kAdded" "kAdded \<noteq> kNew" "kNew \<noteq> kDeleted" "kDeleted \<noteq> kNew" "kAdded \<noteq> kDeleted"
  "kDeleted \<noteq> kAdded"
  by (simp_all add: kNew_def kAdded_def kDeleted_def)

lemma poller_okD:
  assumes "poller_ok s"
  shows "chans s p = Some c \<Longrightarrow> channel_ok s p c"
    and "channels s f = Some p \<Longrightarrow> \<exists>c. chans s p = Some c \<and> ch_fd c = f \<and> ch_index c \<noteq> kNew"
    and "registered s f = Some (ev, p) \<Longrightarrow>
      \<exists>c. chans s p = Some c \<and> ch_fd c = f \<and> ch_index c = kAdded"
  using assms unfolding poller_ok_def by blast+

text \<open>A descriptor without a channel is not watched.\<close>

lemma unregistered:
  assumes ok: "poller_ok s" and "channels s f = None"
  shows "registered s f = None"
proof (rule ccontr)
  assume "registered s f \<noteq> None"
  then obtain ev q where "registered s f = Some (ev, q)" by auto
  with ok obtain c where "chans s q = Some c" "ch_fd c = f" "ch_index c = kAdded"
    using poller_okD(3) by blast
  with ok assms(2) show False by (auto dest: poller_okD(1) simp: channel_ok_def)
qed

text \<open>Replacing the registration state of one channel, in all three places at once.\<close>

lemma poller_ok_upd:
  assumes ok: "poller_ok s" and c: "chans s p = Some c"
    and own: "ch_index c = kNew \<longrightarrow> channels s (ch_fd c) = None"
    and chans': "chans s' = (chans s)(p \<mapsto> c\<lparr>ch_index := i\<rparr>)"
    and channels': "channels s' = (channels s)(ch_fd c := m)"
    and reg': "registered s' = (registered s)(ch_fd c := r)"
    and state: "i = kAdded \<and> m = Some p \<and> (\<exists>ev. r = Some (ev, p)) \<or>
      i = kDeleted \<and> m = Some p \<and> r = None \<or> i = kNew \<and> m = None \<and> r = None"
  shows "poller_ok s'"
proof -
  note D = poller_okD[OF ok]
  have sole: "q = p" if "chans s q = Some d" "ch_index d \<noteq> kNew" "ch_fd d = ch_fd c" for q d
    using D(1)[OF that(1)] D(1)[OF c] that own by (auto simp: channel_ok_def)
  have "channel_ok s' q d" if "chans s' q = Some d" for q d
  proof (cases "q = p")
    case True
    with that state show ?thesis by (auto simp: channel_ok_def chans' channels' reg')
  next
    case False
    with that have d: "chans s q = Some d" by (simp add: chans')
    from D(1)[OF d] sole[OF d] False show ?thesis by (auto simp: channel_ok_def channels' reg')
  qed
  moreover have "\<exists>d. chans s' q = Some d \<and> ch_fd d = f \<and> ch_index d \<noteq> kNew"
    if "channels s' f = Some q" for f q
  proof (cases "f = ch_fd c")
    case True
    with that state show ?thesis by (auto simp: chans' channels')
  next
    case False
    with that D(2) obtain d where d: "chans s q = Some d" "ch_fd d = f" "ch_index d \<noteq> kNew"
      by (fastforce simp: channels')
    with False c show ?thesis by (cases "q = p") (auto simp: chans')
  qed
  moreover have "\<exists>d. chans s' q = Some d \<and> ch_fd d = f \<and> ch_index d = kAdded"
    if "registered s' f = Some (ev, q)" for f ev q
  proof (cases "f = ch_fd c")
    case True
    with that state show ?thesis by (auto simp: chans' reg')
  next
    case False
    with that D(3) obtain d where d: "chans s q = Some d" "ch_fd d = f" "ch_index d = kAdded"
      by (fastforce simp: reg')
    with False c show ?thesis by (cases "q = p") (auto simp: chans')
  qed
  ultimately show ?thesis unfolding poller_ok_def by blast
qed

lemma update_success:
  assumes "chans s p = Some c"
    and "os_epoll_ctl os (trace s) (epollfd s) ctl (ch_fd c) (ch_events c) p = None"
  shows "yields (update os ctl p s) (\<lambda>s'. chans s' = chans s \<and> channels s' = channels s
    \<and> epollfd s' = epollfd s \<and> pevents s' = pevents s \<and> registered s' = (registered s)
        (ch_fd c := if ctl = EPOLL_CTL_DEL then None else Some (ch_events c, p)))"
  using assms by (auto simp: update_def sys_epoll_ctl_def record_call_def registered_def fun_eq_iff)

text \<open>What the two registration calls do whatever the kernel answers.\<close>

lemma update_total:
  "chans s p = Some c \<Longrightarrow> yields (update os ctl p s) (\<lambda>s'. chans s' = chans s
    \<and> channels s' = channels s \<and> epollfd s' = epollfd s \<and> pevents s' = pevents s
    \<and> poller.more s' = poller.more s
    \<and> (\<exists>r. trace s' = trace s @ [EvEpollCtl (epollfd s) ctl (ch_fd c) (ch_events c) p r]))"
  by (simp add: update_def sys_epoll_ctl_def record_call_def Let_def)

lemma updateChannel_total:
  assumes c: "chans s p = Some c"
  shows "yields (updateChannel os p s) (\<lambda>s'.
    chans s' = (chans s)(p \<mapsto> c\<lparr>ch_index := index_after c\<rparr>) \<and> epollfd s' = epollfd s
    \<and> channels s' = (if ch_index c = kNew then (channels s)(ch_fd c \<mapsto> p) else channels s)
    \<and> pevents s' = pevents s \<and> poller.more s' = poller.more s
    \<and> (\<exists>ctl r. trace s' = trace s @ [EvEpollCtl (epollfd s) ctl (ch_fd c) (ch_events c) p r]))"
proof -
  have same: "(chans s)(p \<mapsto> c) = chans s" by (simp add: c fun_upd_idem)
  consider (add) "ch_index c = kNew \<or> ch_index c = kDeleted"
    | (del) "\<not> (ch_index c = kNew \<or> ch_index c = kDeleted)" "isNoneEvent c"
    | (change) "\<not> (ch_index c = kNew \<or> ch_index c = kDeleted)" "\<not> isNoneEvent c" by blast
  then show ?thesis
  proof cases
    case add
    let ?s = "(if ch_index c = kNew then s\<lparr>channels := (channels s)(ch_fd c \<mapsto> p)\<rparr> else s)
      \<lparr>chans := (chans s)(p \<mapsto> c\<lparr>ch_index := kAdded\<rparr>)\<rparr>"
    have "updateChannel os p s = update os EPOLL_CTL_ADD p ?s"
      using add c by (auto simp: updateChannel_def set_index_def)
    moreover have c': "chans ?s p = Some (c\<lparr>ch_index := kAdded\<rparr>)" by simp
    ultimately show ?thesis
      using update_total[OF c', of os EPOLL_CTL_ADD] add
      by (auto simp: index_after_def elim!: yields_mono)
  next
    case del
    from update_total[OF c, of os EPOLL_CTL_DEL] del c show ?thesis
      by (auto simp: updateChannel_def index_after_def yields_rbind set_index_def elim!: yields_mono)
  next
    case change
    from update_total[OF c, of os EPOLL_CTL_MOD] change c same show ?thesis
      by (auto simp: updateChannel_def index_after_def elim!: yields_mono)
  qed
qed

lemma removeChannel_total:
  assumes c: "chans s p = Some c"
  shows "yields (removeChannel os p s) (\<lambda>s'. chans s' = (chans s)(p \<mapsto> c\<lparr>ch_index := kNew\<rparr>)
    \<and> channels s' = (channels s)(ch_fd c := None) \<and> epollfd s' = epollfd s
    \<and> pevents s' = pevents s \<and> poller.more s' = poller.more s
    \<and> (\<exists>r. trace s' = trace s @ (if ch_index c = kAdded
        then [EvEpollCtl (epollfd s) EPOLL_CTL_DEL (ch_fd c) (ch_events c) p r] else [])))"
proof -
  let ?s = "s\<lparr>channels := (channels s)(ch_fd c := None)\<rparr>"
  have "chans ?s p = Some c" using c by simp
  from update_total[OF this, of os EPOLL_CTL_DEL] c show ?thesis
    by (cases "ch_index c = kAdded")
      (auto simp: removeChannel_def yields_rbind set_index_def elim!: yields_mono)
qed

lemma updateChannel_added:
  assumes ok: "poller_ok s" and us: "usable os s p" and c: "chans s p = Some c" and True: "ch_index c = kAdded"
  shows "yields (updateChannel os p s) (\<lambda>s'.
    chans s' = (chans s)(p \<mapsto> c\<lparr>ch_index := next_index c\<rparr>)
    \<and> channels s' = (channels s)(ch_fd c \<mapsto> p) \<and> epollfd s' = epollfd s
    \<and> pevents s' = pevents s \<and> registered s' = (registered s)(ch_fd c := next_watch p c))"
proof -
  have cok: "channel_ok s p c" using ok c by (rule poller_okD(1))
  have works: "ctl_works os (epollfd s) (ch_fd c)"
    and own: "ch_index c = kNew \<longrightarrow> channels s (ch_fd c) = None"
    using us c by (auto simp: usable_def)
  have reg: "registered s (ch_fd c) \<noteq> None" and m: "channels s (ch_fd c) = Some p"
    using cok True by (auto simp: channel_ok_def)
  then have succ: "os_epoll_ctl os (trace s) (epollfd s) EPOLL_CTL_DEL (ch_fd c) (ch_events c) p = None"
    "os_epoll_ctl os (trace s) (epollfd s) EPOLL_CTL_MOD (ch_fd c) (ch_events c) p = None"
    using works by (auto simp: ctl_works_def registered_def)
  have m': "(channels s)(ch_fd c \<mapsto> p) = channels s" using m by (simp add: fun_upd_idem)
  have c': "(chans s)(p \<mapsto> c\<lparr>ch_index := kAdded\<rparr>) = chans s"
    using c True by (simp add: fun_upd_idem)
  show ?thesis
  proof (cases "isNoneEvent c")
    case none: True
    show ?thesis
      using update_success[OF c succ(1)] none True c m'
      by (auto simp: updateChannel_def yields_rbind set_index_def next_index_def next_watch_def
          registered_def elim!: yields_mono)
  next
    case False
    show ?thesis
      using update_success[OF c succ(2)] False True c m' c'
      by (auto simp: updateChannel_def next_index_def next_watch_def elim!: yields_mono)
  qed
qed

lemma updateChannel_unadded:
  assumes ok: "poller_ok s" and us: "usable os s p" and c: "chans s p = Some c" and False: "ch_index c \<noteq> kAdded"
  shows "yields (updateChannel os p s) (\<lambda>s'.
    chans s' = (chans s)(p \<mapsto> c\<lparr>ch_index := next_index c\<rparr>)
    \<and> channels s' = (channels s)(ch_fd c \<mapsto> p) \<and> epollfd s' = epollfd s
    \<and> pevents s' = pevents s \<and> registered s' = (registered s)(ch_fd c := next_watch p c))"
proof -
  have cok: "channel_ok s p c" using ok c by (rule poller_okD(1))
  have works: "ctl_works os (epollfd s) (ch_fd c)"
    and own: "ch_index c = kNew \<longrightarrow> channels s (ch_fd c) = None"
    using us c by (auto simp: usable_def)
  have idx: "ch_index c = kNew \<or> ch_index c = kDeleted" using cok False by (auto simp: channel_ok_def)
  have reg: "registered s (ch_fd c) = None"
    using idx cok own unregistered[OF ok] by (auto simp: channel_ok_def)
  let ?s1 = "(if ch_index c = kNew then s\<lparr>channels := (channels s)(ch_fd c \<mapsto> p)\<rparr> else s)"
  let ?c = "c\<lparr>ch_index := kAdded\<rparr>"
  let ?s2 = "?s1\<lparr>chans := (chans s)(p \<mapsto> ?c)\<rparr>"
  have ch1: "channels ?s1 = (channels s)(ch_fd c \<mapsto> p)"
    using idx cok by (auto simp: channel_ok_def fun_upd_idem)
  have s2: "set_index p kAdded ?s1 = Inr ?s2" using c by (simp add: set_index_def)
  have c2: "chans ?s2 p = Some ?c" by simp
  have "os_epoll_ctl os (trace ?s2) (epollfd ?s2) EPOLL_CTL_ADD (ch_fd ?c) (ch_events ?c) p = None"
    using works reg by (simp add: ctl_works_def registered_def)
  from update_success[OF c2 this] show ?thesis
    using idx False c s2 ch1
    by (auto simp: updateChannel_def Let_def next_index_def next_watch_def registered_def
        elim!: yields_mono split: if_splits)
qed

lemma updateChannel_effect:
  assumes "poller_ok s" and "usable os s p" and "chans s p = Some c"
  shows "yields (updateChannel os p s) (\<lambda>s'.
    chans s' = (chans s)(p \<mapsto> c\<lparr>ch_index := next_index c\<rparr>)
    \<and> channels s' = (channels s)(ch_fd c \<mapsto> p) \<and> epollfd s' = epollfd s
    \<and> pevents s' = pevents s \<and> registered s' = (registered s)(ch_fd c := next_watch p c))"
  using updateChannel_added[OF assms] updateChannel_unadded[OF assms] by blast

lemma updateChannel_ok:
  assumes ok: "poller_ok s" and us: "usable os s p" and c: "chans s p = Some c"
  shows "yields (updateChannel os p s) (\<lambda>s'. poller_ok s' \<and> usable os s' p
    \<and> chans s' = (chans s)(p \<mapsto> c\<lparr>ch_index := next_index c\<rparr>)
    \<and> channels s' = (channels s)(ch_fd c \<mapsto> p) \<and> epollfd s' = epollfd s
    \<and> pevents s' = pevents s \<and> registered s' = (registered s)(ch_fd c := next_watch p c))"
proof (rule yields_mono[OF updateChannel_effect[OF assms]], elim conjE, intro conjI)
  fix s' :: "('a, 'b) poller_scheme"
  assume e: "chans s' = (chans s)(p \<mapsto> c\<lparr>ch_index := next_index c\<rparr>)"
    "channels s' = (channels s)(ch_fd c \<mapsto> p)" "epollfd s' = epollfd s"
    "registered s' = (registered s)(ch_fd c := next_watch p c)"
  show "poller_ok s'"
    by (rule poller_ok_upd[OF ok c _ e(1,2,4)])
      (use us c in \<open>auto simp: usable_def next_index_def next_watch_def\<close>)
  show "usable os s' p"
    using us c by (auto simp: usable_def e next_index_def)
qed

text \<open>The mask of a channel may change without the poller knowing, until the next update.\<close>

lemma poller_ok_set_events:
  assumes ok: "poller_ok s" and c: "chans s p = Some c"
    and fld: "ch_fd c' = ch_fd c" "ch_index c' = ch_index c"
  shows "poller_ok (s\<lparr>chans := (chans s)(p \<mapsto> c')\<rparr>)"
proof -
  note D = poller_okD[OF ok]
  have "channel_ok (s\<lparr>chans := (chans s)(p \<mapsto> c')\<rparr>) q d"
    if "((chans s)(p \<mapsto> c')) q = Some d" for q d
    using that D(1)[of q] D(1)[OF c] fld
    by (cases "q = p") (auto simp: channel_ok_def registered_def)
  moreover have "\<exists>d. ((chans s)(p \<mapsto> c')) q = Some d \<and> ch_fd d = f \<and> ch_index d \<noteq> kNew"
    if "channels s f = Some q" for f q
    using D(2)[OF that] c fld by (cases "q = p") auto
  moreover have "\<exists>d. ((chans s)(p \<mapsto> c')) q = Some d \<and> ch_fd d = f \<and> ch_index d = kAdded"
    if "registered s f = Some (ev, q)" for f ev q
    using D(3)[OF that] c fld by (cases "q = p") auto
  ultimately show ?thesis unfolding poller_ok_def by (simp add: registered_def)
qed

lemma change_events_ok:
  assumes ok: "poller_ok s" and us: "usable os s p" and c: "chans s p = Some c"
    and c': "c' = c\<lparr>ch_events := f (ch_events c)\<rparr>"
  shows "yields (change_events os f p s) (\<lambda>s'. poller_ok s' \<and> usable os s' p
    \<and> chans s' = (chans s)(p \<mapsto> c'\<lparr>ch_index := next_index c'\<rparr>)
    \<and> channels s' = (channels s)(ch_fd c \<mapsto> p) \<and> epollfd s' = epollfd s
    \<and> pevents s' = pevents s \<and> registered s' = (registered s)(ch_fd c := next_watch p c'))"
proof -
  let ?s = "s\<lparr>chans := (chans s)(p \<mapsto> c')\<rparr>"
  have ok': "poller_ok ?s" by (rule poller_ok_set_events[OF ok c]) (simp_all add: c')
  have us': "usable os ?s p" using us c by (auto simp: usable_def c')
  have "change_events os f p s = updateChannel os p ?s"
    using c by (simp add: change_events_def c')
  then show ?thesis
    using updateChannel_ok[OF ok' us', of c'] by (simp add: c' registered_def)
qed

interpretation er: event_registry "\<lambda>s p. poller_ok s \<and> usable os s p" wanted watched
  "change_events os" for os
proof unfold_locales
  fix s :: "('a, 'b) poller_scheme" and p m f
  assume prem: "poller_ok s \<and> usable os s p" "wanted s p = Some m"
  then obtain c where c: "chans s p = Some c" and m: "m = ch_events c" by (auto simp: wanted_def)
  let ?c = "c\<lparr>ch_events := f m\<rparr>"
  have cok: "channel_ok s p c" using prem c by (blast dest: poller_okD(1))
  have w: "watched s p \<noteq> None \<longleftrightarrow> ch_index c = kAdded"
    using cok prem c unregistered[of s "ch_fd c"]
    by (auto simp: watched_def channel_ok_def usable_def split: option.splits)
  have other: "watched s' q = watched s q"
    if "chans s' = (chans s)(p \<mapsto> ?c\<lparr>ch_index := next_index ?c\<rparr>)"
      "registered s' = (registered s)(ch_fd c := next_watch p ?c)" "q \<noteq> p"
    for s' :: "('a, 'b) poller_scheme" and q
  proof (cases "\<exists>d. chans s q = Some d \<and> ch_fd d = ch_fd c")
    case False
    with that show ?thesis by (auto simp: watched_def split: option.splits)
  next
    case True
    have "watched s q = None"
    proof (rule ccontr)
      assume "watched s q \<noteq> None"
      with True obtain ev where "registered s (ch_fd c) = Some (ev, q)"
        by (auto simp: watched_def split: option.splits if_splits)
      then show False
        using cok prem c that(3) unregistered[of s "ch_fd c"]
        by (auto simp: channel_ok_def usable_def)
    qed
    moreover have "watched s' q = None"
      using True that by (auto simp: watched_def next_watch_def)
    ultimately show ?thesis by simp
  qed
  show "yields (change_events os f p s) (\<lambda>s'. (poller_ok s' \<and> usable os s' p)
      \<and> wanted s' p = Some (f m)
      \<and> watched s' p = (if f m = 0 \<and> watched s p \<noteq> None then None else Some (f m))
      \<and> (\<forall>q. q \<noteq> p \<longrightarrow> wanted s' q = wanted s q \<and> watched s' q = watched s q))"
    using change_events_ok[of s os p c ?c f] prem c m other unfolding w
    by (auto simp: wanted_def watched_def next_watch_def isNoneEvent_def kNoneEvent_def
        elim!: yields_mono)
qed

lemma removeChannel_ok:
  assumes ok: "poller_ok s" and us: "usable os s p" and c: "chans s p = Some c"
  shows "yields (removeChannel os p s) (\<lambda>s'. poller_ok s' \<and> usable os s' p
    \<and> chans s' = (chans s)(p \<mapsto> c\<lparr>ch_index := kNew\<rparr>)
    \<and> channels s' = (channels s)(ch_fd c := None) \<and> epollfd s' = epollfd s
    \<and> pevents s' = pevents s \<and> registered s' = (registered s)(ch_fd c := None))"
proof -
  have cok: "channel_ok s p c" using ok c by (rule poller_okD(1))
  have works: "ctl_works os (epollfd s) (ch_fd c)"
    and own: "ch_index c = kNew \<longrightarrow> channels s (ch_fd c) = None"
    using us c by (auto simp: usable_def)
  let ?s1 = "s\<lparr>channels := (channels s)(ch_fd c := None)\<rparr>"
  have eff: "yields (removeChannel os p s) (\<lambda>s'.
      chans s' = (chans s)(p \<mapsto> c\<lparr>ch_index := kNew\<rparr>)
      \<and> channels s' = (channels s)(ch_fd c := None) \<and> epollfd s' = epollfd s
      \<and> pevents s' = pevents s \<and> registered s' = (registered s)(ch_fd c := None))"
  proof (cases "ch_index c = kAdded")
    case True
    then have "registered s (ch_fd c) \<noteq> None" using cok by (auto simp: channel_ok_def)
    then have "os_epoll_ctl os (trace ?s1) (epollfd ?s1) EPOLL_CTL_DEL (ch_fd c) (ch_events c) p = None"
      using works by (simp add: ctl_works_def registered_def)
    with c have "yields (update os EPOLL_CTL_DEL p ?s1) (\<lambda>s'. chans s' = chans s
        \<and> channels s' = (channels s)(ch_fd c := None)
        \<and> epollfd s' = epollfd s \<and> pevents s' = pevents s
        \<and> registered s' = (registered s)(ch_fd c := None))"
      using update_success[of ?s1 p c os EPOLL_CTL_DEL] by (simp add: registered_def)
    with True c show ?thesis
      by (auto simp: removeChannel_def yields_rbind set_index_def registered_def elim!: yields_mono)
  next
    case False
    then have "registered s (ch_fd c) = None"
      using cok own unregistered[OF ok] by (auto simp: channel_ok_def)
    with False c show ?thesis
      by (auto simp: removeChannel_def set_index_def registered_def fun_eq_iff)
  qed
  show ?thesis
  proof (rule yields_mono[OF eff], elim conjE, intro conjI)
    fix s' :: "('a, 'b) poller_scheme"
    assume e: "chans s' = (chans s)(p \<mapsto> c\<lparr>ch_index := kNew\<rparr>)"
      "channels s' = (channels s)(ch_fd c := None)" "epollfd s' = epollfd s"
      "registered s' = (registered s)(ch_fd c := None)"
    show "poller_ok s'" by (rule poller_ok_upd[OF ok c own e(1,2,4)]) simp
    show "usable os s' p" using works by (simp add: usable_def e)
  qed
qed

section \<open>Polling\<close>

lemma fill_loop_spec:
  assumes "\<forall>(ev, p) \<in> set es. chans s p \<noteq> None"
  shows "yields (fill_loop es active s) (\<lambda>(active', s'). active' = active @ map snd es
    \<and> (\<exists>m. s' = s\<lparr>chans := m\<rparr>)
    \<and> (\<forall>p. map_option (\<lambda>c. c\<lparr>ch_revents := 0\<rparr>) (chans s' p)
         = map_option (\<lambda>c. c\<lparr>ch_revents := 0\<rparr>) (chans s p))
    \<and> (\<forall>p. p \<notin> snd ` set es \<longrightarrow> chans s' p = chans s p)
    \<and> (distinct (map snd es) \<longrightarrow>
         (\<forall>(ev, p) \<in> set es. map_option ch_revents (chans s' p) = Some ev)))"
  using assms
proof (induction es arbitrary: active s)
  case Nil
  show ?case by (simp add: exI[of _ "chans s"])
next
  case (Cons e es)
  obtain ev p where e: "e = (ev, p)" by (cases e)
  with Cons.prems obtain c where c: "chans s p = Some c" by auto
  let ?s = "s\<lparr>chans := (chans s)(p \<mapsto> c\<lparr>ch_revents := ev\<rparr>)\<rparr>"
  have step: "set_revents p ev s = Inr ?s" using c by (simp add: set_revents_def)
  have "\<forall>(ev, p) \<in> set es. chans ?s p \<noteq> None" using Cons.prems by auto
  from Cons.IH[OF this, of "active @ [p]"] show ?case
    using c step by (fastforce simp: e elim!: yields_mono)
qed

lemma to_int32_le: "0 \<le> i \<Longrightarrow> max 0 (to_int32 i) \<le> i"
proof -
  assume i: "0 \<le> i"
  have "sint (word_of_int i :: int32_t) \<le> i" if "0 \<le> sint (word_of_int i :: int32_t)"
  proof -
    have "sint (word_of_int i :: int32_t) = uint (word_of_int i :: int32_t)"
      using that sint_lt[of "word_of_int i :: int32_t"]
      by (simp add: uint_sint take_bit_int_eq_self)
    also have "\<dots> = i mod 2 ^ 32" by (simp add: unsigned_of_int take_bit_eq_mod)
    also have "\<dots> \<le> i" using i by (simp add: zmod_le_nonneg_dividend)
    finally show ?thesis .
  qed
  with i show ?thesis by (cases "0 \<le> to_int32 i") (auto simp: to_int32_def)
qed

lemma poller_ok_frame:
  assumes "poller_ok s" and "channels s' = channels s" and "registered s' = registered s"
    and "\<And>p. map_option (\<lambda>c. c\<lparr>ch_revents := 0\<rparr>) (chans s' p)
      = map_option (\<lambda>c. c\<lparr>ch_revents := 0\<rparr>) (chans s p)"
  shows "poller_ok s'"
proof -
  note D = poller_okD[OF assms(1)]
  have fwd: "\<exists>c. chans s p = Some c \<and> ch_fd c = ch_fd d \<and> ch_index c = ch_index d"
    if "chans s' p = Some d" for p d
    using assms(4)[of p] that by (auto simp: map_option_case split: option.splits dest: arg_cong[of _ _ ch_fd] arg_cong[of _ _ ch_index])
  have bwd: "\<exists>d. chans s' p = Some d \<and> ch_fd c = ch_fd d \<and> ch_index c = ch_index d"
    if "chans s p = Some c" for p c
    using assms(4)[of p] that by (auto simp: map_option_case split: option.splits dest: arg_cong[of _ _ ch_fd] arg_cong[of _ _ ch_index])
  show ?thesis
    unfolding poller_ok_def channel_ok_def assms(2,3)
    using D bwd by (auto dest!: fwd D(1) simp: channel_ok_def) metis+
qed

lemma poll_effect:
  fixes s :: "('cb, 'a) poller_scheme"
  assumes ok: "poller_ok s" and wc: "wait_contract os"
    and size: "2 * length (pevents s) \<le> pevents_max"
    and r: "os_epoll_wait os (trace s) (epollfd s) (to_int32 (int (length (pevents s)))) timeoutMs = r"
  shows "yields (poll os timeoutMs active s) (\<lambda>(now, active', s').
    poller_ok s' \<and> registered s' = registered s \<and> channels s' = channels s
    \<and> epollfd s' = epollfd s \<and> poller.more s' = poller.more s
    \<and> (\<forall>p. map_option (\<lambda>c. c\<lparr>ch_revents := 0\<rparr>) (chans s' p)
         = map_option (\<lambda>c. c\<lparr>ch_revents := 0\<rparr>) (chans s p))
    \<and> trace s' = trace s @ [EvEpollWait (epollfd s) (to_int32 (int (length (pevents s)))) timeoutMs r]
    \<and> (case r of
         Inl e \<Rightarrow> active' = active \<and> chans s' = chans s \<and> length (pevents s') = length (pevents s)
       | Inr evs \<Rightarrow> active' = active @ map snd evs
           \<and> (\<forall>(ev, p) \<in> set evs. map_option ch_revents (chans s' p) = Some ev)
           \<and> (\<forall>p. p \<notin> snd ` set evs \<longrightarrow> chans s' p = chans s p)
           \<and> length (pevents s') = (if evs = [] then 1 else 2) * length (pevents s)))"
proof -
  let ?n = "to_int32 (int (length (pevents s)))"
  define ev where "ev = EvEpollWait (epollfd s) ?n timeoutMs r"
  let ?s1 = "record_call ev (err_of r) s"
  have s1: "sys_epoll_wait os (epollfd s) ?n timeoutMs s = (r, ?s1)"
    by (simp add: sys_epoll_wait_def r ev_def)
  have s1f: "chans ?s1 = chans s" "channels ?s1 = channels s" "epollfd ?s1 = epollfd s"
    "pevents ?s1 = pevents s" "registered ?s1 = registered s" "poller.more ?s1 = poller.more s"
    by (simp_all add: record_call_def registered_def ev_def)
  have ok1: "poller_ok ?s1" by (rule poller_ok_frame[OF ok]) (simp_all add: s1f)
  show ?thesis
  proof (cases r)
    case (Inl e)
    with s1 ok1 s1f show ?thesis by (simp add: poll_def ev_def)
  next
    case (Inr evs)
    from wc r Inr have c: "int (length evs) \<le> max 0 ?n" "distinct (map snd evs)"
      "\<forall>(ev, p) \<in> set evs. \<exists>f ev'. registered s f = Some (ev', p)"
      unfolding wait_contract_def registered_def by blast+
    have len: "length evs \<le> length (pevents s)"
      using c(1) to_int32_le[of "int (length (pevents s))"] by simp
    let ?es = "evs @ drop (length evs) (pevents s)"
    let ?s2 = "?s1\<lparr>pevents := ?es\<rparr>"
    have st: "store (pevents ?s1) 0 evs = Inr ?es" using len s1f by (simp add: store_def)
    have ok2: "poller_ok ?s2"
      by (rule poller_ok_frame[OF ok1]) (simp_all add: registered_def)
    have ex: "\<forall>(ev, p) \<in> set evs. chans ?s2 p \<noteq> None"
      using c(3) poller_okD(3)[OF ok] by (fastforce simp: s1f)
    have fl: "fillActiveChannels (length evs) active ?s2 = fill_loop evs active ?s2"
      by (simp add: fillActiveChannels_def)
    show ?thesis
    proof (cases "evs = []")
      case True
      with s1 st ok2 s1f Inr show ?thesis by (simp add: poll_def ev_def registered_def)
    next
      case False
      from fill_loop_spec[OF ex, of active] c(2) obtain m where m:
          "fill_loop evs active ?s2 = Inr (active @ map snd evs, ?s2\<lparr>chans := m\<rparr>)"
          "\<forall>p. map_option (\<lambda>c. c\<lparr>ch_revents := 0\<rparr>) (m p)
             = map_option (\<lambda>c. c\<lparr>ch_revents := 0\<rparr>) (chans s p)"
          "\<forall>p. p \<notin> snd ` set evs \<longrightarrow> m p = chans s p"
          "\<forall>(ev, p) \<in> set evs. map_option ch_revents (m p) = Some ev"
        by (auto elim!: yieldsE simp: s1f)
      have "poller_ok (?s2\<lparr>chans := m, pevents := es\<rparr>)" for es
        by (rule poller_ok_frame[OF ok1]) (simp_all add: m(2) s1f(1) registered_def)
      then show ?thesis
        using False s1 st m s1f Inr fl size len
        by (auto simp: poll_def ev_def registered_def resize_events_def)
    qed
  qed
qed

lemma busy_waits_simps [simp]:
  "busy_waits [] = 0"
  "busy_waits (ev # tr) = (if reports ev then 1 else 0) + busy_waits tr"
  by (simp_all add: busy_waits_def)

lemma busy_waits_append [simp]: "busy_waits (tr @ tr') = busy_waits tr + busy_waits tr'"
  by (simp add: busy_waits_def)

lemma quietly_busy_waits: "quietly tr tr' \<Longrightarrow> busy_waits tr' = busy_waits tr"
proof -
  have "\<not> reports ev" if "plain ev" for ev
    using that by (cases ev rule: reports.cases) simp_all
  then show "quietly tr tr' \<Longrightarrow> busy_waits tr' = busy_waits tr"
    by (auto simp: quietly_def busy_waits_def filter_empty_conv)
qed

text \<open>How a poll changes the size of the event array.\<close>

lemma poll_size:
  fixes s :: "('cb, 'a) poller_scheme" and timeoutMs :: int
  assumes ok: "poller_ok s" and wc: "wait_contract os"
    and size: "2 * length (pevents s) \<le> pevents_max"
  defines "ev \<equiv> EvEpollWait (epollfd s) (to_int32 (int (length (pevents s)))) timeoutMs
    (os_epoll_wait os (trace s) (epollfd s) (to_int32 (int (length (pevents s)))) timeoutMs)"
  shows "yields (poll os timeoutMs active s) (\<lambda>(now, active', s'). poller_ok s'
    \<and> trace s' = trace s @ [ev]
    \<and> length (pevents s') = (if reports ev then 2 else 1) * length (pevents s))"
proof (cases "os_epoll_wait os (trace s) (epollfd s) (to_int32 (int (length (pevents s)))) timeoutMs")
  case (Inl e)
  show ?thesis
    using poll_effect[OF ok wc size Inl, of active] by (auto simp: ev_def Inl elim!: yields_mono)
next
  case (Inr evs)
  show ?thesis
    using poll_effect[OF ok wc size Inr, of active]
    by (cases evs) (auto simp: ev_def Inr elim!: yields_mono)
qed

lemma poll_rounds_growth:
  fixes s :: "('cb, 'a) poller_scheme"
  assumes "poller_ok s" and wc: "wait_contract os"
    and "length (pevents s) * 2 ^ n \<le> pevents_max"
  shows "yields (poll_rounds os timeoutMs n s) (\<lambda>s'. \<exists>tr. poller_ok s' \<and> trace s' = trace s @ tr
    \<and> length (pevents s') = length (pevents s) * 2 ^ busy_waits tr)"
  using assms(1,3)
proof (induction n arbitrary: s)
  case 0
  then show ?case by simp
next
  case (Suc n)
  have "length (pevents s) * 2 \<le> length (pevents s) * 2 ^ Suc n" by simp
  then have size: "2 * length (pevents s) \<le> pevents_max" using Suc.prems(2) by linarith
  from poll_size[OF Suc.prems(1) wc size, of timeoutMs "[]"] obtain now act s1 ev where
    s1: "poll os timeoutMs [] s = Inr (now, act, s1)" "poller_ok s1" "trace s1 = trace s @ [ev]"
      "length (pevents s1) = (if reports ev then 2 else 1) * length (pevents s)"
    by (auto elim!: yieldsE)
  have "length (pevents s1) * 2 ^ n \<le> pevents_max"
    using Suc.prems(2) s1(4) by (auto split: if_splits)
  from Suc.IH[OF s1(2) this] s1 show ?case
    by (auto elim!: yields_mono)
qed

text \<open>The sample kernel meets the contract.\<close>

lemma sample_wait_contract: "wait_contract (sample_os f ev)"
  by (auto simp: wait_contract_def sample_wait_def split: option.splits if_splits)

lemma sample_poller_ok: "poller_ok sample_poller"
  by (auto simp: sample_poller_def poller_ok_def channel_ok_def registered_def interest_def
      new_Channel_def split: if_splits)

section \<open>Properties\<close>



text \<open>The event array never shrinks and doubles with every poll that reports something,
  instead of growing when it is full: after \<open>k\<close> such polls it has \<open>2 ^ k\<close> times its size. From
  the initial 16 entries the 27th makes the \<^verbatim>\<open>int\<close> that is passed to \<^verbatim>\<open>epoll_wait\<close> as the size
  negative, and from then on the loop polls with an invalid argument.\<close>

theorem poll_array_growth:
  assumes "poller_ok s" and "wait_contract os" and "length (pevents s) * 2 ^ n \<le> pevents_max"
  shows "yields (poll_rounds os timeoutMs n s) (\<lambda>s'. \<exists>tr. poller_ok s' \<and> trace s' = trace s @ tr
    \<and> length (pevents s') = length (pevents s) * 2 ^ busy_waits tr
    \<and> (length (pevents s) = 16 \<and> busy_waits tr = 27 \<longrightarrow>
         to_int32 (int (length (pevents s'))) = - (2 ^ 31)))"
  by (rule yields_mono[OF poll_rounds_growth[OF assms, of timeoutMs]]) (auto simp: to_int32_def)

theorem poll_array_growth_witness:
  "yields (poll_rounds (sample_os 5 1) 10000 2 sample_poller)
     (\<lambda>s'. \<exists>tr. trace s' = EvEpollCtl 3 EPOLL_CTL_ADD 5 3 7 None # tr
        \<and> length (pevents s') = 16 * 2 ^ busy_waits tr)"
proof -
  have "length (pevents sample_poller) * 2 ^ 2 \<le> pevents_max" by (simp add: sample_poller_def pevents_max_def)
  then show ?thesis
    using poll_array_growth[OF sample_poller_ok sample_wait_contract, of 2 5 1 10000]
    by (auto simp: sample_poller_def elim!: yields_mono)
qed

text \<open>C31. Removing a channel undoes its registration everywhere: the kernel stops watching the
  descriptor, the map forgets it, the channel is as new, everything else is kept, and
  so is the invariant. It relies on the descriptor being open (\<open>usable\<close>).\<close>

theorem removeChannel_unregisters:
  assumes "poller_ok s" and "usable os s p" and "chans s p = Some c"
  shows "yields (removeChannel os p s) (\<lambda>s'. poller_ok s' \<and> usable os s' p
    \<and> chans s' = (chans s)(p \<mapsto> c\<lparr>ch_index := kNew\<rparr>) \<and> watched s' p = None
    \<and> channels s' = (channels s)(ch_fd c := None)
    \<and> registered s' = (registered s)(ch_fd c := None))"
  by (rule yields_mono[OF removeChannel_ok[OF assms]]) (auto simp: watched_def)

theorem removeChannel_unregisters_witness:
  "yields (removeChannel (sample_os 5 1) 7 sample_poller)
     (\<lambda>s'. poller_ok s' \<and> watched s' 7 = None \<and> channels s' = Map.empty)"
proof -
  have "usable (sample_os 5 1) sample_poller 7"
    by (auto simp: sample_poller_def usable_def new_Channel_def intro!: sample_ctl_works)
  then show ?thesis
    using removeChannel_unregisters[OF sample_poller_ok, of "sample_os 5 1" 7]
    by (auto simp: sample_poller_def new_Channel_def elim!: yields_mono)
qed

end
