(* ===== verification/EventLoop.thy ===== *)
theory EventLoop
  imports Poller
begin

unbundle bit_operations_syntax

text \<open>
  The event loop of \<^verbatim>\<open>netlib/EventLoop.hpp\<close> and \<^verbatim>\<open>netlib/EventLoop.cpp\<close>, and the members of
  \<^verbatim>\<open>Channel\<close> that go through it (\<^verbatim>\<open>update\<close>, \<^verbatim>\<open>remove\<close>, \<^verbatim>\<open>enableReading\<close> and the like). Functors
  have an abstract type \<open>'f\<close>, run by a function the client gives. The two loops of the class
  may run forever, so they return an option: \<open>None\<close> is a loop that does not end.
\<close>

section \<open>State\<close>

record ('cb, 'f) loop_state = "'cb poller" +
  looping :: bool
  quit_flag :: bool
  pollReturnTime :: int
  activeChannels :: "ptr list"
  pendingFunctors :: "'f list"

definition kPollTimeMs :: int where
  "kPollTimeMs = 10000"

section \<open>Operations\<close>

definition new_EventLoop :: "os \<Rightarrow> ('cb, 'f, 'a) loop_state_scheme \<Rightarrow> ('cb, 'f, 'a) loop_state_scheme" where
  "new_EventLoop os s =
     init_Poller os (s\<lparr>looping := False, quit_flag := False, activeChannels := [],
                       pendingFunctors := []\<rparr>)"

definition quit :: "('cb, 'f, 'a) loop_state_scheme \<Rightarrow> ('cb, 'f, 'a) loop_state_scheme" where
  "quit s = s\<lparr>quit_flag := True\<rparr>"

definition loop_updateChannel ::
    "os \<Rightarrow> ptr \<Rightarrow> ('cb, 'f, 'a) loop_state_scheme \<Rightarrow> ('cb, 'f, 'a) loop_state_scheme result" where
  "loop_updateChannel os p s = updateChannel os p s"

definition loop_removeChannel ::
    "os \<Rightarrow> ptr \<Rightarrow> ('cb, 'f, 'a) loop_state_scheme \<Rightarrow> ('cb, 'f, 'a) loop_state_scheme result" where
  "loop_removeChannel os p s = removeChannel os p s"

definition runInLoop ::
    "'f \<Rightarrow> ('cb, 'f, 'a) loop_state_scheme \<Rightarrow> ('cb, 'f, 'a) loop_state_scheme" where
  "runInLoop f s = s\<lparr>pendingFunctors := pendingFunctors s @ [f]\<rparr>"

text \<open>The members of \<^verbatim>\<open>Channel\<close> that call the loop.\<close>

definition Channel_update ::
    "os \<Rightarrow> ptr \<Rightarrow> ('cb, 'f, 'a) loop_state_scheme \<Rightarrow> ('cb, 'f, 'a) loop_state_scheme result" where
  "Channel_update os p s = loop_updateChannel os p s"

definition Channel_remove ::
    "os \<Rightarrow> ptr \<Rightarrow> ('cb, 'f, 'a) loop_state_scheme \<Rightarrow> ('cb, 'f, 'a) loop_state_scheme result" where
  "Channel_remove os p s = loop_removeChannel os p s"

definition enableReading ::
    "os \<Rightarrow> ptr \<Rightarrow> ('cb, 'f, 'a) loop_state_scheme \<Rightarrow> ('cb, 'f, 'a) loop_state_scheme result" where
  "enableReading os p s =
     rbind (set_chan p (\<lambda>c. c\<lparr>ch_events := ch_events c OR kReadEvent\<rparr>) s) (Channel_update os p)"

definition enableWriting ::
    "os \<Rightarrow> ptr \<Rightarrow> ('cb, 'f, 'a) loop_state_scheme \<Rightarrow> ('cb, 'f, 'a) loop_state_scheme result" where
  "enableWriting os p s =
     rbind (set_chan p (\<lambda>c. c\<lparr>ch_events := ch_events c OR kWriteEvent\<rparr>) s) (Channel_update os p)"

definition disableWriting ::
    "os \<Rightarrow> ptr \<Rightarrow> ('cb, 'f, 'a) loop_state_scheme \<Rightarrow> ('cb, 'f, 'a) loop_state_scheme result" where
  "disableWriting os p s =
     rbind (set_chan p (\<lambda>c. c\<lparr>ch_events := ch_events c AND NOT kWriteEvent\<rparr>) s) (Channel_update os p)"

definition disableAll ::
    "os \<Rightarrow> ptr \<Rightarrow> ('cb, 'f, 'a) loop_state_scheme \<Rightarrow> ('cb, 'f, 'a) loop_state_scheme result" where
  "disableAll os p s =
     rbind (set_chan p (\<lambda>c. c\<lparr>ch_events := kNoneEvent\<rparr>) s) (Channel_update os p)"

text \<open>
  \<^verbatim>\<open>doPendingFunctors\<close>: the condition reads the size of the vector again in every round, since
  a functor may append to it.
\<close>

partial_function (option) pending_loop ::
    "('f \<Rightarrow> ('cb, 'f, 'a) loop_state_scheme \<Rightarrow> ('cb, 'f, 'a) loop_state_scheme result) \<Rightarrow> nat \<Rightarrow>
     ('cb, 'f, 'a) loop_state_scheme \<Rightarrow> ('cb, 'f, 'a) loop_state_scheme result option" where
  "pending_loop run i s =
     (if i < length (pendingFunctors s)
      then (case run (pendingFunctors s ! i) s of
              Inl e \<Rightarrow> Some (Inl e)
            | Inr s' \<Rightarrow> pending_loop run (Suc i) s')
      else Some (Inr s))"

definition doPendingFunctors ::
    "('f \<Rightarrow> ('cb, 'f, 'a) loop_state_scheme \<Rightarrow> ('cb, 'f, 'a) loop_state_scheme result) \<Rightarrow>
     ('cb, 'f, 'a) loop_state_scheme \<Rightarrow> ('cb, 'f, 'a) loop_state_scheme result option" where
  "doPendingFunctors run s = pending_loop run 0 s"

text \<open>\<^verbatim>\<open>printActiveChannels\<close>: the lines it logs, or a fault when a channel is gone.\<close>

fun printActiveChannels ::
    "ptr list \<Rightarrow> ('cb, 'f, 'a) loop_state_scheme \<Rightarrow> string list result" where
  "printActiveChannels [] s = Inr []"
| "printActiveChannels (p # ps) s =
     rbind (chan p s) (\<lambda>c.
     rbind (printActiveChannels ps s) (\<lambda>ls. Inr ((''{'' @ reventsToString c @ ''} '') # ls)))"

text \<open>One pass through the body of the loop, up to the pending functors.\<close>

definition handle_active ::
    "os \<Rightarrow> (ptr \<Rightarrow> int \<Rightarrow> ('cb, 'f, 'a) loop_state_scheme \<Rightarrow> ('cb, 'f, 'a) loop_state_scheme result) \<Rightarrow>
     ('cb, 'f, 'a) loop_state_scheme \<Rightarrow> ('cb, 'f, 'a) loop_state_scheme result" where
  "handle_active os handle s =
     rbind (poll os kPollTimeMs [] (s\<lparr>activeChannels := []\<rparr>)) (\<lambda>(now, active, s1).
     let s2 = s1\<lparr>pollReturnTime := now, activeChannels := active\<rparr> in
     rbind (printActiveChannels active s2) (\<lambda>_.
     run_all (map (\<lambda>p. handle p now) active) s2))"

definition iteration ::
    "os \<Rightarrow> (ptr \<Rightarrow> int \<Rightarrow> ('cb, 'f, 'a) loop_state_scheme \<Rightarrow> ('cb, 'f, 'a) loop_state_scheme result) \<Rightarrow>
     ('f \<Rightarrow> ('cb, 'f, 'a) loop_state_scheme \<Rightarrow> ('cb, 'f, 'a) loop_state_scheme result) \<Rightarrow>
     ('cb, 'f, 'a) loop_state_scheme \<Rightarrow> ('cb, 'f, 'a) loop_state_scheme result option" where
  "iteration os handle run s =
     (case handle_active os handle s of
        Inl e \<Rightarrow> Some (Inl e)
      | Inr s' \<Rightarrow> doPendingFunctors run s')"

partial_function (option) while_not_quit ::
    "os \<Rightarrow> (ptr \<Rightarrow> int \<Rightarrow> ('cb, 'f, 'a) loop_state_scheme \<Rightarrow> ('cb, 'f, 'a) loop_state_scheme result) \<Rightarrow>
     ('f \<Rightarrow> ('cb, 'f, 'a) loop_state_scheme \<Rightarrow> ('cb, 'f, 'a) loop_state_scheme result) \<Rightarrow>
     ('cb, 'f, 'a) loop_state_scheme \<Rightarrow> ('cb, 'f, 'a) loop_state_scheme result option" where
  "while_not_quit os handle run s =
     (if quit_flag s then Some (Inr s)
      else Option.bind (iteration os handle run s) (\<lambda>r.
        case r of Inl e \<Rightarrow> Some (Inl e) | Inr s' \<Rightarrow> while_not_quit os handle run s'))"

definition loop ::
    "os \<Rightarrow> (ptr \<Rightarrow> int \<Rightarrow> ('cb, 'f, 'a) loop_state_scheme \<Rightarrow> ('cb, 'f, 'a) loop_state_scheme result) \<Rightarrow>
     ('f \<Rightarrow> ('cb, 'f, 'a) loop_state_scheme \<Rightarrow> ('cb, 'f, 'a) loop_state_scheme result) \<Rightarrow>
     ('cb, 'f, 'a) loop_state_scheme \<Rightarrow> ('cb, 'f, 'a) loop_state_scheme result option" where
  "loop os handle run s =
     map_option (\<lambda>r. rbind r (\<lambda>s'. Inr (s'\<lparr>looping := False\<rparr>)))
       (while_not_quit os handle run (s\<lparr>looping := True, quit_flag := False\<rparr>))"

text \<open>The changes of interest a client of a channel can make.\<close>

datatype interest_op = EnableReading | EnableWriting | DisableWriting | DisableAll

fun apply_op ::
    "os \<Rightarrow> interest_op \<Rightarrow> ptr \<Rightarrow> ('cb, 'f, 'a) loop_state_scheme \<Rightarrow>
     ('cb, 'f, 'a) loop_state_scheme result" where
  "apply_op os EnableReading = enableReading os"
| "apply_op os EnableWriting = enableWriting os"
| "apply_op os DisableWriting = disableWriting os"
| "apply_op os DisableAll = disableAll os"

fun op_mask :: "interest_op \<Rightarrow> events \<Rightarrow> events" where
  "op_mask EnableReading m = m OR kReadEvent"
| "op_mask EnableWriting m = m OR kWriteEvent"
| "op_mask DisableWriting m = m AND NOT kWriteEvent"
| "op_mask DisableAll m = kNoneEvent"

fun apply_ops ::
    "os \<Rightarrow> interest_op list \<Rightarrow> ptr \<Rightarrow> ('cb, 'f, 'a) loop_state_scheme \<Rightarrow>
     ('cb, 'f, 'a) loop_state_scheme result" where
  "apply_ops os [] p s = Inr s"
| "apply_ops os (i # is) p s = rbind (apply_op os i p s) (apply_ops os is p)"

text \<open>Several passes through the loop, and several calls of \<^verbatim>\<open>doPendingFunctors\<close>.\<close>

fun iterations ::
    "os \<Rightarrow> (ptr \<Rightarrow> int \<Rightarrow> ('cb, 'f, 'a) loop_state_scheme \<Rightarrow> ('cb, 'f, 'a) loop_state_scheme result) \<Rightarrow>
     ('f \<Rightarrow> ('cb, 'f, 'a) loop_state_scheme \<Rightarrow> ('cb, 'f, 'a) loop_state_scheme result) \<Rightarrow> nat \<Rightarrow>
     ('cb, 'f, 'a) loop_state_scheme \<Rightarrow> ('cb, 'f, 'a) loop_state_scheme result option" where
  "iterations os handle run 0 s = Some (Inr s)"
| "iterations os handle run (Suc n) s =
     (if quit_flag s then Some (Inr s)
      else case iteration os handle run s of
             None \<Rightarrow> None | Some (Inl e) \<Rightarrow> Some (Inl e)
           | Some (Inr s') \<Rightarrow> iterations os handle run n s')"

fun pending_rounds ::
    "('f \<Rightarrow> ('cb, 'f, 'a) loop_state_scheme \<Rightarrow> ('cb, 'f, 'a) loop_state_scheme result) \<Rightarrow> nat \<Rightarrow>
     ('cb, 'f, 'a) loop_state_scheme \<Rightarrow> ('cb, 'f, 'a) loop_state_scheme result option" where
  "pending_rounds run 0 s = Some (Inr s)"
| "pending_rounds run (Suc n) s =
     (case doPendingFunctors run s of
        None \<Rightarrow> None | Some (Inl e) \<Rightarrow> Some (Inl e) | Some (Inr s') \<Rightarrow> pending_rounds run n s')"

text \<open>Functors that all queue further work.\<close>

definition requeues ::
    "('f \<Rightarrow> ('cb, 'f, 'a) loop_state_scheme \<Rightarrow> ('cb, 'f, 'a) loop_state_scheme result) \<Rightarrow> bool" where
  "requeues run \<longleftrightarrow>
     (\<forall>f s. yields (run f s) (\<lambda>s'. length (pendingFunctors s) < length (pendingFunctors s')))"

text \<open>A loop with one channel, registered for reading.\<close>

definition sample_loop :: "(int, int) loop_state" where
  "sample_loop =
     \<lparr>trace = [EvEpollCtl 3 EPOLL_CTL_ADD 5 3 7 None], errno = 0,
      chans = [7 \<mapsto> (new_Channel 5)\<lparr>ch_events := 3, ch_index := kAdded\<rparr>],
      epollfd = 3, pevents = replicate 16 (0, 0), channels = [5 \<mapsto> 7],
      looping = True, quit_flag = False, pollReturnTime = 0, activeChannels = [],
      pendingFunctors = []\<rparr>"

section \<open>Lemmas\<close>

lemma sample_loop_ok: "poller_ok sample_loop"
  by (auto simp: sample_loop_def poller_ok_def channel_ok_def registered_def interest_def
      new_Channel_def split: if_splits)

lemma apply_op_eq: "apply_op os i p = change_events os (op_mask i) p"
  by (cases i) (simp_all add: fun_eq_iff enableReading_def enableWriting_def disableWriting_def
      disableAll_def change_events_def Channel_update_def[abs_def] loop_updateChannel_def[abs_def])

lemma apply_ops_eq: "apply_ops os is p s = change_all (\<lambda>f. change_events os f p) (map op_mask is) s"
  by (induction "is" arbitrary: s) (auto simp: apply_op_eq rbind_def split: sum.splits)

lemma fold_op_mask: "fold (\<lambda>f. f) (map op_mask is) m = fold op_mask is m"
  by (induction "is" arbitrary: m) auto

text \<open>Functors that leave the vector alone are run once each, in order.\<close>

lemma pending_loop_stable:
  assumes keep: "\<And>f s s'. run f s = Inr s' \<Longrightarrow> pendingFunctors s' = pendingFunctors s"
  shows "pending_loop run i s = Some (run_all (map run (drop i (pendingFunctors s))) s)"
proof (induction "length (pendingFunctors s) - i" arbitrary: i s)
  case 0
  then show ?case by (subst pending_loop.simps) simp
next
  case (Suc n)
  then have i: "i < length (pendingFunctors s)" by simp
  show ?case
  proof (cases "run (pendingFunctors s ! i) s")
    case (Inr s')
    then have "pendingFunctors s' = pendingFunctors s" by (rule keep)
    moreover from this Suc.hyps(2)
    have "pending_loop run (Suc i) s' = Some (run_all (map run (drop (Suc i) (pendingFunctors s))) s')"
      using Suc.hyps(1)[of s' "Suc i"] by simp
    ultimately show ?thesis
      using i Inr by (subst pending_loop.simps) (simp add: Cons_nth_drop_Suc[symmetric])
  qed (use i in \<open>subst pending_loop.simps, simp add: Cons_nth_drop_Suc[symmetric]\<close>)
qed

lemma run_all_keeps:
  assumes "\<And>f s s'. f \<in> set fs \<Longrightarrow> f s = Inr s' \<Longrightarrow> g s' = g s" and "run_all fs s = Inr s'"
  shows "g s' = g s"
  using assms
proof (induction fs arbitrary: s)
  case (Cons f fs)
  then obtain s1 where "f s = Inr s1" "run_all fs s1 = Inr s'" by (auto elim: rbind_InrE)
  with Cons show ?case by (metis list.set_intros)
qed simp

text \<open>Functors that all append to the vector are never through.\<close>

lemma pending_loop_terminates_only:
  fixes s :: "('cb, 'f, 'a) loop_state_scheme"
  assumes "pending_loop run i s = Some y"
  shows "requeues run \<longrightarrow> \<not> i < length (pendingFunctors s)"
  using assms
proof (rule pending_loop.raw_induct[rotated,
      where P = "\<lambda>run i s y. requeues run \<longrightarrow> \<not> i < length (pendingFunctors s)"])
  fix pl run i y and s :: "('cb, 'f, 'a) loop_state_scheme"
  assume 1: "\<And>run i s y. pl run i s = Some y \<Longrightarrow> requeues run \<longrightarrow> \<not> i < length (pendingFunctors s)"
    "(if i < length (pendingFunctors s)
      then case run (pendingFunctors s ! i) s of Inl e \<Rightarrow> Some (Inl e) | Inr s' \<Rightarrow> pl run (Suc i) s'
      else Some (Inr s)) = Some y"
  show "requeues run \<longrightarrow> \<not> i < length (pendingFunctors s)"
  proof (intro impI notI)
    assume grow: "requeues run" and lt: "i < length (pendingFunctors s)"
    from grow obtain s' where s': "run (pendingFunctors s ! i) s = Inr s'"
        "length (pendingFunctors s) < length (pendingFunctors s')"
      unfolding requeues_def by (blast elim: yieldsE)
    with 1(2) lt have "pl run (Suc i) s' = Some y" by simp
    from 1(1)[OF this] grow s'(2) lt show False by simp
  qed
qed

text \<open>The loop and its finite unrollings.\<close>

lemma iterations_loop:
  "iterations os handle run n s = Some r \<Longrightarrow> (\<forall>s'. r = Inr s' \<longrightarrow> quit_flag s') \<Longrightarrow>
   while_not_quit os handle run s = Some r"
proof (induction n arbitrary: s)
  case 0
  then show ?case by (subst while_not_quit.simps) auto
next
  case (Suc n)
  then show ?case
    by (subst while_not_quit.simps) (auto split: if_splits option.splits sum.splits)
qed

lemma loop_iterations:
  "while_not_quit os handle run s = Some r \<Longrightarrow>
   \<exists>n. iterations os handle run n s = Some r \<and> (\<forall>s'. r = Inr s' \<longrightarrow> quit_flag s')"
proof (erule while_not_quit.raw_induct[rotated, where P = "\<lambda>os handle run s r.
      \<exists>n. iterations os handle run n s = Some r \<and> (\<forall>s'. r = Inr s' \<longrightarrow> quit_flag s')"])
  fix wl os handle run r and s :: "('a, 'b, 'c) loop_state_scheme"
  assume 1: "\<And>os handle run s r. wl os handle run s = Some r \<Longrightarrow>
      \<exists>n. iterations os handle run n s = Some r \<and> (\<forall>s'. r = Inr s' \<longrightarrow> quit_flag s')"
    "(if quit_flag s then Some (Inr s)
      else Option.bind (iteration os handle run s)
        (\<lambda>r. case r of Inl e \<Rightarrow> Some (Inl e) | Inr s' \<Rightarrow> wl os handle run s')) = Some r"
  show "\<exists>n. iterations os handle run n s = Some r \<and> (\<forall>s'. r = Inr s' \<longrightarrow> quit_flag s')"
  proof (cases "quit_flag s")
    case True
    with 1(2) show ?thesis by (intro exI[of _ 0]) auto
  next
    case False
    with 1(2) obtain q where q: "iteration os handle run s = Some q"
      "(case q of Inl e \<Rightarrow> Some (Inl e) | Inr s' \<Rightarrow> wl os handle run s') = Some r"
      by (auto simp: bind_eq_Some_conv)
    show ?thesis
    proof (cases q)
      case (Inl e)
      with q False show ?thesis by (intro exI[of _ 1]) auto
    next
      case (Inr s')
      with q(2) have "wl os handle run s' = Some r" by simp
      from 1(1)[OF this] obtain n where "iterations os handle run n s' = Some r"
        "\<forall>s'. r = Inr s' \<longrightarrow> quit_flag s'" by blast
      with q(1) Inr False show ?thesis by (intro exI[of _ "Suc n"]) simp
    qed
  qed
qed

text \<open>
  The interface between the loop and its client: an invariant that a pass through the body keeps,
  without a fault and in finite time, and that does not depend on the flags of the loop. Then every
  number of passes keeps it, and the loop either runs forever or returns normally.
\<close>

locale loop_invariant =
  fixes os :: os
    and handle :: "ptr \<Rightarrow> int \<Rightarrow> ('cb, 'f, 'a) loop_state_scheme \<Rightarrow> ('cb, 'f, 'a) loop_state_scheme result"
    and run :: "'f \<Rightarrow> ('cb, 'f, 'a) loop_state_scheme \<Rightarrow> ('cb, 'f, 'a) loop_state_scheme result"
    and I :: "('cb, 'f, 'a) loop_state_scheme \<Rightarrow> bool"
  assumes pass: "I s \<Longrightarrow> \<exists>s'. iteration os handle run s = Some (Inr s') \<and> I s'"
    and flags: "I s \<Longrightarrow> I (s\<lparr>looping := b, quit_flag := q\<rparr>)"
begin

lemma iterations_keep: "I s \<Longrightarrow> \<exists>s'. iterations os handle run n s = Some (Inr s') \<and> I s'"
proof (induction n arbitrary: s)
  case (Suc n)
  from pass[OF Suc.prems] obtain s1 where "iteration os handle run s = Some (Inr s1)" "I s1" by blast
  with Suc show ?case by auto
qed simp

lemma loop_keeps:
  assumes "I s"
  shows "loop os handle run s = None \<or> (\<exists>t. loop os handle run s = Some (Inr t) \<and> I t)"
proof (cases "while_not_quit os handle run (s\<lparr>looping := True, quit_flag := False\<rparr>)")
  case (Some r)
  from loop_iterations[OF this] obtain n where
    "iterations os handle run n (s\<lparr>looping := True, quit_flag := False\<rparr>) = Some r" by blast
  with iterations_keep[OF flags[OF assms], of n False True] obtain s' where
    s': "r = Inr s'" "I s'" by auto
  have "s'\<lparr>looping := False\<rparr> = s'\<lparr>looping := False, quit_flag := quit_flag s'\<rparr>" by simp
  with flags[OF s'(2)] have "I (s'\<lparr>looping := False\<rparr>)" by metis
  with Some s'(1) show ?thesis by (simp add: loop_def)
qed (simp add: loop_def)

end

lemma printActiveChannels_ok:
  "\<forall>p \<in> set ps. chans s p \<noteq> None \<Longrightarrow> yields (printActiveChannels ps s) (\<lambda>ls. length ls = length ps)"
  by (induction ps) (auto simp: yields_rbind elim!: yields_mono)

section \<open>Properties\<close>



text \<open>C33. Pending functors are never removed: as long as the functors themselves do not queue
  more work, \<open>n\<close> rounds of \<^verbatim>\<open>doPendingFunctors\<close> run the whole vector \<open>n\<close> times, in order, and
  leave it as it was, so that work that was queued once with \<^verbatim>\<open>runInLoop\<close> is repeated in every
  round of the loop.\<close>

theorem pending_functors_rerun:
  assumes keep: "\<And>f s s'. run f s = Inr s' \<Longrightarrow> pendingFunctors s' = pendingFunctors s"
  shows "pending_rounds run n s = Some (run_all (concat (replicate n (map run (pendingFunctors s)))) s)
    \<and> (\<forall>s'. pending_rounds run n s = Some (Inr s') \<longrightarrow> pendingFunctors s' = pendingFunctors s)"
proof (induction n arbitrary: s)
  case (Suc n)
  have d: "doPendingFunctors run s = Some (run_all (map run (pendingFunctors s)) s)"
    using pending_loop_stable[of run 0 s, OF keep] by (simp add: doPendingFunctors_def)
  show ?case
  proof (cases "run_all (map run (pendingFunctors s)) s")
    case (Inr s')
    then have "pendingFunctors s' = pendingFunctors s"
      by (rule run_all_keeps[rotated]) (auto intro: keep)
    with d Inr Suc.IH[of s'] show ?thesis by (simp add: run_all_append)
  qed (simp add: d run_all_append)
qed simp

theorem pending_functors_rerun_witness:
  "pending_rounds (\<lambda>k s. Inr (s\<lparr>errno := errno s + k\<rparr>)) 3
     (runInLoop 5 sample_loop)
   = Some (Inr (runInLoop 5 (sample_loop\<lparr>errno := 15\<rparr>)))"
proof -
  let ?run = "\<lambda>k s. Inr (s\<lparr>errno := errno s + k\<rparr>) :: (int, int) loop_state result"
  have "pending_rounds ?run 3 (runInLoop 5 sample_loop)
      = Some (run_all (concat (replicate 3 (map ?run (pendingFunctors (runInLoop 5 sample_loop)))))
          (runInLoop 5 sample_loop))"
    by (rule conjunct1[OF pending_functors_rerun]) auto
  then show ?thesis by (simp add: runInLoop_def sample_loop_def numeral_3_eq_3)
qed

text \<open>A functor that queues work from inside \<^verbatim>\<open>doPendingFunctors\<close> is picked up in the same
  call: if every functor queues another one, the call never returns.\<close>

theorem requeueing_never_ends:
  assumes "requeues run" and "pendingFunctors s \<noteq> []"
  shows "doPendingFunctors run s = None"
  unfolding doPendingFunctors_def
  using assms pending_loop_terminates_only[of run 0 s] by (cases "pending_loop run 0 s") auto

theorem requeueing_never_ends_witness:
  "doPendingFunctors (\<lambda>k s. Inr (runInLoop (k + 1) s))
     (runInLoop (5 :: int) sample_loop) = None"
  by (rule requeueing_never_ends) (simp_all add: requeues_def runInLoop_def)


text \<open>C19. One pass handles what the kernel reported: after a successful wait the active list is
  the list of reported channels, their events are stored and printing them cannot fault,
  and the handler is called once per channel, in the order of the report, with the time of the
  poll.\<close>

theorem pass_handles_report:
  assumes ok: "poller_ok s" and wc: "wait_contract os"
    and size: "2 * length (pevents s) \<le> pevents_max"
    and r: "os_epoll_wait os (trace s) (epollfd s) (to_int32 (int (length (pevents s)))) kPollTimeMs
      = Inr evs"
  shows "\<exists>now s1. handle_active os handle s = run_all (map (\<lambda>p. handle p now) (map snd evs)) s1
    \<and> poller_ok s1 \<and> activeChannels s1 = map snd evs \<and> pollReturnTime s1 = now
    \<and> (\<forall>(ev, p) \<in> set evs. map_option ch_revents (chans s1 p) = Some ev)"
proof -
  let ?s = "s\<lparr>activeChannels := []\<rparr>"
  have ok': "poller_ok ?s" by (rule poller_ok_frame[OF ok]) (simp_all add: registered_def)
  from poll_effect[OF ok' wc, of kPollTimeMs "Inr evs" "[]"] size r obtain now s1 where
    s1: "poll os kPollTimeMs [] ?s = Inr (now, map snd evs, s1)" "poller_ok s1"
      "\<forall>(ev, p) \<in> set evs. map_option ch_revents (chans s1 p) = Some ev"
    by (auto elim!: yieldsE)
  let ?s2 = "s1\<lparr>pollReturnTime := now, activeChannels := map snd evs\<rparr>"
  have "poller_ok ?s2" by (rule poller_ok_frame[OF s1(2)]) (simp_all add: registered_def)
  moreover have "\<forall>p \<in> set (map snd evs). chans ?s2 p \<noteq> None" using s1(3) by fastforce
  then obtain ls where "printActiveChannels (map snd evs) ?s2 = Inr ls"
    by (blast dest: printActiveChannels_ok elim: yieldsE)
  then have "handle_active os handle s = run_all (map (\<lambda>p. handle p now) (map snd evs)) ?s2"
    by (simp add: handle_active_def s1(1) del: map_map)
  ultimately show ?thesis using s1(3) by (intro exI[of _ now] exI[of _ ?s2]) simp
qed

theorem pass_handles_report_witness:
  "\<exists>now s1. handle_active (sample_os 5 1) (\<lambda>p now s. Inr (s\<lparr>errno := now\<rparr>)) sample_loop
      = Inr (s1\<lparr>errno := now\<rparr>)
    \<and> activeChannels s1 = [7] \<and> map_option ch_revents (chans s1 7) = Some 1"
proof -
  have "2 * length (pevents sample_loop) \<le> pevents_max"
    "os_epoll_wait (sample_os 5 1) (trace sample_loop) (epollfd sample_loop)
       (to_int32 (int (length (pevents sample_loop)))) kPollTimeMs = Inr [(1, 7)]"
    by (simp_all add: sample_loop_def pevents_max_def sample_wait_def interest_def to_int32_def)
  from pass_handles_report[OF sample_loop_ok sample_wait_contract this, of "\<lambda>p now s. Inr (s\<lparr>errno := now\<rparr>)"]
  obtain now s1 where "handle_active (sample_os 5 1) (\<lambda>p now s. Inr (s\<lparr>errno := now\<rparr>)) sample_loop
      = run_all (map (\<lambda>p s. Inr (s\<lparr>errno := now\<rparr>)) (map snd [(1, 7)])) s1"
    "activeChannels s1 = map snd [(1 :: events, 7 :: ptr)]"
    "map_option ch_revents (chans s1 7) = Some 1" by auto
  then show ?thesis by (intro exI[of _ now] exI[of _ s1]) (simp del: run_all.simps)
qed

end
