(* ===== verification/Endian.thy ===== *)
theory Endian
  imports Prelude
begin

unbundle bit_operations_syntax

text \<open>
  Object representations of the fixed-width integers the buffer reads and writes, and the
  byte-order conversions of \<^verbatim>\<open><arpa/inet.h>\<close>. The host's byte order is a parameter
  (\<open>byte_order\<close>), so that the wire-format theorems do not depend on it.
\<close>

section \<open>Definitions\<close>

datatype byte_order = LittleEndian | BigEndian

text \<open>Most significant byte first.\<close>

definition be32 :: "int32_t \<Rightarrow> byte list" where
  "be32 x = [ucast (drop_bit 24 x), ucast (drop_bit 16 x), ucast (drop_bit 8 x), ucast x]"

fun of_be32 :: "byte list \<Rightarrow> int32_t" where
  "of_be32 [a, b, c, d] =
     push_bit 24 (ucast a) OR push_bit 16 (ucast b) OR push_bit 8 (ucast c) OR ucast d"
| "of_be32 _ = 0"

definition be16 :: "int16_t \<Rightarrow> byte list" where
  "be16 x = [ucast (drop_bit 8 x), ucast x]"

fun of_be16 :: "byte list \<Rightarrow> int16_t" where
  "of_be16 [a, b] = push_bit 8 (ucast a) OR ucast b"
| "of_be16 _ = 0"

text \<open>
  The bytes an object occupies in memory, and the value \<^verbatim>\<open>memcpy\<close> gives an object from
  its bytes.
\<close>

fun in_order :: "byte_order \<Rightarrow> byte list \<Rightarrow> byte list" where
  "in_order BigEndian bs = bs"
| "in_order LittleEndian bs = rev bs"

definition mem32 :: "byte_order \<Rightarrow> int32_t \<Rightarrow> byte list" where
  "mem32 ord x = in_order ord (be32 x)"

definition val32 :: "byte_order \<Rightarrow> byte list \<Rightarrow> int32_t" where
  "val32 ord bs = of_be32 (in_order ord bs)"

definition mem16 :: "byte_order \<Rightarrow> int16_t \<Rightarrow> byte list" where
  "mem16 ord x = in_order ord (be16 x)"

definition val16 :: "byte_order \<Rightarrow> byte list \<Rightarrow> int16_t" where
  "val16 ord bs = of_be16 (in_order ord bs)"

text \<open>
  \<^verbatim>\<open>htonl\<close> and \<^verbatim>\<open>htons\<close> swap the bytes on a little-endian host and do nothing on a
  big-endian one; \<^verbatim>\<open>ntohl\<close> and \<^verbatim>\<open>ntohs\<close> are the same functions.
\<close>

definition bswap32 :: "int32_t \<Rightarrow> int32_t" where
  "bswap32 x = of_be32 (rev (be32 x))"

definition bswap16 :: "int16_t \<Rightarrow> int16_t" where
  "bswap16 x = of_be16 (rev (be16 x))"

fun htonl :: "byte_order \<Rightarrow> int32_t \<Rightarrow> int32_t" where
  "htonl LittleEndian x = bswap32 x"
| "htonl BigEndian x = x"

fun htons :: "byte_order \<Rightarrow> int16_t \<Rightarrow> int16_t" where
  "htons LittleEndian x = bswap16 x"
| "htons BigEndian x = x"

abbreviation ntohl :: "byte_order \<Rightarrow> int32_t \<Rightarrow> int32_t" where
  "ntohl \<equiv> htonl"

abbreviation ntohs :: "byte_order \<Rightarrow> int16_t \<Rightarrow> int16_t" where
  "ntohs \<equiv> htons"

section \<open>Round trips\<close>

lemma length_be32 [simp]: "length (be32 x) = 4"
  by (simp add: be32_def)

lemma length_be16 [simp]: "length (be16 x) = 2"
  by (simp add: be16_def)

lemma of_be32_be32 [simp]: "of_be32 (be32 x) = x"
proof (rule bit_word_eqI)
  fix n assume "n < LENGTH(32)"
  then consider "n < 8" | "8 \<le> n" "n < 16" | "16 \<le> n" "n < 24" | "24 \<le> n" "n < 32"
    by fastforce
  then show "bit (of_be32 (be32 x)) n = bit x n"
    by cases (auto simp: be32_def bit_simps)
qed

lemma of_be16_be16 [simp]: "of_be16 (be16 x) = x"
  by (rule bit_word_eqI) (auto simp: be16_def bit_simps)

lemma be32_of_be32: "be32 (of_be32 [a, b, c, d]) = [a, b, c, d]"
  by (auto simp: be32_def intro!: bit_word_eqI)
    (auto simp: bit_simps dest: bit_imp_le_length)

lemma be16_of_be16: "be16 (of_be16 [a, b]) = [a, b]"
  by (auto simp: be16_def intro!: bit_word_eqI)
    (auto simp: bit_simps dest: bit_imp_le_length)

lemma list4_cases:
  assumes "length xs = 4"
  obtains a b c d where "xs = [a, b, c, d]"
  using assms by (auto simp: numeral_eq_Suc length_Suc_conv)

lemma list2_cases:
  assumes "length xs = 2"
  obtains a b where "xs = [a, b]"
  using assms by (auto simp: numeral_eq_Suc length_Suc_conv)

lemma be32_of_be32_length: "length bs = 4 \<Longrightarrow> be32 (of_be32 bs) = bs"
  by (erule list4_cases) (simp only: be32_of_be32)

lemma be16_of_be16_length: "length bs = 2 \<Longrightarrow> be16 (of_be16 bs) = bs"
  by (erule list2_cases) (simp only: be16_of_be16)

lemma length_in_order [simp]: "length (in_order ord bs) = length bs"
  by (cases ord) simp_all

lemma in_order_in_order [simp]: "in_order ord (in_order ord bs) = bs"
  by (cases ord) simp_all

text \<open>What a converted integer looks like in memory: big-endian, on either host.\<close>

lemma mem32_htonl [simp]: "mem32 ord (htonl ord x) = be32 x"
  by (cases ord) (simp_all add: mem32_def bswap32_def be32_of_be32_length)

lemma mem16_htons [simp]: "mem16 ord (htons ord x) = be16 x"
  by (cases ord) (simp_all add: mem16_def bswap16_def be16_of_be16_length)

text \<open>What \<^verbatim>\<open>ntohl\<close> gives for four bytes copied from memory.\<close>

lemma ntohl_val32: "length bs = 4 \<Longrightarrow> ntohl ord (val32 ord bs) = of_be32 bs"
  by (cases ord) (simp_all add: val32_def bswap32_def be32_of_be32_length)

lemma ntohs_val16: "length bs = 2 \<Longrightarrow> ntohs ord (val16 ord bs) = of_be16 bs"
  by (cases ord) (simp_all add: val16_def bswap16_def be16_of_be16_length)

lemma htonl_involution: "htonl ord (htonl ord x) = x"
  by (cases ord) (simp_all add: bswap32_def be32_of_be32_length)

end
