(* ===== verification/Byte_Stream.thy ===== *)
theory Byte_Stream
  imports Prelude
begin

text \<open>
  Two interfaces that the byte buffer offers to its clients, as locales over an arbitrary
  representation: a queue of bytes (put at the back, take from the front, take back what was
  put last), and fixed-width integers written to and read from such a queue. The client
  lemmas are about whole sequences of calls. \<open>Buffer\<close> interprets both.
\<close>

section \<open>Calls on a byte queue\<close>

datatype queue_op =
    Put "byte list"
  | Get size_t
  | Unput size_t
  | Clear

text \<open>What a sequence of calls means on the list of queued bytes: the bytes the
  \<^const>\<open>Get\<close> calls returned, and the bytes left; \<open>None\<close> when a call asks for more bytes than
  there are.\<close>

fun queue_spec :: "queue_op list \<Rightarrow> byte list \<Rightarrow> (byte list \<times> byte list) option" where
  "queue_spec [] q = Some ([], q)"
| "queue_spec (Put d # ops) q = queue_spec ops (q @ d)"
| "queue_spec (Get n # ops) q =
     (if unat n \<le> length q
      then map_option (\<lambda>(out, q'). (take (unat n) q @ out, q')) (queue_spec ops (drop (unat n) q))
      else None)"
| "queue_spec (Unput n # ops) q =
     (if unat n \<le> length q then queue_spec ops (take (length q - unat n) q) else None)"
| "queue_spec (Clear # ops) q = queue_spec ops []"

text \<open>The same sequence run on an implementation.\<close>

fun queue_run ::
    "(byte list \<Rightarrow> 'b \<Rightarrow> 'b result) \<Rightarrow> (size_t \<Rightarrow> 'b \<Rightarrow> (byte list \<times> 'b) result) \<Rightarrow>
     (size_t \<Rightarrow> 'b \<Rightarrow> 'b result) \<Rightarrow> ('b \<Rightarrow> 'b) \<Rightarrow>
     queue_op list \<Rightarrow> 'b \<Rightarrow> (byte list \<times> 'b) result" where
  "queue_run put get unput clear [] b = Inr ([], b)"
| "queue_run put get unput clear (Put d # ops) b =
     rbind (put d b) (queue_run put get unput clear ops)"
| "queue_run put get unput clear (Get n # ops) b =
     rbind (get n b) (\<lambda>(s, b').
       rbind (queue_run put get unput clear ops b') (\<lambda>(out, b''). Inr (s @ out, b'')))"
| "queue_run put get unput clear (Unput n # ops) b =
     rbind (unput n b) (queue_run put get unput clear ops)"
| "queue_run put get unput clear (Clear # ops) b =
     queue_run put get unput clear ops (clear b)"

fun bytes_put :: "queue_op list \<Rightarrow> nat" where
  "bytes_put [] = 0"
| "bytes_put (Put d # ops) = length d + bytes_put ops"
| "bytes_put (_ # ops) = bytes_put ops"

text \<open>
  \<open>used\<close> is what limits the next put: the implementation promises to accept \<open>d\<close> as long as
  \<open>used + length d\<close> stays within \<open>limit\<close>, and that no call raises \<open>used\<close> by more than
  the bytes it puts.
\<close>

locale byte_queue =
  fixes inv :: "'b \<Rightarrow> bool"
    and abs :: "'b \<Rightarrow> byte list"
    and used :: "'b \<Rightarrow> nat"
    and limit :: nat
    and put :: "byte list \<Rightarrow> 'b \<Rightarrow> 'b result"
    and get :: "size_t \<Rightarrow> 'b \<Rightarrow> (byte list \<times> 'b) result"
    and unput :: "size_t \<Rightarrow> 'b \<Rightarrow> 'b result"
    and clear :: "'b \<Rightarrow> 'b"
  assumes put: "inv b \<Longrightarrow> used b + length d \<le> limit \<Longrightarrow>
      yields (put d b) (\<lambda>b'. inv b' \<and> abs b' = abs b @ d \<and> used b' \<le> used b + length d)"
    and get: "inv b \<Longrightarrow> unat n \<le> length (abs b) \<Longrightarrow>
      yields (get n b) (\<lambda>(s, b'). s = take (unat n) (abs b) \<and> inv b'
        \<and> abs b' = drop (unat n) (abs b) \<and> used b' \<le> used b)"
    and get_short: "inv b \<Longrightarrow> length (abs b) < unat n \<Longrightarrow> get n b = Inl AssertFailed"
    and unput: "inv b \<Longrightarrow> unat n \<le> length (abs b) \<Longrightarrow>
      yields (unput n b) (\<lambda>b'. inv b' \<and> abs b' = take (length (abs b) - unat n) (abs b)
        \<and> used b' \<le> used b)"
    and unput_short: "inv b \<Longrightarrow> length (abs b) < unat n \<Longrightarrow> unput n b = Inl AssertFailed"
    and clear: "inv b \<Longrightarrow> inv (clear b) \<and> abs (clear b) = [] \<and> used (clear b) \<le> used b"
begin

text \<open>A sequence of calls on the implementation does what it does on the list of bytes, and
  ends in a failed assertion exactly when the list runs short.\<close>

lemma run_refines:
  assumes "inv b" and "used b + bytes_put ops \<le> limit"
  shows "case queue_spec ops (abs b) of
      None \<Rightarrow> queue_run put get unput clear ops b = Inl AssertFailed
    | Some (out, q) \<Rightarrow> yields (queue_run put get unput clear ops b)
        (\<lambda>(out', b'). out' = out \<and> abs b' = q \<and> inv b')"
  using assms
proof (induction ops arbitrary: b)
  case Nil
  then show ?case by simp
next
  case (Cons op ops)
  show ?case
  proof (cases op)
    case (Put d)
    then have "yields (put d b) (\<lambda>b'. inv b' \<and> abs b' = abs b @ d \<and> used b' \<le> used b + length d)"
      using Cons.prems by (intro put) simp_all
    then obtain b' where b': "put d b = Inr b'" "inv b'" "abs b' = abs b @ d"
        "used b' \<le> used b + length d" by (auto elim: yieldsE)
    with Cons.prems Put have "used b' + bytes_put ops \<le> limit" by simp
    from Cons.IH[OF b'(2) this] b' Put show ?thesis by (auto split: option.splits)
  next
    case (Get n)
    show ?thesis
    proof (cases "unat n \<le> length (abs b)")
      case True
      from get[OF Cons.prems(1) True] obtain b' where b':
          "get n b = Inr (take (unat n) (abs b), b')" "inv b'"
          "abs b' = drop (unat n) (abs b)" "used b' \<le> used b" by (auto elim: yieldsE)
      with Cons.prems Get have "used b' + bytes_put ops \<le> limit" by simp
      from Cons.IH[OF b'(2) this] b' Get True show ?thesis
        by (auto simp: yields_rbind split: option.splits elim!: yields_mono)
    next
      case False
      with Get Cons.prems get_short show ?thesis by simp
    qed
  next
    case (Unput n)
    show ?thesis
    proof (cases "unat n \<le> length (abs b)")
      case True
      from unput[OF Cons.prems(1) True] obtain b' where b': "unput n b = Inr b'" "inv b'"
          "abs b' = take (length (abs b) - unat n) (abs b)" "used b' \<le> used b"
        by (auto elim: yieldsE)
      with Cons.prems Unput have "used b' + bytes_put ops \<le> limit" by simp
      from Cons.IH[OF b'(2) this] b' Unput True show ?thesis by (auto split: option.splits)
    next
      case False
      with Unput Cons.prems unput_short show ?thesis by simp
    qed
  next
    case Clear
    with Cons.IH[of "clear b"] Cons.prems clear[OF Cons.prems(1)] show ?thesis
      by (auto split: option.splits)
  qed
qed

end

text \<open>Without taking bytes back or dropping them, nothing is lost, duplicated or reordered.\<close>

lemma queue_spec_conserves:
  "queue_spec ops q = Some (out, q') \<Longrightarrow> \<forall>op \<in> set ops. (\<exists>d. op = Put d) \<or> (\<exists>n. op = Get n) \<Longrightarrow>
   out @ q' = q @ concat (map (\<lambda>op. case op of Put d \<Rightarrow> d | _ \<Rightarrow> []) ops)"
proof (induction ops q arbitrary: out q' rule: queue_spec.induct)
  case (3 n ops q)
  then show ?case by (fastforce split: if_splits)
qed (auto split: if_splits)

section \<open>Integers on a byte queue\<close>

fun append_each :: "('x \<Rightarrow> 'b \<Rightarrow> 'b result) \<Rightarrow> 'x list \<Rightarrow> 'b \<Rightarrow> 'b result" where
  "append_each app [] b = Inr b"
| "append_each app (x # xs) b = rbind (app x b) (append_each app xs)"

fun read_each :: "('b \<Rightarrow> ('x \<times> 'b) result) \<Rightarrow> nat \<Rightarrow> 'b \<Rightarrow> ('x list \<times> 'b) result" where
  "read_each rd 0 b = Inr ([], b)"
| "read_each rd (Suc n) b =
     rbind (rd b) (\<lambda>(x, b'). rbind (read_each rd n b') (\<lambda>(xs, b''). Inr (x # xs, b'')))"

locale integer_stream =
  fixes inv :: "'b \<Rightarrow> bool"
    and abs :: "'b \<Rightarrow> byte list"
    and used :: "'b \<Rightarrow> nat"
    and limit :: nat
    and width :: nat
    and enc :: "'x \<Rightarrow> byte list"
    and app :: "'x \<Rightarrow> 'b \<Rightarrow> 'b result"
    and rd :: "'b \<Rightarrow> ('x \<times> 'b) result"
  assumes enc_width: "length (enc x) = width"
    and app: "inv b \<Longrightarrow> used b + width \<le> limit \<Longrightarrow>
      yields (app x b) (\<lambda>b'. inv b' \<and> abs b' = abs b @ enc x \<and> used b' \<le> used b + width)"
    and rd: "inv b \<Longrightarrow> abs b = enc x @ rest \<Longrightarrow>
      yields (rd b) (\<lambda>(y, b'). y = x \<and> inv b' \<and> abs b' = rest)"
begin

lemma append_each_abs:
  "inv b \<Longrightarrow> used b + width * length xs \<le> limit \<Longrightarrow>
   yields (append_each app xs b) (\<lambda>b'. inv b' \<and> abs b' = abs b @ concat (map enc xs))"
proof (induction xs arbitrary: b)
  case (Cons x xs)
  then obtain b' where b': "app x b = Inr b'" "inv b'" "abs b' = abs b @ enc x"
      "used b' \<le> used b + width" using app[of b x] by (auto elim: yieldsE)
  with Cons.prems have "used b' + width * length xs \<le> limit" by simp
  from Cons.IH[OF b'(2) this] b' show ?case by simp
qed simp

lemma read_each_abs:
  "inv b \<Longrightarrow> abs b = concat (map enc xs) @ rest \<Longrightarrow>
   yields (read_each rd (length xs) b) (\<lambda>(ys, b'). ys = xs \<and> inv b' \<and> abs b' = rest)"
proof (induction xs arbitrary: b)
  case (Cons x xs)
  then obtain b' where b': "rd b = Inr (x, b')" "inv b'" "abs b' = concat (map enc xs) @ rest"
    using rd[of b x "concat (map enc xs) @ rest"] by (auto elim: yieldsE)
  from Cons.IH[OF b'(2,3)] b' show ?case
    by (auto simp: yields_rbind elim!: yields_mono)
qed simp

text \<open>What is written to an empty queue is read back, in order, and the queue is empty again.\<close>

lemma write_read:
  assumes "inv b" and "abs b = []" and "used b + width * length xs \<le> limit"
  shows "yields (rbind (append_each app xs b) (read_each rd (length xs)))
    (\<lambda>(ys, b'). ys = xs \<and> inv b' \<and> abs b' = [])"
proof -
  from append_each_abs[OF assms(1,3)] assms(2) obtain b' where
      b': "append_each app xs b = Inr b'" "inv b'" "abs b' = concat (map enc xs) @ []"
    by (auto elim: yieldsE)
  with read_each_abs[OF b'(2,3)] show ?thesis by simp
qed

end

end
