(* ===== verification/Buffer.thy ===== *)
theory Buffer
  imports Endian Byte_Stream
begin

text \<open>
  The byte buffer of \<^verbatim>\<open>netlib/Buffer.hpp\<close> and \<^verbatim>\<open>netlib/Buffer.cpp\<close>: one vector of
  characters with a reader and a writer index, which delimit the readable bytes, and eight
  bytes of cheap prepend space in front. The indices are \<^verbatim>\<open>size_t\<close> and wrap; pointers into
  the vector are offsets from \<^verbatim>\<open>begin()\<close>; every \<^verbatim>\<open>assert\<close> of the class is a branch.
\<close>

section \<open>State\<close>

record buffer =
  buf :: "byte list"
  readerIndex :: size_t
  writerIndex :: size_t

definition kCheapPrepend :: size_t where
  "kCheapPrepend = 8"

definition kInitialSize :: size_t where
  "kInitialSize = 1024"

text \<open>\<^verbatim>\<open>std::vector<char>\<close>: \<open>size\<close>, and \<open>resize\<close> with its \<open>length_error\<close>.\<close>

definition vec_size :: "'a list \<Rightarrow> size_t" where
  "vec_size v = of_nat (length v)"

definition vec_max :: nat where
  "vec_max = 2 ^ 63 - 1"

definition vec_resize :: "size_t \<Rightarrow> byte list \<Rightarrow> byte list result" where
  "vec_resize n v =
     (if vec_max < unat n then Inl LengthError
      else Inr (take (unat n) v @ replicate (unat n - length v) 0))"

section \<open>Operations\<close>

definition readableBytes :: "buffer \<Rightarrow> size_t" where
  "readableBytes b = writerIndex b - readerIndex b"

definition writableBytes :: "buffer \<Rightarrow> size_t" where
  "writableBytes b = vec_size (buf b) - writerIndex b"

definition prependableBytes :: "buffer \<Rightarrow> size_t" where
  "prependableBytes b = readerIndex b"

text \<open>The constructor, with its three assertions.\<close>

definition new_Buffer :: "buffer result" where
  "new_Buffer =
     (let b = \<lparr>buf = replicate (unat (kCheapPrepend + kInitialSize)) 0,
               readerIndex = kCheapPrepend, writerIndex = kCheapPrepend\<rparr>
      in if readableBytes b = 0 \<and> writableBytes b = kInitialSize
            \<and> prependableBytes b = kCheapPrepend
         then Inr b else Inl AssertFailed)"

definition swap :: "buffer \<Rightarrow> buffer \<Rightarrow> buffer \<times> buffer" where
  "swap b rhs =
     (b\<lparr>buf := buf rhs, readerIndex := readerIndex rhs, writerIndex := writerIndex rhs\<rparr>,
      rhs\<lparr>buf := buf b, readerIndex := readerIndex b, writerIndex := writerIndex b\<rparr>)"

definition peek :: "buffer \<Rightarrow> nat" where
  "peek b = unat (readerIndex b)"

definition beginWrite :: "buffer \<Rightarrow> nat" where
  "beginWrite b = unat (writerIndex b)"

text \<open>
  \<^verbatim>\<open>std::search\<close> over a range gives the offset of the first occurrence, or the length of
  the range; \<^verbatim>\<open>memchr\<close> reads cell after cell and stops at the first match.
\<close>

definition kCRLF :: "byte list" where
  "kCRLF = [13, 10]"

fun search_pos :: "'a list \<Rightarrow> 'a list \<Rightarrow> nat" where
  "search_pos pat [] = 0"
| "search_pos pat (x # xs) =
     (if take (length pat) (x # xs) = pat then 0 else Suc (search_pos pat xs))"

fun memchr :: "byte list \<Rightarrow> nat \<Rightarrow> byte \<Rightarrow> nat \<Rightarrow> nat option result" where
  "memchr m i c 0 = Inr None"
| "memchr m i c (Suc n) =
     (if i < length m
      then if m ! i = c then Inr (Some i) else memchr m (Suc i) c n
      else Inl OutOfBounds)"

definition search_CRLF :: "nat \<Rightarrow> buffer \<Rightarrow> nat option result" where
  "search_CRLF first b =
     rbind (load_range (buf b) first (beginWrite b)) (\<lambda>range.
       let crlf = first + search_pos kCRLF range
       in Inr (if crlf = beginWrite b then None else Some crlf))"

definition findCRLF :: "buffer \<Rightarrow> nat option result" where
  "findCRLF b = search_CRLF (peek b) b"

definition findCRLF_from :: "nat \<Rightarrow> buffer \<Rightarrow> nat option result" where
  "findCRLF_from start b =
     (if \<not> peek b \<le> start then Inl AssertFailed
      else if \<not> start \<le> beginWrite b then Inl AssertFailed
      else search_CRLF start b)"

definition findEOL :: "buffer \<Rightarrow> nat option result" where
  "findEOL b = memchr (buf b) (peek b) 10 (unat (readableBytes b))"

definition findEOL_from :: "nat \<Rightarrow> buffer \<Rightarrow> nat option result" where
  "findEOL_from start b =
     (if \<not> peek b \<le> start then Inl AssertFailed
      else if \<not> start \<le> beginWrite b then Inl AssertFailed
      else memchr (buf b) start 10 (unat (readableBytes b)))"

definition retrieveAll :: "buffer \<Rightarrow> buffer" where
  "retrieveAll b = b\<lparr>readerIndex := kCheapPrepend, writerIndex := kCheapPrepend\<rparr>"

definition retrieve :: "size_t \<Rightarrow> buffer \<Rightarrow> buffer result" where
  "retrieve len b =
     (if \<not> len \<le> readableBytes b then Inl AssertFailed
      else if len < readableBytes b then Inr (b\<lparr>readerIndex := readerIndex b + len\<rparr>)
      else Inr (retrieveAll b))"

definition retrieveUntil :: "nat \<Rightarrow> buffer \<Rightarrow> buffer result" where
  "retrieveUntil end_ptr b =
     (if \<not> peek b \<le> end_ptr then Inl AssertFailed
      else if \<not> end_ptr \<le> beginWrite b then Inl AssertFailed
      else retrieve (of_nat (end_ptr - peek b)) b)"

definition retrieveInt32 :: "buffer \<Rightarrow> buffer result" where
  "retrieveInt32 b = retrieve 4 b"

definition retrieveInt16 :: "buffer \<Rightarrow> buffer result" where
  "retrieveInt16 b = retrieve 2 b"

definition retrieveInt8 :: "buffer \<Rightarrow> buffer result" where
  "retrieveInt8 b = retrieve 1 b"

definition retrieveAsString :: "size_t \<Rightarrow> buffer \<Rightarrow> (byte list \<times> buffer) result" where
  "retrieveAsString len b =
     (if \<not> len \<le> readableBytes b then Inl AssertFailed
      else rbind (load (buf b) (peek b) (unat len)) (\<lambda>result.
             rbind (retrieve len b) (\<lambda>b'. Inr (result, b'))))"

definition retrieveAllAsString :: "buffer \<Rightarrow> (byte list \<times> buffer) result" where
  "retrieveAllAsString b = retrieveAsString (readableBytes b) b"

text \<open>
  \<^verbatim>\<open>makeSpace\<close>: grow the vector, or move the readable bytes to the front. The move is
  \<^verbatim>\<open>std::copy\<close> to a lower address inside the same vector.
\<close>

definition makeSpace :: "size_t \<Rightarrow> buffer \<Rightarrow> buffer result" where
  "makeSpace len b =
     (if writableBytes b + prependableBytes b < len + kCheapPrepend
      then rbind (vec_resize (writerIndex b + len) (buf b)) (\<lambda>v. Inr (b\<lparr>buf := v\<rparr>))
      else if \<not> kCheapPrepend < readerIndex b then Inl AssertFailed
      else let readable = readableBytes b in
        rbind (load_range (buf b) (peek b) (beginWrite b)) (\<lambda>d.
        rbind (store (buf b) (unat kCheapPrepend) d) (\<lambda>m.
          let b' = b\<lparr>buf := m, readerIndex := kCheapPrepend,
                     writerIndex := kCheapPrepend + readable\<rparr>
          in if readable = readableBytes b' then Inr b' else Inl AssertFailed)))"

definition ensureWritableBytes :: "size_t \<Rightarrow> buffer \<Rightarrow> buffer result" where
  "ensureWritableBytes len b =
     rbind (if writableBytes b < len then makeSpace len b else Inr b) (\<lambda>b'.
       if len \<le> writableBytes b' then Inr b' else Inl AssertFailed)"

definition hasWritten :: "size_t \<Rightarrow> buffer \<Rightarrow> buffer result" where
  "hasWritten len b =
     (if \<not> len \<le> writableBytes b then Inl AssertFailed
      else Inr (b\<lparr>writerIndex := writerIndex b + len\<rparr>))"

definition unwrite :: "size_t \<Rightarrow> buffer \<Rightarrow> buffer result" where
  "unwrite len b =
     (if \<not> len \<le> readableBytes b then Inl AssertFailed
      else Inr (b\<lparr>writerIndex := writerIndex b - len\<rparr>))"

text \<open>
  \<^verbatim>\<open>append(data, len)\<close>: \<open>data\<close> is the block the pointer points to; reading \<open>len\<close> bytes
  of it is a load.
\<close>

definition append_data :: "byte list \<Rightarrow> size_t \<Rightarrow> buffer \<Rightarrow> buffer result" where
  "append_data data len b =
     rbind (ensureWritableBytes len b) (\<lambda>b1.
     rbind (load data 0 (unat len)) (\<lambda>d.
     rbind (store (buf b1) (beginWrite b1) d) (\<lambda>m.
       hasWritten len (b1\<lparr>buf := m\<rparr>))))"

definition prepend :: "byte list \<Rightarrow> size_t \<Rightarrow> buffer \<Rightarrow> buffer result" where
  "prepend data len b =
     (if \<not> len \<le> prependableBytes b then Inl AssertFailed
      else let r = readerIndex b - len in
        rbind (load data 0 (unat len)) (\<lambda>d.
        rbind (store (buf b) (unat r) d) (\<lambda>m.
          Inr (b\<lparr>buf := m, readerIndex := r\<rparr>))))"

definition appendInt32 :: "byte_order \<Rightarrow> int32_t \<Rightarrow> buffer \<Rightarrow> buffer result" where
  "appendInt32 ord x b = append_data (mem32 ord (htonl ord x)) 4 b"

definition appendInt16 :: "byte_order \<Rightarrow> int16_t \<Rightarrow> buffer \<Rightarrow> buffer result" where
  "appendInt16 ord x b = append_data (mem16 ord (htons ord x)) 2 b"

definition appendInt8 :: "byte \<Rightarrow> buffer \<Rightarrow> buffer result" where
  "appendInt8 x b = append_data [x] 1 b"

definition peekInt32 :: "byte_order \<Rightarrow> buffer \<Rightarrow> int32_t result" where
  "peekInt32 ord b =
     (if \<not> 4 \<le> readableBytes b then Inl AssertFailed
      else rbind (load (buf b) (peek b) 4) (\<lambda>bs. Inr (ntohl ord (val32 ord bs))))"

definition peekInt16 :: "byte_order \<Rightarrow> buffer \<Rightarrow> int16_t result" where
  "peekInt16 ord b =
     (if \<not> 2 \<le> readableBytes b then Inl AssertFailed
      else rbind (load (buf b) (peek b) 2) (\<lambda>bs. Inr (ntohs ord (val16 ord bs))))"

definition peekInt8 :: "buffer \<Rightarrow> byte result" where
  "peekInt8 b =
     (if \<not> 1 \<le> readableBytes b then Inl AssertFailed
      else rbind (load (buf b) (peek b) 1) (\<lambda>bs. Inr (hd bs)))"

definition readInt32 :: "byte_order \<Rightarrow> buffer \<Rightarrow> (int32_t \<times> buffer) result" where
  "readInt32 ord b =
     rbind (peekInt32 ord b) (\<lambda>x. rbind (retrieveInt32 b) (\<lambda>b'. Inr (x, b')))"

definition readInt16 :: "byte_order \<Rightarrow> buffer \<Rightarrow> (int16_t \<times> buffer) result" where
  "readInt16 ord b =
     rbind (peekInt16 ord b) (\<lambda>x. rbind (retrieveInt16 b) (\<lambda>b'. Inr (x, b')))"

definition readInt8 :: "buffer \<Rightarrow> (byte \<times> buffer) result" where
  "readInt8 b = rbind (peekInt8 b) (\<lambda>x. rbind (retrieveInt8 b) (\<lambda>b'. Inr (x, b')))"

definition prependInt32 :: "byte_order \<Rightarrow> int32_t \<Rightarrow> buffer \<Rightarrow> buffer result" where
  "prependInt32 ord x b = prepend (mem32 ord (htonl ord x)) 4 b"

definition prependInt16 :: "byte_order \<Rightarrow> int16_t \<Rightarrow> buffer \<Rightarrow> buffer result" where
  "prependInt16 ord x b = prepend (mem16 ord (htons ord x)) 2 b"

definition prependInt8 :: "byte \<Rightarrow> buffer \<Rightarrow> buffer result" where
  "prependInt8 x b = prepend [x] 1 b"

text \<open>
  \<^verbatim>\<open>readFd\<close>: the result of \<^verbatim>\<open>readv\<close> is a parameter, a function of the lengths of the two
  (or one) io vectors: the \<^verbatim>\<open>errno\<close> value, or the bytes received, which fill the first
  vector and then the second. The result is the return value, the errno that was saved (if
  one was) and the buffer.
\<close>

definition extrabuf_size :: nat where
  "extrabuf_size = 65536"

definition readFd_iov :: "buffer \<Rightarrow> nat list" where
  "readFd_iov b =
     (let writable = unat (writableBytes b)
      in if writable < extrabuf_size then [writable, extrabuf_size] else [writable])"

definition readFd ::
    "(nat list \<Rightarrow> int + byte list) \<Rightarrow> buffer \<Rightarrow> (int \<times> int option \<times> buffer) result" where
  "readFd readv b =
     (let writable = writableBytes b
      in case readv (readFd_iov b) of
           Inl e \<Rightarrow> Inr (- 1, Some e, b)
         | Inr d \<Rightarrow>
             rbind (store (buf b) (beginWrite b) (take (unat writable) d)) (\<lambda>m.
               let b1 = b\<lparr>buf := m\<rparr>; n = length d in
               if n \<le> unat writable
               then Inr (int n, None, b1\<lparr>writerIndex := writerIndex b1 + of_nat n\<rparr>)
               else rbind (append_data (drop (unat writable) d) (of_nat n - writable)
                             (b1\<lparr>writerIndex := vec_size (buf b1)\<rparr>)) (\<lambda>b2.
                      Inr (int n, None, b2))))"

section \<open>Invariant and abstraction\<close>

definition buffer_ok :: "buffer \<Rightarrow> bool" where
  "buffer_ok b \<longleftrightarrow> unat (readerIndex b) \<le> unat (writerIndex b)
     \<and> unat (writerIndex b) \<le> length (buf b) \<and> length (buf b) \<le> vec_max
     \<and> unat kCheapPrepend \<le> length (buf b)"

definition readable :: "buffer \<Rightarrow> byte list" where
  "readable b = window (peek b) (beginWrite b) (buf b)"

text \<open>Room for \<open>n\<close> more bytes without leaving the size range of the vector.\<close>

definition room :: "nat \<Rightarrow> buffer \<Rightarrow> bool" where
  "room n b \<longleftrightarrow> unat (writerIndex b) + n \<le> vec_max"

text \<open>What counts against the size limit, and \<^verbatim>\<open>append\<close> of a whole block.\<close>

definition used_bytes :: "buffer \<Rightarrow> nat" where
  "used_bytes b = max 8 (unat (writerIndex b))"

definition put_bytes :: "byte list \<Rightarrow> buffer \<Rightarrow> buffer result" where
  "put_bytes d b = append_data d (vec_size d) b"

section \<open>Index arithmetic\<close>

lemma vec_max_bound: "n \<le> vec_max \<Longrightarrow> n < 2 ^ 64"
  by (simp add: vec_max_def)

lemma unat_of_nat_le [simp]: "n \<le> vec_max \<Longrightarrow> unat (of_nat n :: size_t) = n"
  by (simp add: vec_max_def unat_of_nat)

lemma kCheapPrepend_unat [simp]: "unat kCheapPrepend = 8"
  by (simp add: kCheapPrepend_def)

lemma unat_vec_size: "length v \<le> vec_max \<Longrightarrow> unat (vec_size v) = length v"
  by (simp add: vec_size_def)

lemma buffer_okD:
  assumes "buffer_ok b"
  shows "unat (readerIndex b) \<le> unat (writerIndex b)"
    and "unat (writerIndex b) \<le> length (buf b)"
    and "length (buf b) \<le> vec_max"
    and "8 \<le> length (buf b)"
  using assms by (simp_all add: buffer_ok_def)

lemma unat_readableBytes:
  "buffer_ok b \<Longrightarrow> unat (readableBytes b) = unat (writerIndex b) - unat (readerIndex b)"
  by (simp add: readableBytes_def buffer_ok_def unat_sub word_le_nat_alt)

lemma unat_writableBytes:
  "buffer_ok b \<Longrightarrow> unat (writableBytes b) = length (buf b) - unat (writerIndex b)"
  by (simp add: writableBytes_def buffer_ok_def unat_sub word_le_nat_alt unat_vec_size)

lemma length_readable:
  "buffer_ok b \<Longrightarrow> length (readable b) = unat (readableBytes b)"
  by (simp add: readable_def length_window peek_def beginWrite_def buffer_ok_def
      unat_readableBytes)

lemma unat_add_vec_max:
  fixes x y :: size_t
  assumes "unat x + unat y \<le> vec_max"
  shows "unat (x + y) = unat x + unat y"
  using vec_max_bound[OF assms] by (simp add: unat_word_ariths)

lemma new_Buffer_eq:
  "new_Buffer = Inr \<lparr>buf = replicate 1032 0, readerIndex = 8, writerIndex = 8\<rparr>"
  by (simp add: new_Buffer_def readableBytes_def writableBytes_def prependableBytes_def
      kCheapPrepend_def kInitialSize_def vec_size_def)

lemma new_Buffer_ok: "new_Buffer = Inr b \<Longrightarrow> buffer_ok b \<and> readable b = []"
  by (auto simp: new_Buffer_eq buffer_ok_def readable_def peek_def beginWrite_def vec_max_def)

section \<open>Retrieving\<close>

lemma retrieveAll_ok: "buffer_ok b \<Longrightarrow> buffer_ok (retrieveAll b)"
  by (simp add: buffer_ok_def retrieveAll_def)

lemma readable_retrieveAll [simp]: "readable (retrieveAll b) = []"
  by (simp add: readable_def peek_def beginWrite_def retrieveAll_def)

lemma retrieve_spec:
  assumes ok: "buffer_ok b" and len: "unat len \<le> length (readable b)"
  shows "yields (retrieve len b) (\<lambda>b'. buffer_ok b'
    \<and> readable b' = drop (unat len) (readable b) \<and> buf b' = buf b
    \<and> unat (writerIndex b') \<le> max 8 (unat (writerIndex b)))"
proof (cases "len < readableBytes b")
  case True
  let ?b = "b\<lparr>readerIndex := readerIndex b + len\<rparr>"
  have "unat len < unat (writerIndex b) - unat (readerIndex b)"
    using True ok by (simp add: word_less_nat_alt unat_readableBytes)
  then have sum: "unat (readerIndex b) + unat len \<le> unat (writerIndex b)" by simp
  have idx: "unat (readerIndex b + len) = unat (readerIndex b) + unat len"
    by (rule unat_add_vec_max) (use sum buffer_okD(2,3)[OF ok] in linarith)
  have "retrieve len b = Inr ?b" using True by (simp add: retrieve_def)
  moreover have "buffer_ok ?b" using ok sum idx by (simp add: buffer_ok_def)
  moreover have "readable ?b = drop (unat len) (readable b)"
    using idx by (simp add: readable_def peek_def beginWrite_def window_drop)
  ultimately show ?thesis by simp
next
  case False
  have eq: "unat len = unat (readableBytes b)"
    using False len ok by (simp add: word_less_nat_alt length_readable)
  then have "retrieve len b = Inr (retrieveAll b)"
    using False by (simp add: retrieve_def word_le_nat_alt)
  moreover have "readable (retrieveAll b) = drop (unat len) (readable b)"
    using eq ok by (simp add: length_readable)
  moreover have "unat (writerIndex (retrieveAll b)) = 8" by (simp add: retrieveAll_def)
  ultimately show ?thesis
    using ok retrieveAll_ok[OF ok] by (simp add: retrieveAll_def)
qed

lemma retrieve_too_much:
  "buffer_ok b \<Longrightarrow> length (readable b) < unat len \<Longrightarrow> retrieve len b = Inl AssertFailed"
  by (simp add: retrieve_def word_le_nat_alt length_readable)

section \<open>Making space and appending\<close>

lemma window_append_right: "j \<le> length m \<Longrightarrow> window i j (m @ ys) = window i j m"
  by (simp add: window_def)

lemma makeSpace_grow:
  assumes ok: "buffer_ok b" and room: "room (unat len) b"
    and small: "length (buf b) < unat (writerIndex b) + unat len"
    and cond: "writableBytes b + prependableBytes b < len + kCheapPrepend"
  shows "makeSpace len b =
    Inr (b\<lparr>buf := buf b @ replicate (unat (writerIndex b) + unat len - length (buf b)) 0\<rparr>)"
proof -
  have sum: "unat (writerIndex b + len) = unat (writerIndex b) + unat len"
    using room by (simp add: room_def unat_add_vec_max)
  then have "vec_resize (writerIndex b + len) (buf b) =
      Inr (buf b @ replicate (unat (writerIndex b) + unat len - length (buf b)) 0)"
    using room small by (simp add: vec_resize_def room_def)
  with cond show ?thesis by (simp add: makeSpace_def)
qed

lemma makeSpace_cond:
  assumes ok: "buffer_ok b" and room: "room (unat len) b"
  shows "writableBytes b + prependableBytes b < len + kCheapPrepend \<longleftrightarrow>
    length (buf b) - unat (writerIndex b) + unat (readerIndex b) < unat len + 8"
proof -
  have l: "unat (writableBytes b) + unat (prependableBytes b) \<le> vec_max"
    using buffer_okD[OF ok] by (simp add: unat_writableBytes[OF ok] prependableBytes_def)
  have "unat len + 8 < 2 ^ 64"
    using room by (simp add: room_def vec_max_def)
  then have "unat (len + kCheapPrepend) = unat len + 8"
    by (simp add: unat_word_ariths kCheapPrepend_def)
  then show ?thesis
    using unat_add_vec_max[OF l] ok
    by (simp add: word_less_nat_alt unat_writableBytes prependableBytes_def)
qed

lemma makeSpace_move:
  assumes ok: "buffer_ok b" and room: "room (unat len) b"
    and cond: "\<not> writableBytes b + prependableBytes b < len + kCheapPrepend"
    and small: "length (buf b) - unat (writerIndex b) < unat len"
  shows "yields (makeSpace len b) (\<lambda>b'. buffer_ok b' \<and> readable b' = readable b
    \<and> length (buf b') = length (buf b) \<and> unat (writerIndex b') = 8 + length (readable b)
    \<and> unat (writerIndex b') \<le> unat (writerIndex b)
    \<and> min 8 (unat (readerIndex b)) \<le> unat (readerIndex b'))"
proof -
  let ?r = "unat (readerIndex b)" and ?w = "unat (writerIndex b)"
  let ?d = "readable b"
  let ?m = "take 8 (buf b) @ ?d @ drop (8 + length ?d) (buf b)"
  let ?b' = "b\<lparr>buf := ?m, readerIndex := kCheapPrepend,
               writerIndex := kCheapPrepend + readableBytes b\<rparr>"
  note D = buffer_okD[OF ok]
  have big: "8 < ?r"
    using makeSpace_cond[OF ok room] cond small by simp
  have len_d: "length ?d = ?w - ?r"
    using ok by (simp add: length_readable unat_readableBytes)
  have d: "load_range (buf b) (peek b) (beginWrite b) = Inr ?d"
    using D by (simp add: load_range_def readable_def window_def peek_def beginWrite_def)
  have fit: "8 + length ?d \<le> length (buf b)" using len_d big D by simp
  have m: "store (buf b) (unat kCheapPrepend) ?d = Inr ?m" using fit by (simp add: store_ok)
  have w': "unat (kCheapPrepend + readableBytes b) = 8 + length ?d"
    using fit D by (simp add: unat_add_vec_max ok length_readable)
  have asrt: "readableBytes b = readableBytes ?b'" by (simp add: readableBytes_def)
  have "kCheapPrepend < readerIndex b" using big by (simp add: word_less_nat_alt)
  then have "makeSpace len b = Inr ?b'"
    using cond d m asrt by (simp add: makeSpace_def Let_def)
  moreover have "buffer_ok ?b'"
    using w' fit D by (simp add: buffer_ok_def)
  moreover have "readable ?b' = ?d"
    using w' fit by (simp add: readable_def[of ?b'] peek_def beginWrite_def window_def)
  ultimately show ?thesis using w' fit len_d big D by simp
qed

lemma ensureWritableBytes_spec:
  assumes ok: "buffer_ok b" and room: "room (unat len) b"
  shows "yields (ensureWritableBytes len b) (\<lambda>b'. buffer_ok b' \<and> readable b' = readable b
    \<and> unat (writerIndex b') + unat len \<le> length (buf b')
    \<and> unat (writerIndex b') \<le> unat (writerIndex b)
    \<and> min 8 (unat (readerIndex b)) \<le> unat (readerIndex b'))"
proof (cases "writableBytes b < len")
  case False
  then have "ensureWritableBytes len b = Inr b" by (simp add: ensureWritableBytes_def)
  moreover have "unat (writerIndex b) + unat len \<le> length (buf b)"
    using False buffer_okD[OF ok] by (simp add: word_less_nat_alt unat_writableBytes[OF ok])
  ultimately show ?thesis using ok by simp
next
  case True
  then have small: "length (buf b) - unat (writerIndex b) < unat len"
    by (simp add: word_less_nat_alt unat_writableBytes[OF ok])
  have "yields (makeSpace len b) (\<lambda>b'. buffer_ok b' \<and> readable b' = readable b
      \<and> unat (writerIndex b') + unat len \<le> length (buf b')
      \<and> unat (writerIndex b') \<le> unat (writerIndex b)
      \<and> min 8 (unat (readerIndex b)) \<le> unat (readerIndex b'))"
  proof (cases "writableBytes b + prependableBytes b < len + kCheapPrepend")
    case True
    let ?b' = "b\<lparr>buf := buf b @ replicate (unat (writerIndex b) + unat len - length (buf b)) 0\<rparr>"
    have "makeSpace len b = Inr ?b'"
      by (rule makeSpace_grow[OF ok room _ True]) (use small in linarith)
    moreover have "buffer_ok ?b'" using ok room small by (auto simp: buffer_ok_def room_def)
    moreover have "readable ?b' = readable b"
      using buffer_okD[OF ok]
      by (simp add: readable_def peek_def beginWrite_def window_append_right)
    ultimately show ?thesis using small by simp
  next
    case False
    have "unat len + 8 \<le> length (buf b) - unat (writerIndex b) + unat (readerIndex b)"
      using False makeSpace_cond[OF ok room] by simp
    then have "8 + length (readable b) + unat len \<le> length (buf b)"
      using buffer_okD[OF ok] by (simp add: length_readable[OF ok] unat_readableBytes[OF ok])
    then show ?thesis
      by (intro yields_mono[OF makeSpace_move[OF ok room False small]]) simp
  qed
  then show ?thesis
    using True by (auto simp: ensureWritableBytes_def yields_rbind word_le_nat_alt
        unat_writableBytes elim!: yields_mono)
qed

lemma store_readable:
  assumes ok: "buffer_ok b" and fit: "beginWrite b + length d \<le> length (buf b)"
  shows "yields (store (buf b) (beginWrite b) d) (\<lambda>m. length m = length (buf b)
    \<and> window (peek b) (beginWrite b + length d) m = readable b @ d)"
proof -
  let ?m = "take (beginWrite b) (buf b) @ d @ drop (beginWrite b + length d) (buf b)"
  note D = buffer_okD[OF ok]
  have "store (buf b) (beginWrite b) d = Inr ?m"
    using fit by (simp add: store_ok beginWrite_def)
  moreover have "length ?m = length (buf b)" using fit by (simp add: beginWrite_def)
  moreover have "window (peek b) (beginWrite b + length d) ?m = readable b @ d"
    using D by (simp add: window_def readable_def peek_def beginWrite_def drop_take)
  ultimately show ?thesis by simp
qed

lemma append_data_spec:
  assumes ok: "buffer_ok b" and len: "unat len = length data" and room: "room (length data) b"
  shows "yields (append_data data len b) (\<lambda>b'. buffer_ok b' \<and> readable b' = readable b @ data
    \<and> unat (writerIndex b') \<le> unat (writerIndex b) + length data
    \<and> min 8 (unat (readerIndex b)) \<le> unat (readerIndex b'))"
proof -
  obtain b1 where b1: "ensureWritableBytes len b = Inr b1" "buffer_ok b1"
      "readable b1 = readable b" "unat (writerIndex b1) + unat len \<le> length (buf b1)"
      "unat (writerIndex b1) \<le> unat (writerIndex b)"
      "min 8 (unat (readerIndex b)) \<le> unat (readerIndex b1)"
    using ensureWritableBytes_spec[OF ok, of len] room len by (auto elim: yieldsE)
  obtain m where m: "store (buf b1) (beginWrite b1) data = Inr m" "length m = length (buf b1)"
      "window (peek b1) (beginWrite b1 + length data) m = readable b1 @ data"
    using store_readable[OF b1(2), of data] b1(4) len by (auto simp: beginWrite_def elim: yieldsE)
  let ?b = "b1\<lparr>buf := m, writerIndex := writerIndex b1 + len\<rparr>"
  note D = buffer_okD[OF b1(2)]
  have idx: "unat (writerIndex b1 + len) = beginWrite b1 + length data"
    using b1(4) D len by (simp add: unat_add_vec_max beginWrite_def)
  have "len \<le> writableBytes (b1\<lparr>buf := m\<rparr>)"
    using b1(2,4) m(2) by (simp add: word_le_nat_alt unat_writableBytes buffer_ok_def)
  then have "append_data data len b = Inr ?b"
    using b1(1) m(1) len by (simp add: append_data_def load_def hasWritten_def)
  moreover have "buffer_ok ?b"
    using D m(2) b1(4) idx len by (simp add: buffer_ok_def beginWrite_def)
  moreover have "readable ?b = readable b @ data"
    using m(3) idx b1(3) by (simp add: readable_def[of ?b] peek_def beginWrite_def)
  ultimately show ?thesis using idx b1(5,6) by (simp add: beginWrite_def)
qed

section \<open>Prepending, taking back, reading strings and integers\<close>

text \<open>How far an append can make the vector grow.\<close>

lemma append_data_length:
  assumes "append_data data len b = Inr b'"
  shows "length (buf b') \<le> max (length (buf b)) (unat (writerIndex b + len))"
proof -
  have "length (buf b1) \<le> max (length (buf b)) (unat (writerIndex b + len))"
    if "ensureWritableBytes len b = Inr b1" for b1
    using that by (auto simp: ensureWritableBytes_def makeSpace_def vec_resize_def Let_def
        rbind_Inr_iff split: if_splits dest: store_length)
  with assms show ?thesis
    by (auto simp: append_data_def hasWritten_def rbind_Inr_iff split: if_splits dest!: store_length)
qed

lemma prepend_spec:
  assumes ok: "buffer_ok b" and len: "unat len = length data"
    and fit: "length data \<le> unat (readerIndex b)"
  shows "yields (prepend data len b) (\<lambda>b'. buffer_ok b' \<and> readable b' = data @ readable b
    \<and> unat (readerIndex b') = unat (readerIndex b) - length data)"
proof -
  note D = buffer_okD[OF ok]
  let ?r = "readerIndex b - len"
  let ?m = "take (unat ?r) (buf b) @ data @ drop (unat ?r + length data) (buf b)"
  let ?b = "b\<lparr>buf := ?m, readerIndex := ?r\<rparr>"
  have r: "unat ?r = unat (readerIndex b) - length data"
    using fit len by (simp add: unat_sub word_le_nat_alt)
  have st: "store (buf b) (unat ?r) data = Inr ?m"
    using r fit D by (simp add: store_ok)
  have "len \<le> prependableBytes b" using fit len by (simp add: prependableBytes_def word_le_nat_alt)
  then have "prepend data len b = Inr ?b"
    using st len by (simp add: prepend_def load_def Let_def)
  moreover have "buffer_ok ?b" using D r fit by (simp add: buffer_ok_def)
  moreover have "readable ?b = data @ readable b"
    using D r fit by (simp add: readable_def peek_def beginWrite_def window_def)
  ultimately show ?thesis using r by simp
qed

lemma unwrite_spec:
  assumes ok: "buffer_ok b" and len: "unat len \<le> length (readable b)"
  shows "yields (unwrite len b) (\<lambda>b'. buffer_ok b'
    \<and> readable b' = take (length (readable b) - unat len) (readable b)
    \<and> unat (writerIndex b') \<le> unat (writerIndex b))"
proof -
  note D = buffer_okD[OF ok]
  let ?b = "b\<lparr>writerIndex := writerIndex b - len\<rparr>"
  have l: "unat len \<le> unat (writerIndex b) - unat (readerIndex b)"
    using len by (simp add: length_readable[OF ok] unat_readableBytes[OF ok])
  then have w: "unat (writerIndex b - len) = unat (writerIndex b) - unat len"
    by (simp add: unat_sub word_le_nat_alt)
  have "len \<le> readableBytes b" using len by (simp add: word_le_nat_alt length_readable[OF ok])
  then have "unwrite len b = Inr ?b" by (simp add: unwrite_def)
  moreover have "buffer_ok ?b" using D w l by (auto simp: buffer_ok_def)
  moreover have "readable ?b = take (length (readable b) - unat len) (readable b)"
  proof -
    have "beginWrite ?b = peek b + (length (readable b) - unat len)"
      using D w l by (simp add: length_readable[OF ok] unat_readableBytes[OF ok] peek_def beginWrite_def)
    then have "readable ?b = window (peek b) (peek b + (length (readable b) - unat len)) (buf b)"
      by (simp add: readable_def peek_def)
    also have "\<dots> = take (length (readable b) - unat len) (readable b)"
      unfolding readable_def
      by (rule window_take) (use D in \<open>simp add: length_window peek_def beginWrite_def\<close>)
    finally show ?thesis .
  qed
  ultimately show ?thesis using w by simp
qed

lemma load_readable:
  assumes ok: "buffer_ok b" and n: "n \<le> length (readable b)"
  shows "load (buf b) (peek b) n = Inr (take n (readable b))"
proof -
  have "n \<le> unat (writerIndex b) - unat (readerIndex b)"
    using n by (simp add: length_readable[OF ok] unat_readableBytes[OF ok])
  then show ?thesis
    using buffer_okD[OF ok]
    by (simp add: load_def readable_def window_def peek_def beginWrite_def min_def)
qed

lemma readableBytes_ge_iff:
  "buffer_ok b \<Longrightarrow> n \<le> readableBytes b \<longleftrightarrow> unat n \<le> length (readable b)"
  by (simp add: word_le_nat_alt length_readable)

lemma retrieveAsString_spec:
  assumes ok: "buffer_ok b" and len: "unat len \<le> length (readable b)"
  shows "yields (retrieveAsString len b) (\<lambda>(s, b'). s = take (unat len) (readable b)
    \<and> buffer_ok b' \<and> readable b' = drop (unat len) (readable b)
    \<and> unat (writerIndex b') \<le> max 8 (unat (writerIndex b)))"
  using retrieve_spec[OF ok len] load_readable[OF ok len] len
  by (auto simp: retrieveAsString_def readableBytes_ge_iff[OF ok] yields_rbind elim: yields_mono)

lemma retrieveAllAsString_spec:
  assumes ok: "buffer_ok b"
  shows "yields (retrieveAllAsString b)
    (\<lambda>(s, b'). s = readable b \<and> buffer_ok b' \<and> readable b' = [])"
  using retrieveAsString_spec[OF ok, of "readableBytes b"]
  by (auto simp: retrieveAllAsString_def length_readable[OF ok, symmetric] elim: yields_mono)

text \<open>Taking everything resets the indices and keeps the vector.\<close>

lemma retrieveAllAsString_eq:
  assumes ok: "buffer_ok b"
  shows "retrieveAllAsString b = Inr (readable b, retrieveAll b)"
proof -
  have "unat (readableBytes b) = length (readable b)" using length_readable[OF ok] by simp
  then show ?thesis
    using load_readable[OF ok, of "unat (readableBytes b)"]
    by (simp add: retrieveAllAsString_def retrieveAsString_def retrieve_def)
qed

lemma retrieveUntil_spec:
  assumes ok: "buffer_ok b" and lo: "peek b \<le> p" and hi: "p \<le> beginWrite b"
  shows "yields (retrieveUntil p b)
    (\<lambda>b'. buffer_ok b' \<and> readable b' = drop (p - peek b) (readable b))"
proof -
  note D = buffer_okD[OF ok]
  have le: "p - peek b \<le> vec_max" using hi D by (simp add: beginWrite_def)
  then have u: "unat (of_nat (p - peek b) :: size_t) = p - peek b" by (rule unat_of_nat_le)
  have "p - peek b \<le> length (readable b)"
    using lo hi by (simp add: length_readable[OF ok] unat_readableBytes[OF ok] peek_def beginWrite_def)
  then show ?thesis
    using retrieve_spec[OF ok, of "of_nat (p - peek b)"] lo hi unfolding u
    by (auto simp: retrieveUntil_def elim: yields_mono)
qed

lemma peekInt32_spec:
  assumes ok: "buffer_ok b" and l: "4 \<le> length (readable b)"
  shows "peekInt32 ord b = Inr (of_be32 (take 4 (readable b)))"
  using l load_readable[OF ok l]
  by (simp add: peekInt32_def readableBytes_ge_iff[OF ok] ntohl_val32)

lemma peekInt16_spec:
  assumes ok: "buffer_ok b" and l: "2 \<le> length (readable b)"
  shows "peekInt16 ord b = Inr (of_be16 (take 2 (readable b)))"
  using l load_readable[OF ok l]
  by (simp add: peekInt16_def readableBytes_ge_iff[OF ok] ntohs_val16)

lemma peekInt8_spec:
  assumes ok: "buffer_ok b" and l: "1 \<le> length (readable b)"
  shows "peekInt8 b = Inr (hd (readable b))"
  using l load_readable[OF ok l]
  by (cases "readable b") (simp_all add: peekInt8_def readableBytes_ge_iff[OF ok])

lemma readInt32_spec:
  assumes ok: "buffer_ok b" and l: "4 \<le> length (readable b)"
  shows "yields (readInt32 ord b) (\<lambda>(x, b'). x = of_be32 (take 4 (readable b))
    \<and> buffer_ok b' \<and> readable b' = drop 4 (readable b)
    \<and> unat (writerIndex b') \<le> max 8 (unat (writerIndex b)))"
  using retrieve_spec[OF ok, of 4] peekInt32_spec[OF ok l] l
  by (auto simp: readInt32_def retrieveInt32_def yields_rbind elim: yields_mono)

lemma readInt16_spec:
  assumes ok: "buffer_ok b" and l: "2 \<le> length (readable b)"
  shows "yields (readInt16 ord b) (\<lambda>(x, b'). x = of_be16 (take 2 (readable b))
    \<and> buffer_ok b' \<and> readable b' = drop 2 (readable b)
    \<and> unat (writerIndex b') \<le> max 8 (unat (writerIndex b)))"
  using retrieve_spec[OF ok, of 2] peekInt16_spec[OF ok l] l
  by (auto simp: readInt16_def retrieveInt16_def yields_rbind elim: yields_mono)

lemma readInt8_spec:
  assumes ok: "buffer_ok b" and l: "1 \<le> length (readable b)"
  shows "yields (readInt8 b) (\<lambda>(x, b'). x = hd (readable b)
    \<and> buffer_ok b' \<and> readable b' = drop 1 (readable b)
    \<and> unat (writerIndex b') \<le> max 8 (unat (writerIndex b)))"
  using retrieve_spec[OF ok, of 1] peekInt8_spec[OF ok l] l
  by (auto simp: readInt8_def retrieveInt8_def yields_rbind elim: yields_mono)

lemma appendInt32_spec:
  "buffer_ok b \<Longrightarrow> room 4 b \<Longrightarrow>
   yields (appendInt32 ord x b) (\<lambda>b'. buffer_ok b' \<and> readable b' = readable b @ be32 x
     \<and> unat (writerIndex b') \<le> unat (writerIndex b) + 4)"
  using append_data_spec[of b 4 "be32 x"] by (auto simp: appendInt32_def elim: yields_mono)

lemma appendInt16_spec:
  "buffer_ok b \<Longrightarrow> room 2 b \<Longrightarrow>
   yields (appendInt16 ord x b) (\<lambda>b'. buffer_ok b' \<and> readable b' = readable b @ be16 x
     \<and> unat (writerIndex b') \<le> unat (writerIndex b) + 2)"
  using append_data_spec[of b 2 "be16 x"] by (auto simp: appendInt16_def elim: yields_mono)

lemma appendInt8_spec:
  "buffer_ok b \<Longrightarrow> room 1 b \<Longrightarrow>
   yields (appendInt8 x b) (\<lambda>b'. buffer_ok b' \<and> readable b' = readable b @ [x]
     \<and> unat (writerIndex b') \<le> unat (writerIndex b) + 1)"
  using append_data_spec[of b 1 "[x]"] by (auto simp: appendInt8_def elim: yields_mono)

lemma prependInt32_spec:
  "buffer_ok b \<Longrightarrow> 4 \<le> unat (readerIndex b) \<Longrightarrow>
   yields (prependInt32 ord x b) (\<lambda>b'. buffer_ok b' \<and> readable b' = be32 x @ readable b)"
  using prepend_spec[of b 4 "be32 x"] by (auto simp: prependInt32_def elim: yields_mono)

section \<open>Searching, and reading from a descriptor\<close>

lemma search_pos_le: "search_pos pat xs \<le> length xs"
  by (induction xs) auto

lemma search_pos_before:
  "i < search_pos pat xs \<Longrightarrow> take (length pat) (drop i xs) \<noteq> pat"
proof (induction xs arbitrary: i)
  case (Cons x xs)
  then show ?case by (cases i) (auto split: if_splits)
qed simp

lemma search_pos_at:
  "search_pos pat xs < length xs \<Longrightarrow> take (length pat) (drop (search_pos pat xs) xs) = pat"
  by (induction xs) (auto split: if_splits)

lemma findCRLF_eq:
  assumes ok: "buffer_ok b"
  shows "findCRLF b = Inr (if search_pos kCRLF (readable b) = length (readable b) then None
                           else Some (peek b + search_pos kCRLF (readable b)))"
proof -
  note D = buffer_okD[OF ok]
  have "load_range (buf b) (peek b) (beginWrite b) = Inr (readable b)"
    using D by (simp add: load_range_def readable_def window_def peek_def beginWrite_def)
  moreover have "beginWrite b = peek b + length (readable b)"
    using D by (simp add: peek_def beginWrite_def length_readable[OF ok] unat_readableBytes[OF ok])
  ultimately show ?thesis by (simp add: findCRLF_def search_CRLF_def)
qed

lemma memchr_spec:
  "i + n \<le> length m \<Longrightarrow>
   memchr m i c n = Inr (if c \<in> set (take n (drop i m))
                         then Some (i + length (takeWhile (\<lambda>x. x \<noteq> c) (take n (drop i m))))
                         else None)"
proof (induction n arbitrary: i)
  case (Suc n)
  then have "drop i m = m ! i # drop (Suc i) m" by (simp add: Cons_nth_drop_Suc)
  with Suc show ?case by auto
qed simp

lemma findEOL_eq:
  assumes ok: "buffer_ok b"
  shows "findEOL b = Inr (if 10 \<in> set (readable b)
           then Some (peek b + length (takeWhile (\<lambda>x. x \<noteq> 10) (readable b))) else None)"
proof -
  note D = buffer_okD[OF ok]
  have "take (unat (readableBytes b)) (drop (peek b) (buf b)) = readable b"
    using D by (simp add: unat_readableBytes[OF ok] readable_def window_def peek_def beginWrite_def)
  then show ?thesis
    using memchr_spec[of "peek b" "unat (readableBytes b)" "buf b" 10] D
    by (simp add: findEOL_def unat_readableBytes[OF ok] peek_def)
qed

lemma readFd_fits:
  assumes ok: "buffer_ok b"
    and d: "readv (readFd_iov b) = Inr d"
    and fit: "length d \<le> unat (writableBytes b)"
  shows "yields (readFd readv b) (\<lambda>(n, e, b'). n = int (length d) \<and> e = None \<and> buffer_ok b'
    \<and> readable b' = readable b @ d)"
proof -
  note D = buffer_okD[OF ok]
  have f: "beginWrite b + length d \<le> length (buf b)"
    using fit D by (simp add: unat_writableBytes[OF ok] beginWrite_def)
  obtain m where m: "store (buf b) (beginWrite b) d = Inr m" "length m = length (buf b)"
      "window (peek b) (beginWrite b + length d) m = readable b @ d"
    using store_readable[OF ok f] by (auto elim: yieldsE)
  let ?b = "b\<lparr>buf := m, writerIndex := writerIndex b + of_nat (length d)\<rparr>"
  have w: "unat (writerIndex b + of_nat (length d)) = beginWrite b + length d"
    using f D by (simp add: beginWrite_def unat_add_vec_max)
  have "readFd readv b = Inr (int (length d), None, ?b)"
    using d fit m(1) by (simp add: readFd_def Let_def)
  moreover have "buffer_ok ?b" using D m(2) f w by (simp add: buffer_ok_def beginWrite_def)
  moreover have "readable ?b = readable b @ d"
    using m(3) w by (simp add: readable_def peek_def beginWrite_def)
  ultimately show ?thesis by simp
qed

lemma readFd_spills:
  assumes ok: "buffer_ok b"
    and d: "readv (readFd_iov b) = Inr d"
    and spill: "unat (writableBytes b) < length d"
    and room: "room (length d) b"
  shows "yields (readFd readv b) (\<lambda>(n, e, b'). n = int (length d) \<and> e = None \<and> buffer_ok b'
    \<and> readable b' = readable b @ d)"
proof -
  note D = buffer_okD[OF ok]
  let ?n = "unat (writableBytes b)"
  let ?d1 = "take ?n d" and ?d2 = "drop ?n d"
  have len1: "length ?d1 = ?n" using spill by simp
  have f: "beginWrite b + length ?d1 = length (buf b)"
    using D len1 by (simp add: unat_writableBytes[OF ok] beginWrite_def)
  obtain m where m: "store (buf b) (beginWrite b) ?d1 = Inr m" "length m = length (buf b)"
      "window (peek b) (beginWrite b + length ?d1) m = readable b @ ?d1"
    by (rule yieldsE[OF store_readable[OF ok, of ?d1]]) (use f in auto)
  let ?b = "b\<lparr>buf := m, writerIndex := vec_size m\<rparr>"
  have w: "unat (vec_size m) = length (buf b)" using m(2) D by (simp add: unat_vec_size)
  have ok': "buffer_ok ?b" using D m(2) w by (simp add: buffer_ok_def)
  have rd: "readable ?b = readable b @ ?d1"
    using m(3) w f by (simp add: readable_def peek_def beginWrite_def)
  have "length d \<le> vec_max" using room by (simp add: room_def)
  then have l2: "unat (of_nat (length d) - writableBytes b) = length ?d2"
    using spill by (simp add: unat_sub word_le_nat_alt)
  have rm: "room (length ?d2) ?b"
    using room w f len1 by (simp add: room_def beginWrite_def)
  have ap: "yields (append_data ?d2 (of_nat (length d) - writableBytes b) ?b)
      (\<lambda>b'. buffer_ok b' \<and> readable b' = readable ?b @ ?d2)"
    using append_data_spec[OF ok' l2 rm] by (auto elim: yields_mono)
  have "readFd readv b =
      rbind (append_data ?d2 (of_nat (length d) - writableBytes b) ?b)
        (\<lambda>b2. Inr (int (length d), None, b2))"
    using d spill m(1) by (simp add: readFd_def Let_def)
  then show ?thesis
    using ap rd by (auto simp: yields_rbind elim!: yields_mono)
qed

lemma readFd_spec:
  assumes "buffer_ok b" and "readv (readFd_iov b) = Inr d" and "room (length d) b"
  shows "yields (readFd readv b) (\<lambda>(n, e, b'). n = int (length d) \<and> e = None \<and> buffer_ok b'
    \<and> readable b' = readable b @ d)"
  using readFd_fits[where readv = readv, OF assms(1,2)]
    readFd_spills[where readv = readv, OF assms(1,2) _ assms(3)]
  by (cases "length d \<le> unat (writableBytes b)") auto

lemma readFd_room:
  assumes ok: "buffer_ok b" and size: "length (buf b) + extrabuf_size \<le> vec_max"
    and c: "length d \<le> sum_list (readFd_iov b)"
  shows "room (length d) b"
proof -
  have "unat (writerIndex b) + length d \<le> length (buf b) + extrabuf_size"
    using c buffer_okD[OF ok]
    by (auto simp: readFd_iov_def Let_def unat_writableBytes[OF ok] split: if_splits)
  with size show ?thesis by (simp add: room_def)
qed

section \<open>The buffer provides the stream interfaces\<close>

lemma room_used: "used_bytes b + n \<le> vec_max \<Longrightarrow> room n b"
  by (simp add: used_bytes_def room_def)

lemma put_bytes_spec:
  "buffer_ok b \<Longrightarrow> used_bytes b + length d \<le> vec_max \<Longrightarrow>
   yields (put_bytes d b) (\<lambda>b'. buffer_ok b' \<and> readable b' = readable b @ d
     \<and> used_bytes b' \<le> used_bytes b + length d)"
  using append_data_spec[of b "vec_size d" d]
  by (auto simp: put_bytes_def room_used unat_vec_size used_bytes_def elim!: yields_mono)

interpretation bq: byte_queue buffer_ok readable used_bytes vec_max put_bytes retrieveAsString
  unwrite retrieveAll
proof unfold_locales
  fix b and d :: "byte list"
  assume "buffer_ok b" "used_bytes b + length d \<le> vec_max"
  then show "yields (put_bytes d b) (\<lambda>b'. buffer_ok b' \<and> readable b' = readable b @ d
     \<and> used_bytes b' \<le> used_bytes b + length d)" by (rule put_bytes_spec)
next
  fix b and n :: size_t assume b: "buffer_ok b" and n: "unat n \<le> length (readable b)"
  show "yields (retrieveAsString n b) (\<lambda>(s, b'). s = take (unat n) (readable b) \<and> buffer_ok b'
        \<and> readable b' = drop (unat n) (readable b) \<and> used_bytes b' \<le> used_bytes b)"
    using retrieveAsString_spec[OF b n] by (auto simp: used_bytes_def elim!: yields_mono)
  show "yields (unwrite n b) (\<lambda>b'. buffer_ok b'
        \<and> readable b' = take (length (readable b) - unat n) (readable b)
        \<and> used_bytes b' \<le> used_bytes b)"
    using unwrite_spec[OF b n] by (auto simp: used_bytes_def elim!: yields_mono)
next
  fix b and n :: size_t assume "buffer_ok b" "length (readable b) < unat n"
  then show "retrieveAsString n b = Inl AssertFailed" "unwrite n b = Inl AssertFailed"
    by (simp_all add: retrieveAsString_def unwrite_def readableBytes_ge_iff)
next
  fix b assume "buffer_ok b"
  then show "buffer_ok (retrieveAll b) \<and> readable (retrieveAll b) = []
      \<and> used_bytes (retrieveAll b) \<le> used_bytes b"
    by (simp add: retrieveAll_ok used_bytes_def) (simp add: retrieveAll_def)
qed

interpretation i32: integer_stream buffer_ok readable used_bytes vec_max 4 be32
  "appendInt32 ord" "readInt32 ord" for ord
proof unfold_locales
  fix b :: buffer and x assume b: "buffer_ok b" and u: "used_bytes b + 4 \<le> vec_max"
  show "yields (appendInt32 ord x b) (\<lambda>b'. buffer_ok b' \<and> readable b' = readable b @ be32 x
      \<and> used_bytes b' \<le> used_bytes b + 4)"
    using appendInt32_spec[OF b room_used[OF u], of ord x]
    by (auto simp: used_bytes_def elim!: yields_mono)
next
  fix b :: buffer and x rest assume b: "buffer_ok b" and r: "readable b = be32 x @ rest"
  show "yields (readInt32 ord b) (\<lambda>(y, b'). y = x \<and> buffer_ok b' \<and> readable b' = rest)"
    using readInt32_spec[OF b, of ord] r by (auto elim!: yields_mono)
qed simp

interpretation i16: integer_stream buffer_ok readable used_bytes vec_max 2 be16
  "appendInt16 ord" "readInt16 ord" for ord
proof unfold_locales
  fix b :: buffer and x assume b: "buffer_ok b" and u: "used_bytes b + 2 \<le> vec_max"
  show "yields (appendInt16 ord x b) (\<lambda>b'. buffer_ok b' \<and> readable b' = readable b @ be16 x
      \<and> used_bytes b' \<le> used_bytes b + 2)"
    using appendInt16_spec[OF b room_used[OF u], of ord x]
    by (auto simp: used_bytes_def elim!: yields_mono)
next
  fix b :: buffer and x rest assume b: "buffer_ok b" and r: "readable b = be16 x @ rest"
  show "yields (readInt16 ord b) (\<lambda>(y, b'). y = x \<and> buffer_ok b' \<and> readable b' = rest)"
    using readInt16_spec[OF b, of ord] r by (auto elim!: yields_mono)
qed simp

interpretation i8: integer_stream buffer_ok readable used_bytes vec_max 1 "\<lambda>x. [x]"
  appendInt8 readInt8
proof unfold_locales
  fix b :: buffer and x assume b: "buffer_ok b" and u: "used_bytes b + 1 \<le> vec_max"
  show "yields (appendInt8 x b) (\<lambda>b'. buffer_ok b' \<and> readable b' = readable b @ [x]
      \<and> used_bytes b' \<le> used_bytes b + 1)"
    using appendInt8_spec[OF b room_used[OF u], of x]
    by (auto simp: used_bytes_def elim!: yields_mono)
next
  fix b :: buffer and x rest assume b: "buffer_ok b" and r: "readable b = [x] @ rest"
  show "yields (readInt8 b) (\<lambda>(y, b'). y = x \<and> buffer_ok b' \<and> readable b' = rest)"
    using readInt8_spec[OF b] r by (auto elim!: yields_mono)
qed simp

section \<open>Properties\<close>

text \<open>C7. The buffer is a queue of bytes: any sequence of appends, retrievals, unwrites and
  retrieve-alls returns the bytes, and leaves the readable bytes, that the same sequence gives
  on a list, as long as the bytes appended stay within the size range of the vector; a call
  that asks for more than is readable fails its assertion, and nothing else does.\<close>

theorem buffer_refines_queue:
  assumes "buffer_ok b" and "used_bytes b + bytes_put ops \<le> vec_max"
  shows "case queue_spec ops (readable b) of
      None \<Rightarrow> queue_run put_bytes retrieveAsString unwrite retrieveAll ops b = Inl AssertFailed
    | Some (out, q) \<Rightarrow>
        yields (queue_run put_bytes retrieveAsString unwrite retrieveAll ops b)
          (\<lambda>(out', b'). out' = out \<and> readable b' = q \<and> buffer_ok b')"
  using assms by (rule bq.run_refines)

theorem buffer_refines_queue_witness:
  "buffer_ok \<lparr>buf = replicate 1032 0, readerIndex = 8, writerIndex = 8\<rparr> \<and>
   yields (queue_run put_bytes retrieveAsString unwrite retrieveAll
       [Put [1, 2, 3, 4], Get 2, Unput 1, Put [7]]
       \<lparr>buf = replicate 1032 0, readerIndex = 8, writerIndex = 8\<rparr>)
     (\<lambda>(out, b'). out = [1, 2] \<and> readable b' = [3, 7] \<and> buffer_ok b')"
  using buffer_refines_queue[of "\<lparr>buf = replicate 1032 0, readerIndex = 8, writerIndex = 8\<rparr>"
      "[Put [1, 2, 3, 4], Get 2, Unput 1, Put [7]]"]
  by (simp add: buffer_ok_def used_bytes_def vec_max_def readable_def peek_def beginWrite_def)

text \<open>C15. Integers of 32, 16 and 8 bits that are appended to an empty buffer are read back
  unchanged and in order, on a little-endian and on a big-endian host, and leave the buffer
  empty.\<close>

theorem integers_round_trip:
  assumes "buffer_ok b" and "readable b = []"
    and "used_bytes b + 4 * length xs \<le> vec_max"
    and "used_bytes b + 2 * length ys \<le> vec_max"
    and "used_bytes b + 1 * length zs \<le> vec_max"
  shows "yields (rbind (append_each (appendInt32 ord) xs b) (read_each (readInt32 ord) (length xs)))
        (\<lambda>(xs', b'). xs' = xs \<and> buffer_ok b' \<and> readable b' = [])
    \<and> yields (rbind (append_each (appendInt16 ord) ys b) (read_each (readInt16 ord) (length ys)))
        (\<lambda>(ys', b'). ys' = ys \<and> buffer_ok b' \<and> readable b' = [])
    \<and> yields (rbind (append_each appendInt8 zs b) (read_each readInt8 (length zs)))
        (\<lambda>(zs', b'). zs' = zs \<and> buffer_ok b' \<and> readable b' = [])"
  using i32.write_read[OF assms(1-3)] i16.write_read[OF assms(1,2,4)]
    i8.write_read[OF assms(1,2,5)] by blast

theorem integers_round_trip_witness:
  "yields (rbind (append_each (appendInt32 LittleEndian) [1, - 2]
         \<lparr>buf = replicate 1032 0, readerIndex = 8, writerIndex = 8\<rparr>)
       (read_each (readInt32 LittleEndian) 2))
     (\<lambda>(xs, b'). xs = [1, - 2] \<and> buffer_ok b' \<and> readable b' = [])"
proof -
  let ?b = "\<lparr>buf = replicate 1032 0, readerIndex = 8, writerIndex = 8\<rparr>"
  have "buffer_ok ?b" "readable ?b = []" "used_bytes ?b + 4 * length [1, - 2 :: int32_t] \<le> vec_max"
      "used_bytes ?b + 2 * length [3 :: int16_t] \<le> vec_max"
      "used_bytes ?b + 1 * length [4 :: byte] \<le> vec_max"
    by (simp_all add: buffer_ok_def used_bytes_def vec_max_def readable_def peek_def beginWrite_def)
  from integers_round_trip[OF this, of LittleEndian] show ?thesis by (simp add: numeral_2_eq_2)
qed

text \<open>A length header fits in front of a payload: from an empty buffer whose cheap prepend
  space is untouched, appending any payload and prepending a 32-bit header leaves the header
  in network byte order followed by the payload, and reading the header back leaves exactly
  the payload.\<close>

theorem prepended_header:
  assumes ok: "buffer_ok b" and emp: "readable b = []" and r: "kCheapPrepend \<le> readerIndex b"
    and size: "used_bytes b + length payload \<le> vec_max"
  shows "yields (rbind (append_data payload (vec_size payload) b) (\<lambda>b1.
      rbind (prependInt32 ord hdr b1) (\<lambda>b2. Inr (readable b2, readInt32 ord b2))))
    (\<lambda>(bytes, rd). bytes = be32 hdr @ payload
       \<and> yields rd (\<lambda>(x, b3). x = hdr \<and> buffer_ok b3 \<and> readable b3 = payload))"
proof -
  have "unat (vec_size payload) = length payload" using size by (simp add: unat_vec_size)
  then obtain b1 where b1: "append_data payload (vec_size payload) b = Inr b1" "buffer_ok b1"
      "readable b1 = payload" "min 8 (unat (readerIndex b)) \<le> unat (readerIndex b1)"
    using append_data_spec[OF ok _ room_used[OF size]] emp by (auto elim: yieldsE)
  moreover have "4 \<le> unat (readerIndex b1)"
    using b1(4) r by (simp add: word_le_nat_alt)
  ultimately obtain b2 where b2: "prependInt32 ord hdr b1 = Inr b2" "buffer_ok b2"
      "readable b2 = be32 hdr @ payload"
    using prependInt32_spec[of b1 ord hdr] by (auto elim: yieldsE)
  with i32.rd[OF b2(2,3)] b1 show ?thesis by simp
qed

theorem prepended_header_witness:
  "yields (rbind (append_data [65, 66] (vec_size [65 :: byte, 66])
         \<lparr>buf = replicate 1032 0, readerIndex = 8, writerIndex = 8\<rparr>) (\<lambda>b1.
       rbind (prependInt32 BigEndian 2 b1) (\<lambda>b2. Inr (readable b2, readInt32 BigEndian b2))))
     (\<lambda>(bytes, rd). bytes = be32 2 @ [65, 66]
        \<and> yields rd (\<lambda>(x, b3). x = 2 \<and> buffer_ok b3 \<and> readable b3 = [65, 66]))"
  by (rule prepended_header)
    (simp_all add: buffer_ok_def used_bytes_def vec_max_def readable_def peek_def beginWrite_def
      kCheapPrepend_def)

text \<open>C21. \<^verbatim>\<open>readFd\<close> delivers what \<^verbatim>\<open>readv\<close> read: the bytes that arrived are appended to the
  readable bytes, in the vector or by way of the extra buffer; an error leaves the buffer
  alone and saves errno; and at most the writable space or 128k - 1 bytes are read, whichever
  is larger, as the comment in the code says. What is assumed of the kernel is that
  \<^verbatim>\<open>readv\<close> does not fill more than the vectors hold.\<close>

theorem readFd_delivers:
  assumes ok: "buffer_ok b" and size: "length (buf b) + extrabuf_size \<le> vec_max"
    and readv_contract: "\<And>iov d. readv iov = Inr d \<Longrightarrow> length d \<le> sum_list iov"
  shows "yields (readFd readv b) (\<lambda>(n, saved, b'). case readv (readFd_iov b) of
      Inl err \<Rightarrow> n = - 1 \<and> saved = Some err \<and> b' = b
    | Inr d \<Rightarrow> n = int (length d) \<and> saved = None \<and> buffer_ok b' \<and> readable b' = readable b @ d
        \<and> length d \<le> max (unat (writableBytes b)) (128 * 1024 - 1))"
proof (cases "readv (readFd_iov b)")
  case (Inl err)
  then show ?thesis by (simp add: readFd_def)
next
  case (Inr d)
  then have c: "length d \<le> sum_list (readFd_iov b)" by (rule readv_contract)
  have room: "room (length d) b" using readFd_room[OF ok size c] .
  have bound: "length d \<le> max (unat (writableBytes b)) (128 * 1024 - 1)"
    using c by (auto simp: readFd_iov_def Let_def extrabuf_size_def split: if_splits)
  show ?thesis
    using readFd_spec[where readv = readv, OF ok Inr room] bound
    by (auto simp: Inr elim!: yields_mono)
qed

theorem readFd_delivers_witness:
  "yields (readFd (\<lambda>iov. Inr (take (sum_list iov) [1, 2, 3]))
       \<lparr>buf = replicate 10 0, readerIndex = 8, writerIndex = 8\<rparr>)
     (\<lambda>(n, saved, b'). n = 3 \<and> saved = None \<and> readable b' = [1, 2, 3])"
proof -
  let ?b = "\<lparr>buf = replicate 10 0, readerIndex = 8, writerIndex = 8\<rparr>"
  have "buffer_ok ?b" "length (buf ?b) + extrabuf_size \<le> vec_max"
    by (simp_all add: buffer_ok_def vec_max_def extrabuf_size_def)
  from readFd_delivers[OF this, of "\<lambda>iov. Inr (take (sum_list iov) [1, 2, 3])"] show ?thesis
    by (auto simp: readFd_iov_def writableBytes_def vec_size_def extrabuf_size_def readable_def
        peek_def beginWrite_def elim!: yields_mono)
qed

text \<open>C28. \<^verbatim>\<open>findCRLF\<close> never faults on a well-formed buffer and finds the first CRLF of the
  readable bytes: \<open>None\<close> when there is none, otherwise a pointer to it with both characters
  before the write position.\<close>

theorem findCRLF_correct:
  assumes "buffer_ok b"
  shows "yields (findCRLF b) (\<lambda>r. case r of
      None \<Rightarrow> \<forall>i. take 2 (drop i (readable b)) \<noteq> kCRLF
    | Some p \<Rightarrow> peek b \<le> p \<and> p + 2 \<le> beginWrite b
        \<and> take 2 (drop (p - peek b) (readable b)) = kCRLF
        \<and> (\<forall>i < p - peek b. take 2 (drop i (readable b)) \<noteq> kCRLF))"
proof -
  let ?xs = "readable b" and ?k = "search_pos kCRLF (readable b)"
  have len: "length kCRLF = 2" by (simp add: kCRLF_def)
  have bw: "beginWrite b = peek b + length ?xs"
    using buffer_okD[OF assms]
    by (simp add: peek_def beginWrite_def length_readable[OF assms] unat_readableBytes[OF assms])
  have before: "take 2 (drop i ?xs) \<noteq> kCRLF" if "i < ?k" for i
    using search_pos_before[OF that] len by simp
  show ?thesis
  proof (cases "?k = length ?xs")
    case True
    have "take 2 (drop i ?xs) \<noteq> kCRLF" for i
      using before[of i] True by (cases "i < length ?xs") (auto simp: kCRLF_def)
    with True show ?thesis by (simp add: findCRLF_eq[OF assms])
  next
    case False
    then have at: "take 2 (drop ?k ?xs) = kCRLF"
      using search_pos_at[of kCRLF ?xs] search_pos_le[of kCRLF ?xs] len by simp
    then have "length (take 2 (drop ?k ?xs)) = 2" by (simp add: kCRLF_def)
    then have "?k + 2 \<le> length ?xs" by simp
    with False at before bw show ?thesis by (simp add: findCRLF_eq[OF assms])
  qed
qed

theorem findCRLF_correct_witness:
  "buffer_ok \<lparr>buf = replicate 8 0 @ [97, 13, 10, 98], readerIndex = 8, writerIndex = 12\<rparr> \<and>
   yields (findCRLF \<lparr>buf = replicate 8 0 @ [97, 13, 10, 98], readerIndex = 8, writerIndex = 12\<rparr>)
     (\<lambda>r. r = Some 9)"
proof -
  let ?b = "\<lparr>buf = replicate 8 0 @ [97, 13, 10, 98], readerIndex = 8, writerIndex = 12\<rparr>"
  have ok: "buffer_ok ?b" by (simp add: buffer_ok_def vec_max_def)
  have rd: "readable ?b = [97, 13, 10, 98]"
    by (simp add: readable_def peek_def beginWrite_def window_def)
  have "findCRLF ?b = Inr (Some 9)"
    unfolding findCRLF_eq[OF ok] rd by (simp add: kCRLF_def peek_def)
  with findCRLF_correct[OF ok] ok show ?thesis by simp
qed

text \<open>\<^verbatim>\<open>findEOL(start)\<close> searches \<^verbatim>\<open>readableBytes()\<close> characters from \<open>start\<close> instead of the
  characters up to the write position. On a non-empty buffer, called at the write position
  (which its assertions allow), it reads outside the vector when the vector is full, and
  otherwise reports a newline that is not part of the readable data.\<close>

theorem findEOL_from_past_end:
  assumes ok: "buffer_ok b" and ne: "readable b \<noteq> []"
  shows "(beginWrite b = length (buf b) \<longrightarrow> findEOL_from (beginWrite b) b = Inl OutOfBounds)
    \<and> (beginWrite b < length (buf b) \<and> buf b ! beginWrite b = 10 \<longrightarrow>
        findEOL_from (beginWrite b) b = Inr (Some (beginWrite b)))"
proof -
  obtain n where n: "unat (readableBytes b) = Suc n"
    using ne length_readable[OF ok] by (cases "unat (readableBytes b)") auto
  have "peek b \<le> beginWrite b" using buffer_okD[OF ok] by (simp add: peek_def beginWrite_def)
  then show ?thesis by (simp add: findEOL_from_def n)
qed

theorem findEOL_from_past_end_witness:
  "findEOL_from 12 \<lparr>buf = replicate 8 0 @ [97, 13, 10, 98], readerIndex = 8, writerIndex = 12\<rparr>
     = Inl OutOfBounds
   \<and> findEOL_from 9 \<lparr>buf = replicate 8 0 @ [97, 10], readerIndex = 8, writerIndex = 9\<rparr>
     = Inr (Some 9)"
  using findEOL_from_past_end[of "\<lparr>buf = replicate 8 0 @ [97, 13, 10, 98], readerIndex = 8,
      writerIndex = 12\<rparr>"]
    findEOL_from_past_end[of "\<lparr>buf = replicate 8 0 @ [97, 10], readerIndex = 8, writerIndex = 9\<rparr>"]
  by (simp add: buffer_ok_def vec_max_def readable_def peek_def beginWrite_def window_def nth_append)

text \<open>C29. The size arithmetic of \<^verbatim>\<open>ensureWritableBytes\<close> wraps: for a length of 2^64 - 9 the
  resize target wraps around, the vector is cut short below the write position, and the
  closing assertion still passes. Every other property of the buffer therefore carries a
  bound on the bytes it is asked to hold.\<close>

theorem ensureWritable_overflow:
  assumes ok: "buffer_ok b" and w: "8 < unat (writerIndex b)"
  shows "\<exists>b'. ensureWritableBytes (- 9) b = Inr b' \<and> \<not> buffer_ok b'
    \<and> length (buf b') = unat (writerIndex b) - 9"
proof -
  note D = buffer_okD[OF ok]
  let ?w = "writerIndex b"
  let ?v = "take (unat ?w - 9) (buf b)"
  have "unat (writableBytes b) < unat (- 9 :: size_t)"
    using D by (simp add: unat_writableBytes[OF ok] vec_max_def)
  then have c1: "writableBytes b < - 9" by (simp only: word_less_nat_alt)
  have "unat (writableBytes b) + unat (prependableBytes b) \<le> vec_max"
    using D by (simp add: unat_writableBytes[OF ok] prependableBytes_def)
  then have "unat (writableBytes b + prependableBytes b) < unat (- 9 + kCheapPrepend)"
    by (simp add: unat_add_vec_max kCheapPrepend_def vec_max_def unsigned_minus_1_eq_mask mask_eq_exp_minus_1)
  then have c2: "writableBytes b + prependableBytes b < - 9 + kCheapPrepend"
    by (simp only: word_less_nat_alt)
  have w9: "unat (?w + - 9) = unat ?w - 9"
    using w by (simp add: unat_sub word_le_nat_alt)
  have "vec_resize (?w + - 9) (buf b) = Inr ?v"
    unfolding vec_resize_def w9 using D by simp
  then have ms: "makeSpace (- 9) b = Inr (b\<lparr>buf := ?v\<rparr>)"
    using c2 by (simp add: makeSpace_def)
  have "of_nat (unat ?w - 9) = (of_nat (unat (?w + - 9)) :: size_t)" by (simp only: w9)
  then have "of_nat (unat ?w - 9) = ?w - 9" by simp
  moreover have lv: "length ?v = unat ?w - 9" using D by simp
  ultimately have "writableBytes (b\<lparr>buf := ?v\<rparr>) = - 9"
    by (simp add: writableBytes_def vec_size_def del: length_take)
  then have "ensureWritableBytes (- 9) b = Inr (b\<lparr>buf := ?v\<rparr>)"
    using c1 ms by (simp add: ensureWritableBytes_def)
  moreover have "\<not> buffer_ok (b\<lparr>buf := ?v\<rparr>)" using w D by (simp add: buffer_ok_def)
  ultimately show ?thesis using lv by auto
qed

theorem ensureWritable_overflow_witness:
  "\<exists>b'. ensureWritableBytes (- 9) \<lparr>buf = replicate 1032 0, readerIndex = 8, writerIndex = 9\<rparr> = Inr b'
    \<and> \<not> buffer_ok b' \<and> length (buf b') = 0"
  using ensureWritable_overflow[of "\<lparr>buf = replicate 1032 0, readerIndex = 8, writerIndex = 9\<rparr>"]
  by (simp add: buffer_ok_def vec_max_def)

end
