(* ===== verification/Socket.thy ===== *)
theory Socket
  imports EventLoop Buffer
begin

unbundle bit_operations_syntax

text \<open>
  The connections of \<^verbatim>\<open>netlib/Socket.hpp\<close> and \<^verbatim>\<open>netlib/Socket.cpp\<close>. Sockets live in a store of
  objects with a reference count, which stands for \<^verbatim>\<open>std::shared_ptr\<close>: the object and the
  channel it owns are destroyed when the count drops to zero. The user's callbacks have an
  abstract type \<open>'k\<close> and are run by a function \<open>call\<close> that the client gives; the callbacks of a
  channel are the three handlers of a socket or some other function (\<open>'x\<close>).
\<close>

section \<open>State\<close>

datatype 'x chan_cb =
    Socket_handleRead ptr
  | Socket_handleWrite ptr
  | Socket_handleClose ptr
  | Other 'x

text \<open>A pending functor of a socket: \<^verbatim>\<open>std::bind(writeCallback_, shared_from_this())\<close>. It owns
  a reference.\<close>

datatype 'k bound = Bound 'k ptr

record 'k socket =
  inputBuffer :: buffer
  outputBuffer :: buffer
  messageCallback :: "'k option"
  sockCloseCallback :: "'k option"
  sockWriteCallback :: "'k option"
  sock_addr :: "sockaddr_in option"
  sock_fd :: fd
  sock_chan :: ptr
  refs :: nat

record ('k, 'x) sock_state = "('x chan_cb, 'k bound) loop_state" +
  socks :: "ptr \<rightharpoonup> 'k socket"
  nextptr :: ptr

section \<open>Shared pointers\<close>

definition sock :: "ptr \<Rightarrow> ('k, 'x, 'a) sock_state_scheme \<Rightarrow> 'k socket result" where
  "sock i s = (case socks s i of None \<Rightarrow> Inl UseAfterFree | Some k \<Rightarrow> Inr k)"

definition set_sock ::
    "ptr \<Rightarrow> ('k socket \<Rightarrow> 'k socket) \<Rightarrow> ('k, 'x, 'a) sock_state_scheme \<Rightarrow>
     ('k, 'x, 'a) sock_state_scheme result" where
  "set_sock i f s = rbind (sock i s) (\<lambda>k. Inr (s\<lparr>socks := (socks s)(i \<mapsto> f k)\<rparr>))"

definition acquire ::
    "ptr \<Rightarrow> ('k, 'x, 'a) sock_state_scheme \<Rightarrow> ('k, 'x, 'a) sock_state_scheme result" where
  "acquire i s = set_sock i (\<lambda>k. k\<lparr>refs := Suc (refs k)\<rparr>) s"

definition release ::
    "ptr \<Rightarrow> ('k, 'x, 'a) sock_state_scheme \<Rightarrow> ('k, 'x, 'a) sock_state_scheme result" where
  "release i s =
     rbind (sock i s) (\<lambda>k.
       if 1 < refs k then Inr (s\<lparr>socks := (socks s)(i \<mapsto> k\<lparr>refs := refs k - 1\<rparr>)\<rparr>)
       else Inr (s\<lparr>socks := (socks s)(i := None), chans := (chans s)(sock_chan k := None)\<rparr>))"

text \<open>\<^verbatim>\<open>cb(shared_from_this())\<close>: the call of a possibly empty function with a temporary shared
  pointer.\<close>

definition call_with_self ::
    "('k \<Rightarrow> ptr \<Rightarrow> ('k, 'x, 'a) sock_state_scheme \<Rightarrow> ('k, 'x, 'a) sock_state_scheme result) \<Rightarrow>
     'k option \<Rightarrow> ptr \<Rightarrow> ('k, 'x, 'a) sock_state_scheme \<Rightarrow>
     ('k, 'x, 'a) sock_state_scheme result" where
  "call_with_self call cb i s =
     (case cb of
        None \<Rightarrow> Inl BadFunctionCall
      | Some f \<Rightarrow> rbind (acquire i s) (\<lambda>s1. rbind (call f i s1) (release i)))"

section \<open>Operations\<close>

definition setMessageCallback ::
    "ptr \<Rightarrow> 'k option \<Rightarrow> ('k, 'x, 'a) sock_state_scheme \<Rightarrow> ('k, 'x, 'a) sock_state_scheme result" where
  "setMessageCallback i cb s = set_sock i (\<lambda>k. k\<lparr>messageCallback := cb\<rparr>) s"

definition setWriteCompleteCallback ::
    "ptr \<Rightarrow> 'k option \<Rightarrow> ('k, 'x, 'a) sock_state_scheme \<Rightarrow> ('k, 'x, 'a) sock_state_scheme result" where
  "setWriteCompleteCallback i cb s = set_sock i (\<lambda>k. k\<lparr>sockWriteCallback := cb\<rparr>) s"

definition setSockCloseCallback ::
    "ptr \<Rightarrow> 'k option \<Rightarrow> ('k, 'x, 'a) sock_state_scheme \<Rightarrow> ('k, 'x, 'a) sock_state_scheme result" where
  "setSockCloseCallback i cb s = set_sock i (\<lambda>k. k\<lparr>sockCloseCallback := cb\<rparr>) s"

definition setAddr ::
    "ptr \<Rightarrow> sockaddr_in option \<Rightarrow> ('k, 'x, 'a) sock_state_scheme \<Rightarrow>
     ('k, 'x, 'a) sock_state_scheme result" where
  "setAddr i a s = set_sock i (\<lambda>k. k\<lparr>sock_addr := a\<rparr>) s"

definition getFD :: "ptr \<Rightarrow> ('k, 'x, 'a) sock_state_scheme \<Rightarrow> fd result" where
  "getFD i s = rbind (sock i s) (\<lambda>k. Inr (sock_fd k))"

definition getChan :: "ptr \<Rightarrow> ('k, 'x, 'a) sock_state_scheme \<Rightarrow> ptr result" where
  "getChan i s = rbind (sock i s) (\<lambda>k. Inr (sock_chan k))"

definition setChanReadCallback ::
    "ptr \<Rightarrow> 'x chan_cb \<Rightarrow> ('k, 'x, 'a) sock_state_scheme \<Rightarrow> ('k, 'x, 'a) sock_state_scheme result" where
  "setChanReadCallback i cb s = rbind (getChan i s) (\<lambda>p. setReadCallback p cb s)"

definition setChanCloseCallback ::
    "ptr \<Rightarrow> 'x chan_cb \<Rightarrow> ('k, 'x, 'a) sock_state_scheme \<Rightarrow> ('k, 'x, 'a) sock_state_scheme result" where
  "setChanCloseCallback i cb s = rbind (getChan i s) (\<lambda>p. setCloseCallback p cb s)"

text \<open>\<^verbatim>\<open>handleError\<close> only logs.\<close>

definition handleError ::
    "os \<Rightarrow> ptr \<Rightarrow> ('k, 'x, 'a) sock_state_scheme \<Rightarrow> ('k, 'x, 'a) sock_state_scheme result" where
  "handleError os i s = rbind (sock i s) (\<lambda>k. Inr (snd (sys_getsockopt os (sock_fd k) s)))"

definition handleClose ::
    "os \<Rightarrow> ('k \<Rightarrow> ptr \<Rightarrow> ('k, 'x, 'a) sock_state_scheme \<Rightarrow> ('k, 'x, 'a) sock_state_scheme result) \<Rightarrow>
     ptr \<Rightarrow> ('k, 'x, 'a) sock_state_scheme \<Rightarrow> ('k, 'x, 'a) sock_state_scheme result" where
  "handleClose os call i s =
     rbind (sock i s) (\<lambda>k.
     rbind (Channel_remove os (sock_chan k) (sys_close os (sock_fd k) s)) (\<lambda>s1.
     rbind (sock i s1) (\<lambda>k1. call_with_self call (sockCloseCallback k1) i s1)))"

definition handleRead ::
    "os \<Rightarrow> ('k \<Rightarrow> ptr \<Rightarrow> ('k, 'x, 'a) sock_state_scheme \<Rightarrow> ('k, 'x, 'a) sock_state_scheme result) \<Rightarrow>
     ptr \<Rightarrow> ('k, 'x, 'a) sock_state_scheme \<Rightarrow> ('k, 'x, 'a) sock_state_scheme result" where
  "handleRead os call i s =
     rbind (sock i s) (\<lambda>k.
     rbind (chan (sock_chan k) s) (\<lambda>c.
     let (r, s1) = sys_readv os (ch_fd c) (readFd_iov (inputBuffer k)) s in
     rbind (readFd (\<lambda>_. r) (inputBuffer k)) (\<lambda>(n, saved, b).
     rbind (set_sock i (\<lambda>k. k\<lparr>inputBuffer := b\<rparr>) s1) (\<lambda>s2.
       if 0 < n then call_with_self call (messageCallback k) i s2
       else if n = 0 then handleClose os call i s2
       else handleError os i (s2\<lparr>errno := (case saved of None \<Rightarrow> 0 | Some e \<Rightarrow> e)\<rparr>)))))"

definition handleWrite ::
    "os \<Rightarrow> ptr \<Rightarrow> ('k, 'x, 'a) sock_state_scheme \<Rightarrow> ('k, 'x, 'a) sock_state_scheme result" where
  "handleWrite os i s =
     rbind (sock i s) (\<lambda>k.
     rbind (chan (sock_chan k) s) (\<lambda>c.
     let ob = outputBuffer k in
     rbind (load (buf ob) (peek ob) (unat (readableBytes ob))) (\<lambda>d.
     case sys_write os (ch_fd c) d s of
       (Inl e, s1) \<Rightarrow> Inr s1
     | (Inr n, s1) \<Rightarrow>
         if 0 < n
         then rbind (retrieve (of_nat n) ob) (\<lambda>b.
              rbind (set_sock i (\<lambda>k. k\<lparr>outputBuffer := b\<rparr>) s1) (\<lambda>s2.
                if readableBytes b = 0
                then rbind (disableWriting os (sock_chan k) s2) (\<lambda>s3.
                       case sockWriteCallback k of
                         None \<Rightarrow> Inr s3
                       | Some w \<Rightarrow> rbind (acquire i s3) (\<lambda>s4. Inr (runInLoop (Bound w i) s4)))
                else Inr s2))
         else Inr s1)))"

text \<open>
  \<^verbatim>\<open>Send\<close>, with the data and its length as one list. The result is the return value and the
  state; when \<^verbatim>\<open>write\<close> returns 0 for a non-empty block, \<^verbatim>\<open>errno\<close> is whatever it was before.
\<close>

definition Send ::
    "os \<Rightarrow> ptr \<Rightarrow> byte list \<Rightarrow> ('k, 'x, 'a) sock_state_scheme \<Rightarrow>
     (int \<times> ('k, 'x, 'a) sock_state_scheme) result" where
  "Send os i data s =
     rbind (sock i s) (\<lambda>k.
     rbind (chan (sock_chan k) s) (\<lambda>c.
     let (r, s1) = sys_write os (ch_fd c) data s;
         n = (case r of Inl _ \<Rightarrow> - 1 | Inr m \<Rightarrow> int m) in
     if n = int (length data) then Inr (0, s1)
     else if 0 < n
     then rbind (append_data (drop (nat n) data) (of_nat (length data - nat n)) (outputBuffer k)) (\<lambda>b.
          rbind (set_sock i (\<lambda>k. k\<lparr>outputBuffer := b\<rparr>) s1) (\<lambda>s2. Inr (0, s2)))
     else rbind (if errno s1 = EAGAIN then enableWriting os (sock_chan k) s1 else Inr s1) (\<lambda>s2.
          Inr (errno s2, s2))))"

text \<open>The constructor. Callbacks that hold \<^verbatim>\<open>this\<close> do not own a reference; the reference is that
  of the shared pointer the object is created for.\<close>

definition set_flag ::
    "os \<Rightarrow> fd \<Rightarrow> int \<Rightarrow> int \<Rightarrow> int32_t \<Rightarrow> 'a sys_scheme \<Rightarrow> 'a sys_scheme" where
  "set_flag os f get_cmd set_cmd flag s =
     (let (flags, s1) = sys_fcntl_get os f get_cmd s in sys_fcntl_set os f set_cmd (flags OR flag) s1)"

definition new_Socket ::
    "os \<Rightarrow> fd \<Rightarrow> ('k, 'x, 'a) sock_state_scheme \<Rightarrow> (ptr \<times> ('k, 'x, 'a) sock_state_scheme) result" where
  "new_Socket os f s =
     rbind new_Buffer (\<lambda>ib. rbind new_Buffer (\<lambda>ob.
     let i = nextptr s; p = Suc i;
         s1 = s\<lparr>nextptr := Suc p, chans := (chans s)(p \<mapsto> new_Channel f),
                socks := (socks s)(i \<mapsto> \<lparr>inputBuffer = ib, outputBuffer = ob,
                  messageCallback = None, sockCloseCallback = None, sockWriteCallback = None,
                  sock_addr = None, sock_fd = f, sock_chan = p, refs = 1\<rparr>)\<rparr>;
         s2 = set_flag os f F_GETFL F_SETFL O_NONBLOCK s1;
         s3 = set_flag os f F_GETFD F_SETFD FD_CLOEXEC s2
     in rbind (enableReading os p s3) (\<lambda>s4.
        rbind (setReadCallback p (Socket_handleRead i) s4) (\<lambda>s5.
        rbind (setWriteCallback p (Socket_handleWrite i) s5) (\<lambda>s6.
        rbind (setCloseCallback p (Socket_handleClose i) s6) (\<lambda>s7. Inr (i, s7)))))))"

text \<open>The bytes the kernel took for a descriptor, and the bytes it delivered.\<close>

fun sent_by :: "fd \<Rightarrow> sys_event \<Rightarrow> byte list" where
  "sent_by f (EvWrite g d (Inr n)) = (if g = f then take n d else [])"
| "sent_by f _ = []"

definition sent :: "fd \<Rightarrow> sys_event list \<Rightarrow> byte list" where
  "sent f tr = concat (map (sent_by f) tr)"

fun received_by :: "fd \<Rightarrow> sys_event \<Rightarrow> byte list" where
  "received_by f (EvReadv g iov (Inr d)) = (if g = f then d else [])"
| "received_by f _ = []"

definition received :: "fd \<Rightarrow> sys_event list \<Rightarrow> byte list" where
  "received f tr = concat (map (received_by f) tr)"

section \<open>Invariant\<close>

text \<open>
  Every socket owns a channel with its descriptor, its buffers are well-formed, it is
  referenced, and sockets do not share channels; objects are allocated below the next pointer.
\<close>

definition socket_ok :: "('k, 'x, 'a) sock_state_scheme \<Rightarrow> 'k socket \<Rightarrow> bool" where
  "socket_ok s k \<longleftrightarrow> 0 < refs k \<and> buffer_ok (inputBuffer k) \<and> buffer_ok (outputBuffer k)
     \<and> (\<exists>c. chans s (sock_chan k) = Some c \<and> ch_fd c = sock_fd k)"

definition sockets_ok :: "('k, 'x, 'a) sock_state_scheme \<Rightarrow> bool" where
  "sockets_ok s \<longleftrightarrow> poller_ok s
     \<and> (\<forall>i k. socks s i = Some k \<longrightarrow> i < nextptr s \<and> socket_ok s k)
     \<and> (\<forall>i j k l. socks s i = Some k \<longrightarrow> socks s j = Some l \<longrightarrow> sock_chan k = sock_chan l \<longrightarrow> i = j)
     \<and> (\<forall>p c. chans s p = Some c \<longrightarrow> p < nextptr s)"

text \<open>What the constructor makes: the buffer, the socket and the channel.\<close>

definition fresh_buffer :: buffer where
  "fresh_buffer = \<lparr>buf = replicate 1032 0, readerIndex = 8, writerIndex = 8\<rparr>"

definition conn_socket :: "fd \<Rightarrow> ptr \<Rightarrow> 'k socket" where
  "conn_socket f p =
     \<lparr>inputBuffer = fresh_buffer, outputBuffer = fresh_buffer, messageCallback = None,
      sockCloseCallback = None, sockWriteCallback = None, sock_addr = None, sock_fd = f,
      sock_chan = p, refs = 1\<rparr>"

definition conn_channel :: "fd \<Rightarrow> ptr \<Rightarrow> 'x chan_cb channel" where
  "conn_channel f i =
     \<lparr>ch_fd = f, ch_events = kReadEvent, ch_revents = 0, ch_index = kAdded, eventHandling = False,
      readCallback = Some (Socket_handleRead i), writeCallback = Some (Socket_handleWrite i),
      closeCallback = Some (Socket_handleClose i), errorCallback = None\<rparr>"

text \<open>A loop with one connection, registered for reading, with the given output pending.\<close>

definition sample_conn :: "byte list \<Rightarrow> (int, int) sock_state" where
  "sample_conn q =
     \<lparr>trace = [EvEpollCtl 3 EPOLL_CTL_ADD 5 3 7 None], errno = 0,
      chans = [7 \<mapsto> conn_channel 5 6], epollfd = 3, pevents = replicate 16 (0, 0),
      channels = [5 \<mapsto> 7], looping = True, quit_flag = False, pollReturnTime = 0,
      activeChannels = [], pendingFunctors = [],
      socks = [6 \<mapsto> (conn_socket 5 7)\<lparr>outputBuffer := \<lparr>buf = replicate 8 0 @ q,
        readerIndex = 8, writerIndex = of_nat (8 + length q)\<rparr>\<rparr>], nextptr = 8\<rparr>"

text \<open>A kernel whose socket buffers are full.\<close>

definition busy_os :: "fd \<Rightarrow> events \<Rightarrow> os" where
  "busy_os f ev = (sample_os f ev)\<lparr>os_write := \<lambda>tr g d. if d = [] then Inr 0 else Inl EAGAIN\<rparr>"

section \<open>Lemmas\<close>

lemma sock_Some [simp]: "socks s i = Some k \<Longrightarrow> sock i s = Inr k"
  by (simp add: sock_def)

lemma set_sock_Some [simp]:
  "socks s i = Some k \<Longrightarrow> set_sock i f s = Inr (s\<lparr>socks := (socks s)(i \<mapsto> f k)\<rparr>)"
  by (simp add: set_sock_def)

lemma sock_frame:
  "poller.more s' = poller.more s \<Longrightarrow> socks s' = socks s \<and> nextptr s' = nextptr s
    \<and> pendingFunctors s' = pendingFunctors s \<and> quit_flag s' = quit_flag s
    \<and> sock_state.more s' = sock_state.more s"
  by (cases s; cases s'; simp)

lemma record_call_frame [simp]:
  fixes s :: "('k, 'x, 'a) sock_state_scheme"
  shows "chans (record_call ev err s) = chans s" "channels (record_call ev err s) = channels s"
    "epollfd (record_call ev err s) = epollfd s" "pevents (record_call ev err s) = pevents s"
    "socks (record_call ev err s) = socks s" "nextptr (record_call ev err s) = nextptr s"
    "pendingFunctors (record_call ev err s) = pendingFunctors s"
    "quit_flag (record_call ev err s) = quit_flag s"
    "sock_state.more (record_call ev err s) = sock_state.more s"
  by (simp_all add: record_call_def)

lemma sent_append [simp]: "sent f (tr @ tr') = sent f tr @ sent f tr'"
  by (simp add: sent_def)

lemma sent_simps [simp]:
  "sent f [] = []"
  "sent f [EvWrite g d r] = (case r of Inl e \<Rightarrow> [] | Inr n \<Rightarrow> if g = f then take n d else [])"
  "sent f [EvEpollCtl ep ctl g m p er] = []"
  by (auto simp: sent_def split: sum.splits)

text \<open>A change of a channel's mask, whatever the kernel answers.\<close>

lemma change_total:
  fixes s :: "('k, 'x, 'a) sock_state_scheme"
  assumes c: "chans s p = Some c"
  shows "yields (change_events os f p s) (\<lambda>s'.
    chans s' = (chans s)(p \<mapsto> c\<lparr>ch_events := f (ch_events c),
      ch_index := index_after (c\<lparr>ch_events := f (ch_events c)\<rparr>)\<rparr>)
    \<and> channels s' = (if ch_index c = kNew then (channels s)(ch_fd c \<mapsto> p) else channels s)
    \<and> socks s' = socks s \<and> pendingFunctors s' = pendingFunctors s \<and> nextptr s' = nextptr s
    \<and> epollfd s' = epollfd s \<and> pevents s' = pevents s \<and> poller.more s' = poller.more s
    \<and> quietly (trace s) (trace s') \<and> (\<forall>g. sent g (trace s') = sent g (trace s)))"
proof -
  let ?s = "s\<lparr>chans := (chans s)(p \<mapsto> c\<lparr>ch_events := f (ch_events c)\<rparr>)\<rparr>"
  have c': "chans ?s p = Some (c\<lparr>ch_events := f (ch_events c)\<rparr>)" by simp
  have "change_events os f p s = updateChannel os p ?s" using c by (simp add: change_events_def)
  then show ?thesis
    using updateChannel_total[OF c', of os] by (auto elim!: yields_mono dest: sock_frame)
qed

lemma writing_calls:
  "enableWriting os p = change_events os (op_mask EnableWriting) p"
  "disableWriting os p = change_events os (op_mask DisableWriting) p"
  "enableReading os p = change_events os (op_mask EnableReading) p"
  using apply_op_eq[of os EnableWriting p] apply_op_eq[of os DisableWriting p]
    apply_op_eq[of os EnableReading p] by (simp_all add: fun_eq_iff)

lemma registered_write [simp]:
  fixes s :: "('k, 'x, 'a) sock_state_scheme"
  shows "registered (record_call (EvWrite f d r) err s) = registered s"
  by (simp add: registered_def)

text \<open>The three ways a \<^verbatim>\<open>Send\<close> can go.\<close>

lemma Send_full:
  fixes s :: "('k, 'x, 'a) sock_state_scheme"
  assumes "socks s i = Some k" and "chans s (sock_chan k) = Some c"
    and "os_write os (trace s) (ch_fd c) data = Inr (length data)"
  shows "yields (Send os i data s) (\<lambda>(ret, s'). ret = 0 \<and> socks s' = socks s \<and> chans s' = chans s
    \<and> registered s' = registered s \<and> pendingFunctors s' = pendingFunctors s
    \<and> epollfd s' = epollfd s \<and> channels s' = channels s
    \<and> sent (ch_fd c) (trace s') = sent (ch_fd c) (trace s) @ data)"
  using assms by (simp add: Send_def sys_write_def Let_def)

lemma Send_partial:
  fixes s :: "('k, 'x, 'a) sock_state_scheme"
  assumes k: "socks s i = Some k" and c: "chans s (sock_chan k) = Some c"
    and w: "os_write os (trace s) (ch_fd c) data = Inr n" "0 < n" "n < length data"
    and ok: "buffer_ok (outputBuffer k)" and room: "room (length data) (outputBuffer k)"
  shows "yields (Send os i data s) (\<lambda>(ret, s'). ret = 0
    \<and> (\<exists>b. socks s' = (socks s)(i \<mapsto> k\<lparr>outputBuffer := b\<rparr>) \<and> buffer_ok b
         \<and> readable b = readable (outputBuffer k) @ drop n data)
    \<and> chans s' = chans s \<and> registered s' = registered s \<and> epollfd s' = epollfd s
    \<and> channels s' = channels s
    \<and> pendingFunctors s' = pendingFunctors s
    \<and> sent (ch_fd c) (trace s') = sent (ch_fd c) (trace s) @ take n data)"
proof -
  have rm: "room (length (drop n data)) (outputBuffer k)" using room by (simp add: room_def)
  have "length data \<le> vec_max" using room by (simp add: room_def)
  then have len: "unat (of_nat (length data - n) :: size_t) = length (drop n data)" by simp
  from append_data_spec[OF ok len rm] obtain b where
    b: "append_data (drop n data) (of_nat (length data - n)) (outputBuffer k) = Inr b"
      "buffer_ok b" "readable b = readable (outputBuffer k) @ drop n data" by (auto elim: yieldsE)
  show ?thesis using k c b w by (auto simp: Send_def sys_write_def Let_def registered_def)
qed

lemma Send_error:
  fixes s :: "('k, 'x, 'a) sock_state_scheme"
  assumes k: "socks s i = Some k" and c: "chans s (sock_chan k) = Some c"
    and w: "os_write os (trace s) (ch_fd c) data = Inl e
      \<or> os_write os (trace s) (ch_fd c) data = Inr 0 \<and> data \<noteq> [] \<and> errno s = e"
  shows "yields (Send os i data s) (\<lambda>(ret, s'). (e \<noteq> EAGAIN \<longrightarrow> ret = e) \<and> socks s' = socks s
    \<and> wanted s' (sock_chan k) = Some (if e = EAGAIN then ch_events c OR kWriteEvent else ch_events c)
    \<and> map_option ch_fd (chans s' (sock_chan k)) = Some (ch_fd c)
    \<and> pendingFunctors s' = pendingFunctors s
    \<and> sent (ch_fd c) (trace s') = sent (ch_fd c) (trace s))"
proof -
  let ?r = "os_write os (trace s) (ch_fd c) data"
  let ?s1 = "record_call (EvWrite (ch_fd c) data ?r) (err_of ?r) s"
  have e: "errno ?s1 = e" and snt: "sent (ch_fd c) (trace ?s1) = sent (ch_fd c) (trace s)"
    using w by auto
  have eq: "Send os i data s =
      rbind (if e = EAGAIN then enableWriting os (sock_chan k) ?s1 else Inr ?s1) (\<lambda>s2. Inr (errno s2, s2))"
    using w k c by (auto simp: Send_def sys_write_def Let_def)
  have c1: "chans ?s1 (sock_chan k) = Some c" using c by simp
  show ?thesis
  proof (cases "e = EAGAIN")
    case False
    then show ?thesis unfolding eq using c1 e snt by (simp add: wanted_def)
  next
    case True
    from change_total[OF c1, of os "op_mask EnableWriting"] True snt show ?thesis
      unfolding eq by (auto simp: writing_calls yields_rbind wanted_def elim!: yields_mono)
  qed
qed

lemma handleWrite_spec:
  fixes s :: "('k, 'x, 'a) sock_state_scheme"
  assumes k: "socks s i = Some k" and c: "chans s (sock_chan k) = Some c"
    and ok: "buffer_ok (outputBuffer k)"
    and w: "os_write os (trace s) (ch_fd c) (readable (outputBuffer k)) = Inr n"
      "0 < n" "n \<le> length (readable (outputBuffer k))"
  shows "yields (handleWrite os i s) (\<lambda>s'.
    (\<exists>b r. socks s' = (socks s)(i \<mapsto> k\<lparr>outputBuffer := b, refs := r\<rparr>) \<and> buffer_ok b
       \<and> readable b = drop n (readable (outputBuffer k)))
    \<and> sent (ch_fd c) (trace s') = sent (ch_fd c) (trace s) @ take n (readable (outputBuffer k))
    \<and> wanted s' (sock_chan k) = Some (if n = length (readable (outputBuffer k))
         then ch_events c AND NOT kWriteEvent else ch_events c)
    \<and> pendingFunctors s' = pendingFunctors s
        @ (if n = length (readable (outputBuffer k))
           then map (\<lambda>w. Bound w i) (opt_list (sockWriteCallback k)) else []))"
proof -
  let ?ob = "outputBuffer k" and ?d = "readable (outputBuffer k)"
  let ?s1 = "record_call (EvWrite (ch_fd c) ?d (Inr n)) None s"
  have s1: "sys_write os (ch_fd c) ?d s = (Inr n, ?s1)" using w by (simp add: sys_write_def Let_def)
  have ld: "load (buf ?ob) (peek ?ob) (unat (readableBytes ?ob)) = Inr ?d"
    using load_readable[OF ok, of "unat (readableBytes ?ob)"] by (simp add: length_readable[OF ok])
  have "length ?d \<le> vec_max"
    using buffer_okD[OF ok] by (simp add: length_readable[OF ok] unat_readableBytes[OF ok])
  then have un: "unat (of_nat n :: size_t) = n" using w(3) by simp
  from retrieve_spec[OF ok, of "of_nat n"] w(3) un obtain b where
    b: "retrieve (of_nat n) ?ob = Inr b" "buffer_ok b" "readable b = drop n ?d"
    by (auto elim: yieldsE)
  have z: "readableBytes b = 0 \<longleftrightarrow> n = length ?d"
    using b w(3) length_readable[OF b(2)] by (auto simp: unat_eq_zero[symmetric] simp del: unat_eq_zero)
  let ?s2 = "?s1\<lparr>socks := (socks s)(i \<mapsto> k\<lparr>outputBuffer := b\<rparr>)\<rparr>"
  have s2: "set_sock i (\<lambda>k. k\<lparr>outputBuffer := b\<rparr>) ?s1 = Inr ?s2" using k by simp
  show ?thesis
  proof (cases "n = length ?d")
    case False
    then show ?thesis using k c ld s1 w b s2 z
      by (auto simp: handleWrite_def wanted_def fun_eq_iff intro!: exI[of _ b] exI[of _ "refs k"])
  next
    case True
    have "chans ?s2 (sock_chan k) = Some c" using c by simp
    from change_total[OF this, of os "op_mask DisableWriting"] obtain s3 where
      s3: "disableWriting os (sock_chan k) ?s2 = Inr s3"
        "socks s3 = socks ?s2" "pendingFunctors s3 = pendingFunctors s"
        "wanted s3 (sock_chan k) = Some (ch_events c AND NOT kWriteEvent)"
        "\<forall>g. sent g (trace s3) = sent g (trace ?s1)"
      by (auto simp: writing_calls wanted_def elim!: yieldsE)
    show ?thesis
    proof (cases "sockWriteCallback k")
      case None
      then show ?thesis using k c ld s1 w b s2 z True s3
        by (auto simp: handleWrite_def intro!: exI[of _ b] exI[of _ "refs k"])
    next
      case (Some cb)
      then show ?thesis using k c ld s1 w b s2 z True s3
        by (auto simp: handleWrite_def acquire_def runInLoop_def wanted_def
            intro!: exI[of _ b] exI[of _ "Suc (refs k)"])
    qed
  qed
qed

lemma received_append [simp]: "received f (tr @ tr') = received f tr @ received f tr'"
  by (simp add: received_def)

lemma received_readv [simp]:
  "received f [EvReadv g iov r] = (case r of Inl e \<Rightarrow> [] | Inr d \<Rightarrow> if g = f then d else [])"
  by (auto simp: received_def split: sum.splits)

lemma registered_readv [simp]:
  fixes s :: "('k, 'x, 'a) sock_state_scheme"
  shows "registered (record_call (EvReadv f iov r) err s) = registered s"
  by (simp add: registered_def)

lemma poller_more_record_call [simp]:
  fixes s :: "('k, 'x, 'a) sock_state_scheme"
  shows "poller.more (record_call ev err s) = poller.more s"
  by (simp add: record_call_def)

text \<open>\<^verbatim>\<open>handleClose\<close> up to the callback: closing the descriptor drops its entry in the kernel,
  so that it does not matter whether the \<^verbatim>\<open>EPOLL_CTL_DEL\<close> that follows fails.\<close>

lemma handleClose_effect:
  fixes s :: "('k, 'x, 'a) sock_state_scheme"
  assumes k: "socks s i = Some k" and c: "chans s (sock_chan k) = Some c" "ch_fd c = sock_fd k"
    and ok: "poller_ok s" and own: "ch_index c = kNew \<longrightarrow> channels s (ch_fd c) = None"
  obtains s' where "handleClose os call i s = call_with_self call (sockCloseCallback k) i s'"
    and "poller_ok s'" and "poller.more s' = poller.more s"
    and "chans s' = (chans s)(sock_chan k \<mapsto> c\<lparr>ch_index := kNew\<rparr>)"
    and "channels s' = (channels s)(sock_fd k := None)"
    and "registered s' = (registered s)(sock_fd k := None)"
proof -
  let ?r = "os_close os (trace s) (sock_fd k)"
  let ?s0 = "record_call (EvClose (sock_fd k) ?r) ?r s"
  have s0: "sys_close os (sock_fd k) s = ?s0" by (simp add: sys_close_def Let_def)
  have "chans ?s0 (sock_chan k) = Some c" using c by simp
  from removeChannel_total[OF this, of os] obtain s' r where s': "removeChannel os (sock_chan k) ?s0 = Inr s'"
      "chans s' = (chans s)(sock_chan k \<mapsto> c\<lparr>ch_index := kNew\<rparr>)"
      "channels s' = (channels s)(sock_fd k := None)" "epollfd s' = epollfd s"
      "poller.more s' = poller.more s"
      "trace s' = (trace s @ [EvClose (sock_fd k) ?r]) @ (if ch_index c = kAdded
        then [EvEpollCtl (epollfd s) EPOLL_CTL_DEL (ch_fd c) (ch_events c) (sock_chan k) r] else [])"
    using c(2) by (auto elim!: yieldsE cong: if_cong)
  have reg: "registered s' = (registered s)(sock_fd k := None)"
    unfolding registered_def s'(4,6) interest_append[of _ _ "if _ then _ else _"]
    by (cases r) (auto simp: c(2) fun_eq_iff)
  have "poller_ok s'"
    by (rule poller_ok_upd[OF ok c(1) own s'(2)]) (use s'(3) reg c(2) in auto)
  moreover have "handleClose os call i s = call_with_self call (sockCloseCallback k) i s'"
    using k s'(1) sock_frame[OF s'(5)]
    by (simp add: handleClose_def s0 Channel_remove_def loop_removeChannel_def)
  ultimately show ?thesis using that s' reg by blast
qed

lemma handleRead_exact:
  fixes s :: "('k, 'x, 'a) sock_state_scheme"
  assumes k: "socks s i = Some k" and c: "chans s (sock_chan k) = Some c"
    and ok: "buffer_ok (inputBuffer k)"
    and size: "length (buf (inputBuffer k)) + extrabuf_size \<le> vec_max"
    and r: "os_readv os (trace s) (ch_fd c) (readFd_iov (inputBuffer k)) = Inr d"
    and fits: "length d \<le> sum_list (readFd_iov (inputBuffer k))"
  defines "after b \<equiv> (record_call (EvReadv (ch_fd c) (readFd_iov (inputBuffer k)) (Inr d)) None s)
      \<lparr>socks := (socks s)(i \<mapsto> k\<lparr>inputBuffer := b\<rparr>)\<rparr>"
  obtains b where "handleRead os call i s = (if d = [] then handleClose os call i (after b)
      else call_with_self call (messageCallback k) i (after b))"
    and "buffer_ok b" and "readable b = readable (inputBuffer k) @ d"
    and "readFd (\<lambda>_. Inr d) (inputBuffer k) = Inr (int (length d), None, b)"
proof -
  let ?s1 = "record_call (EvReadv (ch_fd c) (readFd_iov (inputBuffer k)) (Inr d)) None s"
  have s1: "sys_readv os (ch_fd c) (readFd_iov (inputBuffer k)) s = (Inr d, ?s1)"
    using r by (simp add: sys_readv_def Let_def)
  obtain b where b: "readFd (\<lambda>_. Inr d) (inputBuffer k) = Inr (int (length d), None, b)"
      "buffer_ok b" "readable b = readable (inputBuffer k) @ d"
    using readFd_spec[where readv = "\<lambda>_. Inr d", OF ok refl readFd_room[OF ok size fits]]
    by (auto elim!: yieldsE)
  have "handleRead os call i s = (if d = [] then handleClose os call i (after b)
      else call_with_self call (messageCallback k) i (after b))"
    using k c s1 b(1) by (simp add: handleRead_def after_def)
  then show ?thesis by (rule that) (use b in simp_all)
qed

lemma handleRead_effect:
  fixes s :: "('k, 'x, 'a) sock_state_scheme"
  assumes k: "socks s i = Some k" and c: "chans s (sock_chan k) = Some c"
    and ok: "buffer_ok (inputBuffer k)"
    and size: "length (buf (inputBuffer k)) + extrabuf_size \<le> vec_max"
    and r: "os_readv os (trace s) (ch_fd c) (readFd_iov (inputBuffer k)) = Inr d"
    and fits: "length d \<le> sum_list (readFd_iov (inputBuffer k))"
  obtains s' b where "handleRead os call i s =
      (if d = [] then handleClose os call i s' else call_with_self call (messageCallback k) i s')"
    and "socks s' = (socks s)(i \<mapsto> k\<lparr>inputBuffer := b\<rparr>)" and "buffer_ok b"
    and "readable b = readable (inputBuffer k) @ d"
    and "received (ch_fd c) (trace s') = received (ch_fd c) (trace s) @ d"
    and "chans s' = chans s" and "channels s' = channels s" and "registered s' = registered s"
    and "epollfd s' = epollfd s" and "nextptr s' = nextptr s"
    and "pendingFunctors s' = pendingFunctors s" and "sock_state.more s' = sock_state.more s"
proof (rule handleRead_exact[OF assms, of call])
  fix b
  let ?s = "(record_call (EvReadv (ch_fd c) (readFd_iov (inputBuffer k)) (Inr d)) None s)
    \<lparr>socks := (socks s)(i \<mapsto> k\<lparr>inputBuffer := b\<rparr>)\<rparr>"
  assume h: "handleRead os call i s = (if d = [] then handleClose os call i ?s
      else call_with_self call (messageCallback k) i ?s)"
    and b: "buffer_ok b" "readable b = readable (inputBuffer k) @ d"
  show ?thesis by (rule that[OF h _ b]) (simp_all add: registered_def)
qed

lemma handleRead_error:
  fixes s :: "('k, 'x, 'a) sock_state_scheme"
  assumes k: "socks s i = Some k" and c: "chans s (sock_chan k) = Some c"
    and r: "os_readv os (trace s) (ch_fd c) (readFd_iov (inputBuffer k)) = Inl e"
  shows "yields (handleRead os call i s) (\<lambda>s'. socks s' = socks s \<and> chans s' = chans s
    \<and> channels s' = channels s \<and> registered s' = registered s
    \<and> received (ch_fd c) (trace s') = received (ch_fd c) (trace s))"
proof -
  have [simp]: "(socks s)(i \<mapsto> k) = socks s" using k by (simp add: fun_upd_idem)
  show ?thesis
    using k c r by (simp add: handleRead_def sys_readv_def Let_def readFd_def handleError_def
        sys_getsockopt_def registered_def record_call_def received_def interest_append)
qed

text \<open>A temporary shared pointer around a callback: nothing is destroyed as long as the callback
  leaves a reference, and the socket and its channel are destroyed when it does not.\<close>

lemma release_keeps:
  "socks s i = Some k \<Longrightarrow> 1 < refs k \<Longrightarrow>
   release i s = Inr (s\<lparr>socks := (socks s)(i \<mapsto> k\<lparr>refs := refs k - 1\<rparr>)\<rparr>)"
  by (simp add: release_def)

lemma release_destroys:
  "socks s i = Some k \<Longrightarrow> refs k \<le> 1 \<Longrightarrow>
   release i s = Inr (s\<lparr>socks := (socks s)(i := None), chans := (chans s)(sock_chan k := None)\<rparr>)"
  by (simp add: release_def)

lemma new_Buffer_fresh: "new_Buffer = Inr fresh_buffer" "buffer_ok fresh_buffer" "readable fresh_buffer = []"
  by (simp_all add: new_Buffer_eq fresh_buffer_def new_Buffer_ok kCheapPrepend_def kInitialSize_def
     buffer_ok_def vec_max_def readable_def peek_def beginWrite_def)

lemma poller_ok_new:
  assumes ok: "poller_ok s" and fresh: "chans s p = None" and c: "ch_index c = kNew"
  shows "poller_ok (s\<lparr>chans := (chans s)(p \<mapsto> c)\<rparr>)"
proof -
  note D = poller_okD[OF ok]
  have "channel_ok (s\<lparr>chans := (chans s)(p \<mapsto> c)\<rparr>) q d" if "((chans s)(p \<mapsto> c)) q = Some d" for q d
    using that D(1)[of q d] c by (cases "q = p") (auto simp: channel_ok_def registered_def)
  moreover have "\<exists>d. ((chans s)(p \<mapsto> c)) q = Some d \<and> ch_fd d = f \<and> ch_index d \<noteq> kNew"
    if "channels s f = Some q" for f q
    using D(2)[OF that] fresh by auto
  moreover have "\<exists>d. ((chans s)(p \<mapsto> c)) q = Some d \<and> ch_fd d = f \<and> ch_index d = kAdded"
    if "registered s f = Some (ev, q)" for f ev q
    using D(3)[OF that] fresh by auto
  ultimately show ?thesis unfolding poller_ok_def by (simp add: registered_def)
qed

lemma set_flag_frame:
  fixes s :: "('k, 'x, 'a) sock_state_scheme"
  shows "chans (set_flag os f g h b s) = chans s" "channels (set_flag os f g h b s) = channels s"
    "epollfd (set_flag os f g h b s) = epollfd s"
    "registered (set_flag os f g h b s) = registered s"
    "poller.more (set_flag os f g h b s) = poller.more s"
    "pevents (set_flag os f g h b s) = pevents s"
    "quietly (trace s) (trace (set_flag os f g h b s))"
  by (simp_all add: set_flag_def sys_fcntl_get_def sys_fcntl_set_def Let_def registered_def interest_append)

text \<open>The constructor, whatever the kernel answers; and with the registration it makes when the
  descriptor is open and new.\<close>

lemma new_Socket_decomp:
  fixes s :: "('k, 'x, 'a) sock_state_scheme"
  assumes fresh: "\<And>p. nextptr s \<le> p \<Longrightarrow> chans s p = None"
  defines "i \<equiv> nextptr s" and "p \<equiv> Suc (nextptr s)"
  obtains s3 where "new_Socket os f s = rbind (change_events os (op_mask EnableReading) p s3) (\<lambda>s4.
      rbind (set_chan p (\<lambda>c. c\<lparr>readCallback := Some (Socket_handleRead i),
        writeCallback := Some (Socket_handleWrite i), closeCallback := Some (Socket_handleClose i)\<rparr>) s4)
      (\<lambda>s5. Inr (i, s5)))"
    and "chans s3 = (chans s)(p \<mapsto> new_Channel f)" and "channels s3 = channels s"
    and "registered s3 = registered s" and "epollfd s3 = epollfd s" and "pevents s3 = pevents s"
    and "quietly (trace s) (trace s3)"
    and "poller.more s3 = poller.more (s\<lparr>socks := (socks s)(i \<mapsto> conn_socket f p), nextptr := Suc p\<rparr>)"
proof -
  let ?s1 = "s\<lparr>nextptr := Suc p, chans := (chans s)(p \<mapsto> new_Channel f),
    socks := (socks s)(i \<mapsto> conn_socket f p)\<rparr>"
  let ?s3 = "set_flag os f F_GETFD F_SETFD FD_CLOEXEC (set_flag os f F_GETFL F_SETFL O_NONBLOCK ?s1)"
  have reg: "registered ?s1 = registered s" by (simp add: registered_def)
  have three: "rbind (setReadCallback p a s4) (\<lambda>s5. rbind (setWriteCallback p b s5) (\<lambda>s6.
        rbind (setCloseCallback p d s6) (\<lambda>s7. Inr (i, s7))))
      = rbind (set_chan p (\<lambda>c. c\<lparr>readCallback := Some a, writeCallback := Some b,
          closeCallback := Some d\<rparr>) s4) (\<lambda>s5. Inr (i, s5))"
    for a b d and s4 :: "('k, 'x, 'a) sock_state_scheme"
    by (cases "chans s4 p")
      (simp_all add: setReadCallback_def setWriteCallback_def setCloseCallback_def set_chan_None)
  show ?thesis
  proof (rule that[of ?s3])
    show "new_Socket os f s = rbind (change_events os (op_mask EnableReading) p ?s3) (\<lambda>s4.
      rbind (set_chan p (\<lambda>c. c\<lparr>readCallback := Some (Socket_handleRead i),
        writeCallback := Some (Socket_handleWrite i), closeCallback := Some (Socket_handleClose i)\<rparr>) s4)
      (\<lambda>s5. Inr (i, s5)))"
      unfolding new_Socket_def new_Buffer_fresh(1) rbind_simps Let_def writing_calls three[symmetric]
      by (simp add: conn_socket_def i_def p_def)
    show "poller.more ?s3
        = poller.more (s\<lparr>socks := (socks s)(i \<mapsto> conn_socket f p), nextptr := Suc p\<rparr>)"
      by (cases s) (simp add: set_flag_frame)
    show "quietly (trace s) (trace ?s3)"
      using quietly_trans[OF set_flag_frame(7) set_flag_frame(7)[of "set_flag os f F_GETFL F_SETFL O_NONBLOCK ?s1"]]
      by simp
  qed (simp_all add: set_flag_frame reg)
qed

lemma new_Socket_effect:
  fixes s :: "('k, 'x, 'a) sock_state_scheme"
  assumes fresh: "\<And>p. nextptr s \<le> p \<Longrightarrow> chans s p = None"
  shows "yields (new_Socket os f s) (\<lambda>(i, s'). i = nextptr s
    \<and> chans s' = (chans s)(Suc i \<mapsto> conn_channel f i)
    \<and> channels s' = (channels s)(f \<mapsto> Suc i) \<and> epollfd s' = epollfd s
    \<and> pevents s' = pevents s \<and> quietly (trace s) (trace s')
    \<and> poller.more s' = poller.more (s\<lparr>socks := (socks s)(i \<mapsto> conn_socket f (Suc i)),
                                      nextptr := Suc (Suc i)\<rparr>))"
proof (rule new_Socket_decomp[where s = s and os = os and f = f, OF fresh], assumption)
  let ?p = "Suc (nextptr s)"
  fix s3
  assume ns: "new_Socket os f s = rbind (change_events os (op_mask EnableReading) ?p s3) (\<lambda>s4.
      rbind (set_chan ?p (\<lambda>c. c\<lparr>readCallback := Some (Socket_handleRead (nextptr s)),
        writeCallback := Some (Socket_handleWrite (nextptr s)),
        closeCallback := Some (Socket_handleClose (nextptr s))\<rparr>) s4) (\<lambda>s5. Inr (nextptr s, s5)))"
    and c: "chans s3 = (chans s)(?p \<mapsto> new_Channel f)" "channels s3 = channels s"
      "epollfd s3 = epollfd s" "pevents s3 = pevents s" "quietly (trace s) (trace s3)"
    and m: "poller.more s3 = poller.more (s\<lparr>socks := (socks s)(nextptr s \<mapsto> conn_socket f ?p),
              nextptr := Suc ?p\<rparr>)"
  have "chans s3 ?p = Some (new_Channel f)" using c by simp
  from change_total[OF this, of os "op_mask EnableReading"] show ?thesis
    unfolding ns using m c
    by (auto simp: yields_rbind conn_channel_def new_Channel_def kNew_def index_after_def
        elim!: yields_mono intro: quietly_trans)
qed

lemma new_Socket_registers:
  fixes s :: "('k, 'x, 'a) sock_state_scheme"
  assumes fresh: "\<And>p. nextptr s \<le> p \<Longrightarrow> chans s p = None"
    and ok: "poller_ok s" and free: "channels s f = None"
    and works: "ctl_works os (epollfd s) f"
  shows "yields (new_Socket os f s) (\<lambda>(i, s'). poller_ok s'
    \<and> registered s' = (registered s)(f \<mapsto> (kReadEvent, Suc i)))"
proof (rule new_Socket_decomp[where s = s and os = os and f = f, OF fresh], assumption)
  let ?p = "Suc (nextptr s)"
  fix s3
  assume ns: "new_Socket os f s = rbind (change_events os (op_mask EnableReading) ?p s3) (\<lambda>s4.
      rbind (set_chan ?p (\<lambda>c. c\<lparr>readCallback := Some (Socket_handleRead (nextptr s)),
        writeCallback := Some (Socket_handleWrite (nextptr s)),
        closeCallback := Some (Socket_handleClose (nextptr s))\<rparr>) s4) (\<lambda>s5. Inr (nextptr s, s5)))"
    and c: "chans s3 = (chans s)(?p \<mapsto> new_Channel f)" "channels s3 = channels s"
      "registered s3 = registered s" "epollfd s3 = epollfd s"
  have "poller_ok (s\<lparr>chans := (chans s)(?p \<mapsto> new_Channel f)\<rparr>)"
    by (rule poller_ok_new[OF ok]) (simp_all add: fresh new_Channel_def kNew_def)
  then have ok3: "poller_ok s3" by (rule poller_ok_frame) (simp_all add: c registered_def[of "_\<lparr>chans := _\<rparr>"] registered_def[of s, symmetric])
  have us3: "usable os s3 ?p"
    using works free by (simp add: usable_def c new_Channel_def)
  have c3: "chans s3 ?p = Some (new_Channel f)" using c by simp
  obtain s4 where s4: "change_events os (op_mask EnableReading) ?p s3 = Inr s4" "poller_ok s4"
      "chans s4 ?p = Some ((new_Channel f)\<lparr>ch_events := kReadEvent, ch_index := kAdded\<rparr>)"
      "registered s4 = (registered s)(f \<mapsto> (kReadEvent, ?p))"
    using change_events_ok[OF ok3 us3 c3 refl, of "op_mask EnableReading"]
    by (auto simp: c new_Channel_def next_index_def next_watch_def isNoneEvent_def kNew_def
        kAdded_def elim!: yieldsE)
  let ?c = "((new_Channel f)\<lparr>ch_events := kReadEvent, ch_index := kAdded\<rparr>)
    \<lparr>readCallback := Some (Socket_handleRead (nextptr s)),
     writeCallback := Some (Socket_handleWrite (nextptr s)),
     closeCallback := Some (Socket_handleClose (nextptr s))\<rparr>"
  have "poller_ok (s4\<lparr>chans := (chans s4)(?p \<mapsto> ?c)\<rparr>)"
    by (rule poller_ok_set_events[OF s4(2,3)]) simp_all
  then show ?thesis unfolding ns using s4 by (simp add: registered_def)
qed

text \<open>The sample connection.\<close>

lemma sample_conn_simps [simp]:
  "socks (sample_conn q) 6 = Some ((conn_socket 5 7)\<lparr>outputBuffer := \<lparr>buf = replicate 8 0 @ q,
        readerIndex = 8, writerIndex = of_nat (8 + length q)\<rparr>\<rparr>)"
  "chans (sample_conn q) 7 = Some (conn_channel 5 6)"
  "trace (sample_conn q) = [EvEpollCtl 3 EPOLL_CTL_ADD 5 3 7 None]"
  "epollfd (sample_conn q) = 3"
  by (simp_all add: sample_conn_def)

lemma conn_fields [simp]:
  "sock_chan (conn_socket f p) = p" "sock_fd (conn_socket f p) = f"
  "inputBuffer (conn_socket f p) = fresh_buffer" "outputBuffer (conn_socket f p) = fresh_buffer"
  "messageCallback (conn_socket f p) = None" "sockCloseCallback (conn_socket f p) = None"
  "sockWriteCallback (conn_socket f p) = None" "refs (conn_socket f p) = 1"
  "ch_fd (conn_channel f i) = f" "ch_events (conn_channel f i) = kReadEvent"
  "ch_index (conn_channel f i) = kAdded" "ch_revents (conn_channel f i) = 0"
  by (simp_all add: conn_socket_def conn_channel_def)

lemma sample_output:
  assumes "8 + length q \<le> vec_max"
  shows "buffer_ok \<lparr>buf = replicate 8 0 @ q, readerIndex = 8, writerIndex = of_nat (8 + length q)\<rparr>"
    and "readable \<lparr>buf = replicate 8 0 @ q, readerIndex = 8, writerIndex = of_nat (8 + length q)\<rparr> = q"
proof -
  have "unat (of_nat (8 + length q) :: size_t) = 8 + length q" using assms by (rule unat_of_nat_le)
  then show "buffer_ok \<lparr>buf = replicate 8 0 @ q, readerIndex = 8, writerIndex = of_nat (8 + length q)\<rparr>"
    "readable \<lparr>buf = replicate 8 0 @ q, readerIndex = 8, writerIndex = of_nat (8 + length q)\<rparr> = q"
    using assms by (simp_all add: buffer_ok_def readable_def peek_def beginWrite_def window_def
        del: of_nat_add)
qed

lemma sample_conn_ok: "poller_ok (sample_conn q)"
  by (auto simp: sample_conn_def poller_ok_def channel_ok_def registered_def interest_def
      conn_channel_def split: if_splits)

lemma watched_cong: "chans s' = chans s \<Longrightarrow> registered s' = registered s \<Longrightarrow> watched s' = watched s"
  by (rule ext) (simp add: watched_def cong: option.case_cong)

lemma handleWrite_empty:
  fixes s :: "('k, 'x, 'a) sock_state_scheme"
  assumes k: "socks s i = Some k" and c: "chans s (sock_chan k) = Some c"
    and ok: "buffer_ok (outputBuffer k)" and empty: "readable (outputBuffer k) = []"
    and w: "os_write os (trace s) (ch_fd c) [] = Inr 0"
  shows "handleWrite os i s = Inr (record_call (EvWrite (ch_fd c) [] (Inr 0)) None s)"
proof -
  have "load (buf (outputBuffer k)) (peek (outputBuffer k)) (unat (readableBytes (outputBuffer k))) = Inr []"
    using load_readable[OF ok, of "unat (readableBytes (outputBuffer k))"] empty
    by (simp add: length_readable[OF ok, symmetric])
  with k c w show ?thesis by (simp add: handleWrite_def sys_write_def Let_def)
qed

section \<open>Properties\<close>





text \<open>\<^verbatim>\<open>Send\<close> does not look at pending output: when some is pending and the kernel takes the
  new data, the new data reaches the peer before bytes that were sent earlier.\<close>

theorem Send_overtakes:
  fixes s :: "('k, 'x, 'a) sock_state_scheme"
  assumes k: "socks s i = Some k" and c: "chans s (sock_chan k) = Some c"
    and ok: "buffer_ok (outputBuffer k)" and pending: "readable (outputBuffer k) \<noteq> []"
    and takes_all: "\<And>tr d. os_write os tr (ch_fd c) d = Inr (length d)"
  shows "yields (rbind (Send os i data s) (\<lambda>(ret, s1). handleWrite os i s1)) (\<lambda>s'.
    sent (ch_fd c) (trace s') = sent (ch_fd c) (trace s) @ data @ readable (outputBuffer k))"
proof -
  from Send_full[OF k c takes_all, of data] obtain s1 where s1: "Send os i data s = Inr (0, s1)"
      "socks s1 i = Some k" "chans s1 (sock_chan k) = Some c"
      "sent (ch_fd c) (trace s1) = sent (ch_fd c) (trace s) @ data"
    using k c by (auto elim!: yieldsE)
  from handleWrite_spec[OF s1(2,3) ok takes_all] pending s1(1,4) show ?thesis
    by (auto elim!: yields_mono)
qed

theorem Send_overtakes_witness:
  "yields (rbind (Send (sample_os 5 1) 6 [7] (sample_conn [1, 2, 3]))
       (\<lambda>(ret, s1). handleWrite (sample_os 5 1) 6 s1))
     (\<lambda>s'. sent 5 (trace s') = [7, 1, 2, 3])"
  using Send_overtakes[of "sample_conn [1, 2, 3]" 6 _ "conn_channel 5 6" "sample_os 5 1" "[7]"]
    sample_output[of "[1, 2, 3]"]
  by (simp add: vec_max_def)

text \<open>After a partial write the rest is queued but write events are not asked for: the kernel
  keeps watching the descriptor for what it was watched before, so that without other
  traffic nothing ever flushes the queue.\<close>

theorem Send_partial_stuck:
  fixes s :: "('k, 'x, 'a) sock_state_scheme"
  assumes k: "socks s i = Some k" and c: "chans s (sock_chan k) = Some c"
    and w: "os_write os (trace s) (ch_fd c) data = Inr n" "0 < n" "n < length data"
    and ok: "buffer_ok (outputBuffer k)" and room: "room (length data) (outputBuffer k)"
    and idle: "watched s (sock_chan k) = Some m" "\<not> has m EPOLLOUT"
  shows "yields (Send os i data s) (\<lambda>(ret, s'). ret = 0
    \<and> (\<exists>k'. socks s' i = Some k' \<and> readable (outputBuffer k') \<noteq> [])
    \<and> (\<exists>m'. watched s' (sock_chan k) = Some m' \<and> \<not> has m' EPOLLOUT))"
  by (rule yields_mono[OF Send_partial[OF assms(1-7)]]) (use idle w(3) watched_cong in \<open>fastforce\<close>)

theorem Send_partial_stuck_witness:
  "yields (Send ((sample_os 5 1)\<lparr>os_write := \<lambda>tr f d. Inr 2\<rparr>) 6 [1, 2, 3] (sample_conn []))
     (\<lambda>(ret, s'). ret = 0 \<and> (\<exists>k. socks s' 6 = Some k \<and> readable (outputBuffer k) \<noteq> [])
        \<and> (\<exists>m. watched s' 7 = Some m \<and> \<not> has m EPOLLOUT))"
proof -
  have "watched (sample_conn []) 7 = Some 3"
    by (simp add: watched_def registered_def interest_def)
  then show ?thesis
    using Send_partial_stuck[of "sample_conn []" 6 _ "conn_channel 5 6"
        "(sample_os 5 1)\<lparr>os_write := \<lambda>tr f d. Inr 2\<rparr>" "[1, 2, 3]" 2 3] sample_output[of "[]"]
    by (simp add: vec_max_def room_def has_def)
qed

text \<open>When \<^verbatim>\<open>write\<close> fails with EAGAIN the data is dropped: it is neither sent nor queued.
  Write events are asked for, and since there is nothing to write, \<^verbatim>\<open>handleWrite\<close> writes
  nothing and never switches them off again.\<close>

theorem Send_EAGAIN_drops:
  fixes s :: "('k, 'x, 'a) sock_state_scheme"
  assumes k: "socks s i = Some k" and c: "chans s (sock_chan k) = Some c"
    and ok: "buffer_ok (outputBuffer k)" and empty: "readable (outputBuffer k) = []"
    and w: "os_write os (trace s) (ch_fd c) data = Inl EAGAIN"
    and w0: "\<And>tr. os_write os tr (ch_fd c) [] = Inr 0"
  shows "yields (rbind (Send os i data s) (\<lambda>(ret, s1). handleWrite os i s1)) (\<lambda>s'.
    socks s' = socks s \<and> sent (ch_fd c) (trace s') = sent (ch_fd c) (trace s)
    \<and> wanted s' (sock_chan k) = Some (ch_events c OR kWriteEvent))"
proof -
  from Send_error[OF k c, of os data EAGAIN] w obtain ret s1 c1 where s1: "Send os i data s = Inr (ret, s1)"
      "socks s1 = socks s" "chans s1 (sock_chan k) = Some c1" "ch_fd c1 = ch_fd c"
      "ch_events c1 = ch_events c OR kWriteEvent"
      "sent (ch_fd c) (trace s1) = sent (ch_fd c) (trace s)"
    by (auto simp: wanted_def elim!: yieldsE)
  have "os_write os (trace s1) (ch_fd c1) [] = Inr 0" using w0 s1(4) by simp
  from handleWrite_empty[OF _ s1(3) ok empty this, of i] s1 k show ?thesis
    by (simp add: wanted_def)
qed

theorem Send_EAGAIN_drops_witness:
  "yields (rbind (Send (busy_os 5 1) 6 [1, 2] (sample_conn [])) (\<lambda>(ret, s1). handleWrite (busy_os 5 1) 6 s1))
     (\<lambda>s'. socks s' = socks (sample_conn []) \<and> sent 5 (trace s') = [] \<and> wanted s' 7 = Some 7)"
proof -
  have w: "os_write (busy_os 5 1) tr f d = (if d = [] then Inr 0 else Inl EAGAIN)" for tr f d
    by (simp add: busy_os_def)
  show ?thesis
    using Send_EAGAIN_drops[of "sample_conn []" 6 _ "conn_channel 5 6" "busy_os 5 1" "[1, 2]"]
      sample_output[of "[]"]
    by (simp add: w vec_max_def kReadEvent_def kWriteEvent_def)
qed

text \<open>C16. Input is delivered: when bytes arrive, \<^verbatim>\<open>handleRead\<close> appends exactly those to the input
  buffer and then calls the message callback, in a state in which nothing but the input buffer
  has changed; on an error the input buffer, the channels and the registrations are left alone.
  Assumed is that \<^verbatim>\<open>readv\<close> does not fill more than the vectors hold.\<close>

theorem handleRead_delivers:
  fixes s :: "('k, 'x, 'a) sock_state_scheme"
  assumes k: "socks s i = Some k" and c: "chans s (sock_chan k) = Some c"
    and ok: "buffer_ok (inputBuffer k)"
    and size: "length (buf (inputBuffer k)) + extrabuf_size \<le> vec_max"
    and readv_contract: "\<And>d. os_readv os (trace s) (ch_fd c) (readFd_iov (inputBuffer k)) = Inr d \<Longrightarrow>
      length d \<le> sum_list (readFd_iov (inputBuffer k))"
  shows "case os_readv os (trace s) (ch_fd c) (readFd_iov (inputBuffer k)) of
      Inl e \<Rightarrow> yields (handleRead os call i s) (\<lambda>s'. socks s' = socks s \<and> chans s' = chans s
        \<and> registered s' = registered s)
    | Inr d \<Rightarrow> d \<noteq> [] \<longrightarrow> (\<exists>s' b.
        handleRead os call i s = call_with_self call (messageCallback k) i s'
        \<and> socks s' = (socks s)(i \<mapsto> k\<lparr>inputBuffer := b\<rparr>) \<and> buffer_ok b
        \<and> readable b = readable (inputBuffer k) @ d
        \<and> chans s' = chans s \<and> registered s' = registered s
        \<and> sock_state.more s' = sock_state.more s)"
proof (cases "os_readv os (trace s) (ch_fd c) (readFd_iov (inputBuffer k))")
  case (Inl e)
  then show ?thesis using handleRead_error[OF k c Inl, of call] by (auto elim: yields_mono)
next
  case (Inr d)
  show ?thesis
    by (rule handleRead_effect[OF k c ok size Inr readv_contract[OF Inr], of call]) (auto simp: Inr)
qed

theorem handleRead_delivers_witness:
  "\<exists>s'. handleRead ((sample_os 5 1)\<lparr>os_readv := \<lambda>tr f iov. Inr [1, 2, 3]\<rparr>) (\<lambda>f i s. Inr s) 6 (sample_conn [])
       = call_with_self (\<lambda>f i s. Inr s) None 6 s'
     \<and> map_option (readable \<circ> inputBuffer) (socks s' 6) = Some [1, 2, 3]"
proof -
  let ?k = "(conn_socket 5 7)\<lparr>outputBuffer := \<lparr>buf = replicate 8 0 @ [], readerIndex = 8,
    writerIndex = of_nat (8 + length ([] :: byte list))\<rparr>\<rparr> :: int socket"
  have "length (buf (inputBuffer ?k)) + extrabuf_size \<le> vec_max"
    by (simp add: fresh_buffer_def extrabuf_size_def vec_max_def)
  moreover have "3 \<le> sum_list (readFd_iov fresh_buffer)"
    by (simp add: readFd_iov_def fresh_buffer_def extrabuf_size_def writableBytes_def vec_size_def)
  ultimately show ?thesis
    using handleRead_delivers[of "sample_conn []" 6 ?k "conn_channel 5 6"
        "(sample_os 5 1)\<lparr>os_readv := \<lambda>tr f iov. Inr [1, 2, 3]\<rparr>" "\<lambda>f i s. Inr s"] new_Buffer_fresh
    by auto
qed

text \<open>C20. \<^verbatim>\<open>handleClose\<close> takes the connection out of the loop before the close callback runs: the
  descriptor is closed, the kernel no longer watches it, the poller has forgotten it and
  its invariant holds, whatever \<^verbatim>\<open>close\<close> and the \<^verbatim>\<open>epoll_ctl\<close> on the closed descriptor return.\<close>

theorem handleClose_unregisters:
  fixes s :: "('k, 'x, 'a) sock_state_scheme"
  assumes "socks s i = Some k" and "chans s (sock_chan k) = Some c" and "ch_fd c = sock_fd k"
    and "poller_ok s" and "ch_index c \<noteq> kNew"
  shows "\<exists>s'. handleClose os call i s = call_with_self call (sockCloseCallback k) i s'
    \<and> poller_ok s' \<and> registered s' = (registered s)(sock_fd k := None)
    \<and> channels s' = (channels s)(sock_fd k := None)
    \<and> chans s' = (chans s)(sock_chan k \<mapsto> c\<lparr>ch_index := kNew\<rparr>)
    \<and> socks s' = socks s \<and> sock_state.more s' = sock_state.more s"
proof (rule handleClose_effect[OF assms(1-4), of os call])
  fix s'
  assume "handleClose os call i s = call_with_self call (sockCloseCallback k) i s'"
    "poller_ok s'" "poller.more s' = poller.more s"
    "chans s' = (chans s)(sock_chan k \<mapsto> c\<lparr>ch_index := kNew\<rparr>)"
    "channels s' = (channels s)(sock_fd k := None)" "registered s' = (registered s)(sock_fd k := None)"
  with sock_frame[of s' s] show ?thesis by blast
qed (use assms(5) in simp)

theorem handleClose_unregisters_witness:
  "\<exists>s'. handleClose ((sample_os 5 1)\<lparr>os_epoll_ctl := \<lambda>tr ep ctl f m p. Some EBADF\<rparr>) (\<lambda>f i s. Inr s) 6 (sample_conn [])
       = call_with_self (\<lambda>f i s. Inr s) None 6 s'
     \<and> poller_ok s' \<and> registered s' = Map.empty \<and> channels s' = Map.empty"
proof -
  have "registered (sample_conn []) = [5 \<mapsto> (3, 7)]" "channels (sample_conn []) = [5 \<mapsto> 7]"
    by (simp_all add: registered_def interest_def sample_conn_def)
  with handleClose_unregisters[of "sample_conn []" 6 _ "conn_channel 5 6"
      "(sample_os 5 1)\<lparr>os_epoll_ctl := \<lambda>tr ep ctl f m p. Some EBADF\<rparr>" "\<lambda>f i s. Inr s"] sample_conn_ok[of "[]"]
  show ?thesis by auto
qed

end
