(* ===== verification/TcpServer.thy ===== *)
theory TcpServer
  imports Socket
begin

text \<open>
  The server of \<^verbatim>\<open>netlib/TcpServer.hpp\<close> and \<^verbatim>\<open>netlib/TcpServer.cpp\<close>, and the program of
  \<^verbatim>\<open>netlib/main.cpp\<close>: the map of connections (which owns a reference to each), the acceptor, the
  user's callbacks, and the code that runs when a channel or a pending functor calls back. The
  user's callbacks have the type \<open>'u\<close> and are run by the function \<open>user\<close>; the program of
  \<^verbatim>\<open>main.cpp\<close> gives both. The text to address conversion \<^verbatim>\<open>inet_addr\<close> is a parameter.
\<close>

section \<open>State\<close>

text \<open>The functions bound to a socket's callbacks and to the acceptor's channel.\<close>

datatype 'u server_cb = User 'u | Server_connectionClose

datatype server_bind = Server_accept | Server_acceptorClose

record 'u server = "('u server_cb, server_bind) sock_state" +
  host :: string
  connections :: "fd \<rightharpoonup> ptr"
  acceptor :: "ptr option"
  connectionCallback :: "'u option"
  srvMessageCallback :: "'u option"
  srvCloseCallback :: "'u option"
  writeCompleteCallback :: "'u option"

section \<open>Addresses\<close>

text \<open>\<^verbatim>\<open>split\<close>: the loop on \<^verbatim>\<open>std::getline\<close>, which ends when nothing is left to extract.\<close>

function split :: "string \<Rightarrow> char \<Rightarrow> string list" where
  "split s delim =
     (if s = [] then []
      else takeWhile (\<lambda>c. c \<noteq> delim) s # split (drop 1 (dropWhile (\<lambda>c. c \<noteq> delim) s)) delim)"
  by pat_completeness auto
termination
  by (relation "measure (length \<circ> fst)") (auto simp: less_Suc_eq_le length_dropWhile_le
      intro: diff_less le_less_trans[OF diff_le_mono[OF length_dropWhile_le]])

section \<open>Operations\<close>

definition new_TcpServer :: "os \<Rightarrow> string \<Rightarrow> 'u server" where
  "new_TcpServer os h =
     new_EventLoop os
       \<lparr>trace = [], errno = 0, chans = Map.empty, epollfd = - 1, pevents = [], channels = Map.empty,
        looping = False, quit_flag = False, pollReturnTime = 0, activeChannels = [],
        pendingFunctors = [], socks = Map.empty, nextptr = 1, host = h, connections = Map.empty,
        acceptor = None, connectionCallback = None, srvMessageCallback = None,
        srvCloseCallback = None, writeCompleteCallback = None\<rparr>"

definition setConnectionCallback :: "'u \<Rightarrow> 'u server \<Rightarrow> 'u server" where
  "setConnectionCallback cb s = s\<lparr>connectionCallback := Some cb\<rparr>"

definition setServerMessageCallback :: "'u \<Rightarrow> 'u server \<Rightarrow> 'u server" where
  "setServerMessageCallback cb s = s\<lparr>srvMessageCallback := Some cb\<rparr>"

definition setServerCloseCallback :: "'u \<Rightarrow> 'u server \<Rightarrow> 'u server" where
  "setServerCloseCallback cb s = s\<lparr>srvCloseCallback := Some cb\<rparr>"

definition acceptorCloseCallback :: "'u server \<Rightarrow> 'u server" where
  "acceptorCloseCallback s = quit s"

text \<open>The call of a possibly empty callback with a reference to a shared pointer.\<close>

definition call_user ::
    "('u \<Rightarrow> ptr \<Rightarrow> 'u server \<Rightarrow> 'u server result) \<Rightarrow> 'u option \<Rightarrow> ptr \<Rightarrow> 'u server \<Rightarrow> 'u server result" where
  "call_user user cb i s = (case cb of None \<Rightarrow> Inl BadFunctionCall | Some u \<Rightarrow> user u i s)"

text \<open>\<^verbatim>\<open>std::map::erase\<close> and \<^verbatim>\<open>std::map::insert\<close> on the map of shared pointers. The latter keeps
  an entry that is already there.\<close>

definition erase_connection :: "fd \<Rightarrow> 'u server \<Rightarrow> 'u server result" where
  "erase_connection f s =
     (case connections s f of
        None \<Rightarrow> Inr s
      | Some j \<Rightarrow> release j (s\<lparr>connections := (connections s)(f := None)\<rparr>))"

definition insert_connection :: "fd \<Rightarrow> ptr \<Rightarrow> 'u server \<Rightarrow> 'u server result" where
  "insert_connection f i s =
     (case connections s f of
        Some _ \<Rightarrow> Inr s
      | None \<Rightarrow> acquire i (s\<lparr>connections := (connections s)(f \<mapsto> i)\<rparr>))"

definition connectionClose ::
    "('u \<Rightarrow> ptr \<Rightarrow> 'u server \<Rightarrow> 'u server result) \<Rightarrow> ptr \<Rightarrow> 'u server \<Rightarrow> 'u server result" where
  "connectionClose user i s =
     rbind (getFD i s) (\<lambda>f.
     rbind (erase_connection f s) (\<lambda>s1.
     call_user user (srvCloseCallback s1) i s1))"

text \<open>The result of \<^verbatim>\<open>::accept\<close>: the errors the code calls expected are passed over, with the
  descriptor -1 and an address that was never written.\<close>

definition expected_accept_error :: "int \<Rightarrow> bool" where
  "expected_accept_error e \<longleftrightarrow>
     e = EAGAIN \<or> e = ECONNABORTED \<or> e = EINTR \<or> e = EPROTO \<or> e = EPERM \<or> e = EMFILE"

definition accept_result ::
    "int + (fd \<times> sockaddr_in) \<Rightarrow> 'u server \<Rightarrow> (fd \<times> sockaddr_in option \<times> 'u server) result" where
  "accept_result r s =
     (case r of
        Inr (connfd, a) \<Rightarrow> Inr (connfd, Some a, s)
      | Inl e \<Rightarrow> if expected_accept_error e then Inr (- 1, None, s\<lparr>errno := e\<rparr>) else Inl LogFatal)"

definition accept ::
    "os \<Rightarrow> ('u \<Rightarrow> ptr \<Rightarrow> 'u server \<Rightarrow> 'u server result) \<Rightarrow> 'u server \<Rightarrow> 'u server result" where
  "accept os user s =
     (case acceptor s of None \<Rightarrow> Inl NullPointer | Some a \<Rightarrow>
      rbind (getFD a s) (\<lambda>lf.
      let (r, s1) = sys_accept os lf s in
      rbind (accept_result r s1) (\<lambda>(connfd, adr, s2).
      rbind (new_Socket os connfd s2) (\<lambda>(i, s3).
      rbind (setAddr i adr s3) (\<lambda>s4.
      rbind (setMessageCallback i (map_option User (srvMessageCallback s4)) s4) (\<lambda>s5.
      rbind (setWriteCompleteCallback i (map_option User (writeCompleteCallback s5)) s5) (\<lambda>s6.
      rbind (setSockCloseCallback i (Some Server_connectionClose) s6) (\<lambda>s7.
      rbind (getFD i s7) (\<lambda>f.
      rbind (insert_connection f i s7) (\<lambda>s8.
      rbind (getChan i s8) (\<lambda>p.
      rbind (loop_updateChannel os p s8) (\<lambda>s9.
      rbind (call_user user (connectionCallback s9) i s9) (release i)))))))))))))"

text \<open>What a socket's callback, a channel's callback and a pending functor run.\<close>

fun call_back ::
    "('u \<Rightarrow> ptr \<Rightarrow> 'u server \<Rightarrow> 'u server result) \<Rightarrow> 'u server_cb \<Rightarrow> ptr \<Rightarrow> 'u server \<Rightarrow>
     'u server result" where
  "call_back user (User u) i s = user u i s"
| "call_back user Server_connectionClose i s = connectionClose user i s"

fun run_cb ::
    "os \<Rightarrow> ('u \<Rightarrow> ptr \<Rightarrow> 'u server \<Rightarrow> 'u server result) \<Rightarrow> server_bind chan_cb \<Rightarrow> 'u server \<Rightarrow>
     'u server result" where
  "run_cb os user (Socket_handleRead i) s = handleRead os (call_back user) i s"
| "run_cb os user (Socket_handleWrite i) s = handleWrite os i s"
| "run_cb os user (Socket_handleClose i) s = handleClose os (call_back user) i s"
| "run_cb os user (Other Server_accept) s = accept os user s"
| "run_cb os user (Other Server_acceptorClose) s = Inr (acceptorCloseCallback s)"

definition dispatch ::
    "os \<Rightarrow> ('u \<Rightarrow> ptr \<Rightarrow> 'u server \<Rightarrow> 'u server result) \<Rightarrow> ptr \<Rightarrow> int \<Rightarrow> 'u server \<Rightarrow> 'u server result" where
  "dispatch os user p t s = handleEvent (run_cb os user) (\<lambda>f _. run_cb os user f) p t s"

fun run_functor ::
    "('u \<Rightarrow> ptr \<Rightarrow> 'u server \<Rightarrow> 'u server result) \<Rightarrow> 'u server_cb bound \<Rightarrow> 'u server \<Rightarrow> 'u server result" where
  "run_functor user (Bound k i) s = call_back user k i s"

definition bind ::
    "os \<Rightarrow> byte_order \<Rightarrow> (string \<Rightarrow> int32_t) \<Rightarrow> 'u server \<Rightarrow> (int \<times> 'u server) result" where
  "bind os ord inet_addr s =
     (let elems = split (host s) (CHR '':'') in
      if length elems \<noteq> 2 then Inr (- 1, s)
      else case acceptor s of None \<Rightarrow> Inl NullPointer | Some a \<Rightarrow>
        let adr = \<lparr>sin_family = AF_INET, sin_port = htons ord (of_int (atoi (elems ! 1))),
                   s_addr = inet_addr (elems ! 0)\<rparr> in
        rbind (setAddr a (Some adr) s) (\<lambda>s1.
        rbind (getFD a s1) (\<lambda>f.
        let (r, s2) = sys_bind os f adr s1 in
        Inr (case r of None \<Rightarrow> 0 | Some _ \<Rightarrow> - 1, s2))))"

definition listen :: "os \<Rightarrow> 'u server \<Rightarrow> (int \<times> 'u server) result" where
  "listen os s =
     (case acceptor s of None \<Rightarrow> Inl NullPointer | Some a \<Rightarrow>
      rbind (getFD a s) (\<lambda>f.
      case sys_listen os f SOMAXCONN s of
        (None, s1) \<Rightarrow> Inr (0, s1)
      | (Some e, s1) \<Rightarrow> Inl LogFatal))"

text \<open>\<^verbatim>\<open>start\<close>: the part before the event loop gives the local shared pointer and whether the loop
  is entered.\<close>

definition start_up ::
    "os \<Rightarrow> byte_order \<Rightarrow> (string \<Rightarrow> int32_t) \<Rightarrow> 'u server \<Rightarrow> (ptr \<times> bool \<times> 'u server) result" where
  "start_up os ord inet_addr s =
     (let (r, s1) = sys_socket os s;
          f = (case r of Inl _ \<Rightarrow> - 1 | Inr g \<Rightarrow> g) in
      rbind (new_Socket os f s1) (\<lambda>(i, s2).
      rbind (acquire i s2) (\<lambda>s3.
      rbind (case acceptor s3 of
               None \<Rightarrow> Inr (s3\<lparr>acceptor := Some i\<rparr>)
             | Some a \<Rightarrow> release a (s3\<lparr>acceptor := Some i\<rparr>)) (\<lambda>s4.
      rbind (setChanReadCallback i (Other Server_accept) s4) (\<lambda>s5.
      rbind (setChanCloseCallback i (Other Server_acceptorClose) s5) (\<lambda>s6.
      rbind (bind os ord inet_addr s6) (\<lambda>(ret, s7).
      if ret \<noteq> 0 then Inr (i, False, s7)
      else rbind (listen os s7) (\<lambda>(ret, s8). Inr (i, ret = 0, s8)))))))))"

definition start ::
    "os \<Rightarrow> byte_order \<Rightarrow> (string \<Rightarrow> int32_t) \<Rightarrow> ('u \<Rightarrow> ptr \<Rightarrow> 'u server \<Rightarrow> 'u server result) \<Rightarrow>
     'u server \<Rightarrow> 'u server result option" where
  "start os ord inet_addr user s =
     (case start_up os ord inet_addr s of
        Inl e \<Rightarrow> Some (Inl e)
      | Inr (i, False, s1) \<Rightarrow> Some (release i s1)
      | Inr (i, True, s1) \<Rightarrow>
          map_option (\<lambda>r. rbind r (release i)) (loop os (dispatch os user) (run_functor user) s1))"

section \<open>The program\<close>

text \<open>The three callbacks of \<^verbatim>\<open>main.cpp\<close>. The log lines read the address and the received text.\<close>

datatype main_cb = Message | Cclose | NewConn

definition reply :: "byte list" where
  "reply = [97, 97, 97, 97, 98, 98, 98, 98, 0]"

definition message :: "os \<Rightarrow> ptr \<Rightarrow> main_cb server \<Rightarrow> main_cb server result" where
  "message os i s =
     rbind (sock i s) (\<lambda>k.
     rbind (retrieveAllAsString (inputBuffer k)) (\<lambda>(txt, b).
     rbind (set_sock i (\<lambda>k. k\<lparr>inputBuffer := b\<rparr>) s) (\<lambda>s1.
     rbind (Send os i reply s1) (\<lambda>(ret, s2). Inr s2))))"

definition cclose :: "ptr \<Rightarrow> main_cb server \<Rightarrow> main_cb server result" where
  "cclose i s = rbind (sock i s) (\<lambda>k. Inr s)"

definition newConn :: "ptr \<Rightarrow> main_cb server \<Rightarrow> main_cb server result" where
  "newConn i s = rbind (sock i s) (\<lambda>k. Inr s)"

fun main_user :: "os \<Rightarrow> main_cb \<Rightarrow> ptr \<Rightarrow> main_cb server \<Rightarrow> main_cb server result" where
  "main_user os Message = message os"
| "main_user os Cclose = cclose"
| "main_user os NewConn = newConn"

definition main_server :: "os \<Rightarrow> main_cb server" where
  "main_server os =
     setConnectionCallback NewConn (setServerCloseCallback Cclose (setServerMessageCallback Message
       (new_TcpServer os ''127.0.0.1:9999'')))"

definition main :: "os \<Rightarrow> byte_order \<Rightarrow> (string \<Rightarrow> int32_t) \<Rightarrow> main_cb server result option" where
  "main os ord inet_addr = start os ord inet_addr (main_user os) (main_server os)"

section \<open>Vocabulary of the properties\<close>

text \<open>A close callback that neither keeps nor destroys objects.\<close>

definition closes_quietly :: "('u \<Rightarrow> ptr \<Rightarrow> 'u server \<Rightarrow> 'u server result) \<Rightarrow> 'u \<Rightarrow> bool" where
  "closes_quietly user u \<longleftrightarrow>
     (\<forall>i s. socks s i \<noteq> None \<longrightarrow> yields (user u i s) (\<lambda>s'. socks s' = socks s \<and> chans s' = chans s))"

text \<open>The peer of a connection has hung up: a hang-up event without input, or a read that meets the
  end of the stream.\<close>

definition peer_gone :: "os \<Rightarrow> 'u server \<Rightarrow> 'u server_cb socket \<Rightarrow> server_bind chan_cb channel \<Rightarrow> bool" where
  "peer_gone os s k c \<longleftrightarrow>
     has (ch_revents c) EPOLLHUP \<and> \<not> has (ch_revents c) EPOLLIN
     \<or> has (ch_revents c) EPOLLIN \<and> \<not> has (ch_revents c) EPOLLERR
       \<and> os_readv os (trace s) (sock_fd k) (readFd_iov (inputBuffer k)) = Inr []"

text \<open>A connection as \<^verbatim>\<open>accept\<close> leaves it.\<close>

definition connected :: "'u server \<Rightarrow> ptr \<Rightarrow> 'u server_cb socket \<Rightarrow> server_bind chan_cb channel \<Rightarrow> bool" where
  "connected s i k c \<longleftrightarrow>
     socks s i = Some k \<and> chans s (sock_chan k) = Some c \<and> ch_fd c = sock_fd k
     \<and> ch_index c \<noteq> kNew
     \<and> connections s (sock_fd k) = Some i \<and> sockCloseCallback k = Some Server_connectionClose
     \<and> readCallback c = Some (Socket_handleRead i) \<and> closeCallback c = Some (Socket_handleClose i)
     \<and> buffer_ok (inputBuffer k) \<and> length (buf (inputBuffer k)) + extrabuf_size \<le> vec_max"

text \<open>The socket that \<^verbatim>\<open>accept\<close> makes, before the connection callback runs.\<close>

definition accepted_socket :: "fd \<Rightarrow> ptr \<Rightarrow> sockaddr_in option \<Rightarrow> 'u server \<Rightarrow> 'u server_cb socket" where
  "accepted_socket f i adr s =
     (conn_socket f (Suc i))\<lparr>sock_addr := adr,
       messageCallback := map_option User (srvMessageCallback s),
       sockWriteCallback := map_option User (writeCompleteCallback s),
       sockCloseCallback := Some Server_connectionClose,
       refs := (if connections s f = None then 2 else 1)\<rparr>"

text \<open>A server with one connection; \<open>ev\<close> are the events reported for it.\<close>

definition sample_server :: "events \<Rightarrow> main_cb server" where
  "sample_server ev =
     \<lparr>trace = [EvEpollCtl 3 EPOLL_CTL_ADD 4 3 3 None, EvEpollCtl 3 EPOLL_CTL_ADD 5 3 7 None], errno = 0,
      chans = [3 \<mapsto> (conn_channel 4 2)\<lparr>readCallback := Some (Other Server_accept),
                     closeCallback := Some (Other Server_acceptorClose)\<rparr>,
               7 \<mapsto> (conn_channel 5 6)\<lparr>ch_revents := ev\<rparr>],
      epollfd = 3, pevents = replicate 16 (0, 0), channels = [4 \<mapsto> 3, 5 \<mapsto> 7],
      looping = True, quit_flag = False, pollReturnTime = 0, activeChannels = [], pendingFunctors = [],
      socks = [2 \<mapsto> (conn_socket 4 3)\<lparr>refs := 2\<rparr>,
               6 \<mapsto> (conn_socket 5 7)\<lparr>messageCallback := Some (User Message),
                     sockCloseCallback := Some Server_connectionClose\<rparr>],
      nextptr = 8, host = ''127.0.0.1:9999'', connections = [5 \<mapsto> 6], acceptor = Some 2,
      connectionCallback = Some NewConn, srvMessageCallback = Some Message,
      srvCloseCallback = Some Cclose, writeCompleteCallback = None\<rparr>"

section \<open>Lemmas\<close>

declare split.simps [simp del]

text \<open>The connection's close callback when the map holds the only other reference: after it the
  socket and its channel are destroyed.\<close>

lemma close_destroys:
  fixes s :: "'u server"
  assumes k: "socks s i = Some k" "refs k = 1"
    and conn: "connections s (sock_fd k) = Some i"
    and u: "srvCloseCallback s = Some u" "closes_quietly user u"
  shows "yields (call_with_self (call_back user) (Some Server_connectionClose) i s)
    (\<lambda>s'. socks s' i = None \<and> chans s' (sock_chan k) = None)"
proof -
  let ?k2 = "k\<lparr>refs := 2\<rparr>" and ?k1 = "k\<lparr>refs := 1\<rparr>"
  let ?s1 = "s\<lparr>socks := (socks s)(i \<mapsto> ?k2)\<rparr>"
  let ?s2 = "s\<lparr>connections := (connections s)(sock_fd k := None), socks := (socks s)(i \<mapsto> ?k1)\<rparr>"
  have acq: "acquire i s = Inr ?s1" using k by (simp add: acquire_def numeral_2_eq_2)
  have cl: "connectionClose user i ?s1 = user u i ?s2"
    using conn u by (simp add: connectionClose_def getFD_def erase_connection_def release_def call_user_def)
  have "socks ?s2 i \<noteq> None" by simp
  with u(2) obtain s3 where s3: "user u i ?s2 = Inr s3" "socks s3 = socks ?s2" "chans s3 = chans ?s2"
    unfolding closes_quietly_def by (blast elim: yieldsE)
  then have "release i s3 = Inr (s3\<lparr>socks := (socks s3)(i := None), chans := (chans s3)(sock_chan k := None)\<rparr>)"
    by (simp add: release_def)
  with acq cl s3 show ?thesis by (simp add: call_with_self_def)
qed

lemma handleClose_destroys:
  fixes s :: "'u server"
  assumes k: "socks s i = Some k" "refs k = 1" "sockCloseCallback k = Some Server_connectionClose"
    and c: "chans s (sock_chan k) = Some c" "ch_fd c = sock_fd k" "ch_index c \<noteq> kNew"
    and ok: "poller_ok s" and conn: "connections s (sock_fd k) = Some i"
    and u: "srvCloseCallback s = Some u" "closes_quietly user u"
  shows "yields (handleClose os (call_back user) i s)
    (\<lambda>s'. socks s' i = None \<and> chans s' (sock_chan k) = None)"
proof (rule handleClose_effect[OF k(1) c(1,2) ok, of os "call_back user"])
  show "ch_index c = kNew \<longrightarrow> channels s (ch_fd c) = None" using c(3) by simp
next
  fix s'
  assume h: "handleClose os (call_back user) i s = call_with_self (call_back user) (sockCloseCallback k) i s'"
    and m: "poller.more s' = poller.more s"
  have "socks s' = socks s \<and> connections s' = connections s \<and> srvCloseCallback s' = srvCloseCallback s"
    using m by (cases s; cases s'; simp)
  with close_destroys[of s' i k u user] k conn u show ?thesis by (simp add: h)
qed

lemma poller_ok_handling:
  assumes "poller_ok s" and "chans s p = Some c"
  shows "poller_ok (s\<lparr>chans := (chans s)(p \<mapsto> c\<lparr>eventHandling := b\<rparr>)\<rparr>)"
  by (rule poller_ok_set_events[OF assms]) simp_all

lemma server_frame:
  fixes s s' :: "'u server"
  assumes "poller.more s' = poller.more s"
  shows "socks s' = socks s" "nextptr s' = nextptr s" "connections s' = connections s"
    "acceptor s' = acceptor s" "connectionCallback s' = connectionCallback s"
    "srvMessageCallback s' = srvMessageCallback s" "srvCloseCallback s' = srvCloseCallback s"
    "writeCompleteCallback s' = writeCompleteCallback s" "host s' = host s"
    "pendingFunctors s' = pendingFunctors s" "quit_flag s' = quit_flag s"
  using assms by (cases s; cases s'; simp)+

lemma accept_decomp:
  fixes s :: "'u server"
  assumes a: "acceptor s = Some a" "socks s a = Some ka"
    and r: "sys_accept os (sock_fd ka) s = (r, s1)" "accept_result r s1 = Inr (f, adr, s2)"
    and i: "new_Socket os f s2 = Inr (i, s3)"
      "socks s3 = (socks s)(i \<mapsto> conn_socket f (Suc i))" "connections s3 = connections s"
      "srvMessageCallback s3 = srvMessageCallback s"
      "writeCompleteCallback s3 = writeCompleteCallback s"
  obtains s8 where "accept os user s = rbind (updateChannel os (Suc i) s8)
      (\<lambda>s9. rbind (call_user user (connectionCallback s9) i s9) (release i))"
    and "socks s8 = (socks s)(i \<mapsto> accepted_socket f i adr s)"
    and "connections s8 = (if connections s f = None then (connections s)(f \<mapsto> i) else connections s)"
    and "chans s8 = chans s3" and "channels s8 = channels s3" and "registered s8 = registered s3"
    and "epollfd s8 = epollfd s3" and "connectionCallback s8 = connectionCallback s3"
    and "pevents s8 = pevents s3" and "trace s8 = trace s3"
    and "poller.more s8 = poller.more (s3\<lparr>socks := (socks s)(i \<mapsto> accepted_socket f i adr s),
      connections := (if connections s f = None then (connections s)(f \<mapsto> i) else connections s)\<rparr>)"
proof -
  let ?s7 = "s3\<lparr>socks := (socks s)(i \<mapsto> (accepted_socket f i adr s)\<lparr>refs := 1\<rparr>)\<rparr>"
  let ?s8 = "if connections s f = None
    then ?s7\<lparr>connections := (connections s)(f \<mapsto> i), socks := (socks s)(i \<mapsto> accepted_socket f i adr s)\<rparr>
    else ?s7"
  have refs2: "accepted_socket f i adr s = (accepted_socket f i adr s)\<lparr>refs := Suc 1\<rparr>"
    if "connections s f = None" using that by (simp add: accepted_socket_def numeral_2_eq_2)
  have ins: "insert_connection f i ?s7 = Inr ?s8"
    using i(3) refs2 by (cases "connections s f") (simp_all add: insert_connection_def acquire_def)
  have "rbind (setAddr i adr s3) (\<lambda>s4.
      rbind (setMessageCallback i (map_option User (srvMessageCallback s4)) s4) (\<lambda>s5.
      rbind (setWriteCompleteCallback i (map_option User (writeCompleteCallback s5)) s5) (\<lambda>s6.
      rbind (setSockCloseCallback i (Some Server_connectionClose) s6) K))) = K ?s7"
    for K :: "'u server \<Rightarrow> 'u server result"
    using i(2-5) by (simp add: setAddr_def setMessageCallback_def setWriteCompleteCallback_def
        setSockCloseCallback_def accepted_socket_def conn_socket_def)
  moreover have "getFD i ?s7 = Inr f" "getChan i ?s8 = Inr (Suc i)"
    by (simp_all add: getFD_def getChan_def accepted_socket_def)
  ultimately have "accept os user s = rbind (updateChannel os (Suc i) ?s8)
      (\<lambda>s9. rbind (call_user user (connectionCallback s9) i s9) (release i))"
    unfolding accept_def using a r i(1) ins
    by (simp add: getFD_def[of a] loop_updateChannel_def[abs_def] del: map_option_eq_Some)
  moreover have "poller.more ?s8 = poller.more (s3\<lparr>socks := (socks s)(i \<mapsto> accepted_socket f i adr s),
      connections := (if connections s f = None then (connections s)(f \<mapsto> i) else connections s)\<rparr>)"
    using i(3) by (cases s3) (auto simp: accepted_socket_def)
  ultimately show ?thesis
    by (intro that[of ?s8]) (auto simp: registered_def accepted_socket_def i)
qed

lemma more_cong:
  fixes s t :: "'u server"
  assumes "poller.more s = poller.more t"
  shows "poller.more (s\<lparr>socks := m\<rparr>) = poller.more (t\<lparr>socks := m\<rparr>)"
    "poller.more (s\<lparr>nextptr := n\<rparr>) = poller.more (t\<lparr>nextptr := n\<rparr>)"
    "poller.more (s\<lparr>connections := cs\<rparr>) = poller.more (t\<lparr>connections := cs\<rparr>)"
    "poller.more (s\<lparr>acceptor := a\<rparr>) = poller.more (t\<lparr>acceptor := a\<rparr>)"
  using assms by (cases s; cases t; simp)+

text \<open>A new socket in a state \<open>s1\<close> that differs from \<open>s\<close> by recorded calls only.\<close>

lemma new_Socket_made:
  fixes s s1 :: "'u server"
  assumes same: "poller.more s1 = poller.more s" "chans s1 = chans s" "channels s1 = channels s"
      "epollfd s1 = epollfd s" "registered s1 = registered s" "pevents s1 = pevents s"
    and fresh: "\<And>p. nextptr s \<le> p \<Longrightarrow> chans s p = None"
  obtains s3 where "new_Socket os f s1 = Inr (nextptr s, s3)"
    and "chans s3 = (chans s)(Suc (nextptr s) \<mapsto> conn_channel f (nextptr s))"
    and "channels s3 = (channels s)(f \<mapsto> Suc (nextptr s))" and "epollfd s3 = epollfd s"
    and "poller.more s3 = poller.more (s\<lparr>socks := (socks s)(nextptr s \<mapsto> conn_socket f (Suc (nextptr s))),
         nextptr := Suc (Suc (nextptr s))\<rparr>)"
    and "pevents s3 = pevents s" and "quietly (trace s1) (trace s3)"
    and "poller_ok s \<longrightarrow> channels s f = None \<longrightarrow> ctl_works os (epollfd s) f \<longrightarrow>
      poller_ok s3 \<and> registered s3 = (registered s)(f \<mapsto> (kReadEvent, Suc (nextptr s)))"
proof -
  let ?i = "nextptr s"
  note F = server_frame[OF same(1)]
  have fresh1: "chans s1 p = None" if "nextptr s1 \<le> p" for p using that fresh same F by simp
  obtain s3 where s3: "new_Socket os f s1 = Inr (?i, s3)"
      "chans s3 = (chans s)(Suc ?i \<mapsto> conn_channel f ?i)" "channels s3 = (channels s)(f \<mapsto> Suc ?i)"
      "epollfd s3 = epollfd s"
      "poller.more s3 = poller.more (s1\<lparr>socks := (socks s1)(?i \<mapsto> conn_socket f (Suc ?i)),
         nextptr := Suc (Suc ?i)\<rparr>)" "pevents s3 = pevents s" "quietly (trace s1) (trace s3)"
    using new_Socket_effect[of s1 os f, OF fresh1] same F by (auto elim!: yieldsE)
  have "poller_ok s3 \<and> registered s3 = (registered s)(f \<mapsto> (kReadEvent, Suc ?i))"
    if "poller_ok s" "channels s f = None" "ctl_works os (epollfd s) f"
  proof -
    have "poller_ok s1" by (rule poller_ok_frame[OF that(1)]) (simp_all add: same)
    from new_Socket_registers[of s1 f os, OF fresh1 this] that same s3(1) F show ?thesis by simp
  qed
  moreover have "poller.more s3 = poller.more (s\<lparr>socks := (socks s)(?i \<mapsto> conn_socket f (Suc ?i)),
      nextptr := Suc (Suc ?i)\<rparr>)"
    using s3(5) same(1) by (cases s; cases s1) simp
  ultimately show ?thesis by (intro that[OF s3(1-4) _ s3(6,7)]) simp_all
qed

text \<open>The first half of \<^verbatim>\<open>accept\<close>: the connection, and a socket on its descriptor.\<close>

lemma accept_new_socket:
  fixes s :: "'u server"
  assumes r: "accept_result (os_accept os (trace s) g) s = Inr (f, adr, s0)"
    and fresh: "\<And>p. nextptr s \<le> p \<Longrightarrow> chans s p = None"
  defines "s1 \<equiv> record_call (EvAccept g (os_accept os (trace s) g)) (err_of (os_accept os (trace s) g)) s"
  obtains s2 s3 where "accept_result (os_accept os (trace s) g) s1 = Inr (f, adr, s2)"
    and "new_Socket os f s2 = Inr (nextptr s, s3)"
    and "chans s3 = (chans s)(Suc (nextptr s) \<mapsto> conn_channel f (nextptr s))"
    and "channels s3 = (channels s)(f \<mapsto> Suc (nextptr s))" and "epollfd s3 = epollfd s"
    and "poller.more s3 = poller.more (s\<lparr>socks := (socks s)(nextptr s \<mapsto> conn_socket f (Suc (nextptr s))),
         nextptr := Suc (Suc (nextptr s))\<rparr>)"
    and "pevents s3 = pevents s"
    and "quietly (trace s @ [EvAccept g (os_accept os (trace s) g)]) (trace s3)"
    and "poller_ok s \<longrightarrow> channels s f = None \<longrightarrow> ctl_works os (epollfd s) f \<longrightarrow>
      poller_ok s3 \<and> registered s3 = (registered s)(f \<mapsto> (kReadEvent, Suc (nextptr s)))"
proof -
  let ?r = "os_accept os (trace s) g" and ?i = "nextptr s"
  obtain s2 where s2: "accept_result ?r s1 = Inr (f, adr, s2)" "poller.more s2 = poller.more s"
      "chans s2 = chans s" "channels s2 = channels s" "epollfd s2 = epollfd s"
      "registered s2 = registered s" "pevents s2 = pevents s" "trace s2 = trace s @ [EvAccept g ?r]"
    using r by (auto simp: s1_def accept_result_def registered_def split: sum.splits if_splits)
  obtain s3 where s3: "new_Socket os f s2 = Inr (?i, s3)"
      "chans s3 = (chans s)(Suc ?i \<mapsto> conn_channel f ?i)" "channels s3 = (channels s)(f \<mapsto> Suc ?i)"
      "epollfd s3 = epollfd s"
      "poller.more s3 = poller.more (s\<lparr>socks := (socks s)(?i \<mapsto> conn_socket f (Suc ?i)),
         nextptr := Suc (Suc ?i)\<rparr>)" "pevents s3 = pevents s" "quietly (trace s2) (trace s3)"
      "poller_ok s \<longrightarrow> channels s f = None \<longrightarrow> ctl_works os (epollfd s) f \<longrightarrow>
        poller_ok s3 \<and> registered s3 = (registered s)(f \<mapsto> (kReadEvent, Suc ?i))"
    by (rule new_Socket_made[OF s2(2-7) fresh])
  then show ?thesis by (intro that[OF s2(1) s3(1-6) _ s3(8)]) (simp add: s2(8))
qed

lemma accept_effect:
  fixes s :: "'u server"
  assumes a: "acceptor s = Some a" "socks s a = Some ka"
    and r: "accept_result (os_accept os (trace s) (sock_fd ka)) s = Inr (f, adr, s0)"
    and fresh: "\<And>p. nextptr s \<le> p \<Longrightarrow> chans s p = None"
    and u: "connectionCallback s = Some u"
  obtains s9 where "accept os user s = rbind (user u (nextptr s) s9) (release (nextptr s))"
    and "socks s9 = (socks s)(nextptr s \<mapsto> accepted_socket f (nextptr s) adr s)"
    and "connections s9 = (if connections s f = None then (connections s)(f \<mapsto> nextptr s) else connections s)"
    and "chans s9 = (chans s)(Suc (nextptr s) \<mapsto> conn_channel f (nextptr s))"
    and "poller_ok s \<Longrightarrow> channels s f = None \<Longrightarrow> ctl_works os (epollfd s) f \<Longrightarrow>
      poller_ok s9 \<and> registered s9 = (registered s)(f \<mapsto> (kReadEvent, Suc (nextptr s)))"
    and "pevents s9 = pevents s" and "epollfd s9 = epollfd s"
    and "quietly (trace s @ [EvAccept (sock_fd ka) (os_accept os (trace s) (sock_fd ka))]) (trace s9)"
    and "poller.more s9 = poller.more (s\<lparr>nextptr := Suc (Suc (nextptr s)),
      socks := (socks s)(nextptr s \<mapsto> accepted_socket f (nextptr s) adr s),
      connections := (if connections s f = None then (connections s)(f \<mapsto> nextptr s) else connections s)\<rparr>)"
proof -
  let ?r = "os_accept os (trace s) (sock_fd ka)" and ?i = "nextptr s"
  let ?s1 = "record_call (EvAccept (sock_fd ka) ?r) (err_of ?r) s"
  have s1: "sys_accept os (sock_fd ka) s = (?r, ?s1)" by (simp add: sys_accept_def Let_def)
  obtain s2 s3 where s2: "accept_result ?r ?s1 = Inr (f, adr, s2)" and s3: "new_Socket os f s2 = Inr (?i, s3)"
      "chans s3 = (chans s)(Suc ?i \<mapsto> conn_channel f ?i)" "channels s3 = (channels s)(f \<mapsto> Suc ?i)"
      "epollfd s3 = epollfd s"
      "poller.more s3 = poller.more (s\<lparr>socks := (socks s)(?i \<mapsto> conn_socket f (Suc ?i)),
         nextptr := Suc (Suc ?i)\<rparr>)" "pevents s3 = pevents s"
      "quietly (trace s @ [EvAccept (sock_fd ka) ?r]) (trace s3)"
    and reg3: "poller_ok s \<longrightarrow> channels s f = None \<longrightarrow> ctl_works os (epollfd s) f \<longrightarrow>
      poller_ok s3 \<and> registered s3 = (registered s)(f \<mapsto> (kReadEvent, Suc ?i))"
    by (rule accept_new_socket[OF r fresh])
  note F3 = server_frame[OF s3(5)]
  obtain s8 where s8: "accept os user s = rbind (updateChannel os (Suc ?i) s8)
        (\<lambda>s9. rbind (call_user user (connectionCallback s9) ?i s9) (release ?i))"
      "socks s8 = (socks s)(?i \<mapsto> accepted_socket f ?i adr s)"
      "connections s8 = (if connections s f = None then (connections s)(f \<mapsto> ?i) else connections s)"
      "chans s8 = chans s3" "channels s8 = channels s3" "registered s8 = registered s3"
      "epollfd s8 = epollfd s3" "connectionCallback s8 = connectionCallback s3"
      "pevents s8 = pevents s3" "trace s8 = trace s3"
      "poller.more s8 = poller.more (s3\<lparr>socks := (socks s)(?i \<mapsto> accepted_socket f ?i adr s),
        connections := (if connections s f = None then (connections s)(f \<mapsto> ?i) else connections s)\<rparr>)"
    by (rule accept_decomp[OF a s1 s2 s3(1), of user]) (simp_all add: F3)
  have c8: "chans s8 (Suc ?i) = Some (conn_channel f ?i)" by (simp add: s8 s3)
  have keep: "(conn_channel f ?i)\<lparr>ch_index := index_after (conn_channel f ?i)\<rparr> = conn_channel f ?i"
    by (simp add: index_after_def isNoneEvent_def conn_channel_def kReadEvent_def kNoneEvent_def)
  have same: "(chans s8)(Suc ?i \<mapsto> conn_channel f ?i) = chans s8" using c8 by (simp add: fun_upd_idem)
  obtain s9 where s9: "updateChannel os (Suc ?i) s8 = Inr s9" "chans s9 = chans s8"
      "poller.more s9 = poller.more s8" "pevents s9 = pevents s8" "epollfd s9 = epollfd s8"
      "quietly (trace s8) (trace s9)"
    using updateChannel_total[OF c8, of os, unfolded keep same] by (auto elim!: yieldsE)
  have tr9: "quietly (trace s @ [EvAccept (sock_fd ka) ?r]) (trace s9)"
    using quietly_trans[OF s3(7)] s9(6) s8(10) by simp
  have m9: "poller.more s9 = poller.more (s\<lparr>nextptr := Suc (Suc ?i),
      socks := (socks s)(?i \<mapsto> accepted_socket f ?i adr s),
      connections := (if connections s f = None then (connections s)(f \<mapsto> ?i) else connections s)\<rparr>)"
    using s3(5) s9(3) s8(11) by (cases s; cases s3) auto
  note F9 = server_frame[OF s9(3)]
  have reg9: "poller_ok s9 \<and> registered s9 = (registered s)(f \<mapsto> (kReadEvent, Suc ?i))"
    if H: "poller_ok s" "channels s f = None" "ctl_works os (epollfd s) f"
  proof -
    have ok8: "poller_ok s8"
      by (rule poller_ok_frame[of s3]) (use reg3 H in \<open>simp_all add: s8\<close>)
    have us8: "usable os s8 (Suc ?i)" using H by (simp add: usable_def c8 s8 s3)
    show ?thesis
      using updateChannel_ok[OF ok8 us8 c8] s9(1) reg3 H s8(6)
      by (simp add: next_watch_def isNoneEvent_def kReadEvent_def kNoneEvent_def)
  qed
  have "accept os user s = rbind (user u ?i s9) (release ?i)"
    using s8(1,8) s9(1) u F9 F3 by (simp add: call_user_def)
  then show ?thesis
    by (rule that[OF _ _ _ _ reg9 _ _ tr9 m9]) (simp_all add: F9 s8 s9 s3)
qed

lemma split_single: "delim \<notin> set a \<Longrightarrow> a \<noteq> [] \<Longrightarrow> split a delim = [a]"
proof -
  assume a: "delim \<notin> set a" "a \<noteq> []"
  then have "takeWhile (\<lambda>c. c \<noteq> delim) a = a" "dropWhile (\<lambda>c. c \<noteq> delim) a = []"
    by (auto simp: takeWhile_eq_all_conv)
  then show ?thesis using a(2)
    by (subst split.simps) (simp only: if_False drop.simps list.inject split.simps[of "[]"] if_True simp_thms)
qed

lemma split_two:
  assumes "delim \<notin> set a" and "delim \<notin> set b" and "b \<noteq> []"
  shows "split (a @ delim # b) delim = [a, b]"
proof -
  have "takeWhile (\<lambda>c. c \<noteq> delim) (a @ delim # b) = a
      \<and> dropWhile (\<lambda>c. c \<noteq> delim) (a @ delim # b) = delim # b"
    using assms(1) by (induction a) auto
  then show ?thesis by (subst split.simps) (simp add: split_single[OF assms(2,3)])
qed

lemma sample_server_simps [simp]:
  "socks (sample_server ev) 2 = Some ((conn_socket 4 3)\<lparr>refs := 2\<rparr>)"
  "socks (sample_server ev) 6 = Some ((conn_socket 5 7)\<lparr>messageCallback := Some (User Message),
     sockCloseCallback := Some Server_connectionClose\<rparr>)"
  "chans (sample_server ev) 7 = Some ((conn_channel 5 6)\<lparr>ch_revents := ev\<rparr>)"
  "trace (sample_server ev) =
     [EvEpollCtl 3 EPOLL_CTL_ADD 4 3 3 None, EvEpollCtl 3 EPOLL_CTL_ADD 5 3 7 None]"
  "epollfd (sample_server ev) = 3" "channels (sample_server ev) = [4 \<mapsto> 3, 5 \<mapsto> 7]"
  "connections (sample_server ev) = [5 \<mapsto> 6]" "acceptor (sample_server ev) = Some 2"
  "nextptr (sample_server ev) = 8" "connectionCallback (sample_server ev) = Some NewConn"
  "srvCloseCallback (sample_server ev) = Some Cclose"
  "host (sample_server ev) = ''127.0.0.1:9999''"
  by (simp_all add: sample_server_def)

lemma sample_server_fresh: "8 \<le> p \<Longrightarrow> chans (sample_server ev) p = None"
  by (simp add: sample_server_def)

lemma sample_server_ok: "poller_ok (sample_server ev)"
  by (auto simp: sample_server_def poller_ok_def channel_ok_def registered_def interest_def
      split: if_splits)

lemma dec_digits_9999: "dec_digits 9999 = ''9999''"
proof -
  have "(of_char (char_of (57 :: nat)) :: nat) = of_char (CHR ''9'')" by simp
  then have "char_of (57 :: nat) = CHR ''9''" by (simp only: of_char_eq_iff)
  then show ?thesis by (simp add: dec_digits.simps)
qed

lemma bind_wellformed:
  fixes s :: "'u server"
  assumes h: "host s = ip @ CHR '':'' # dec_digits port" "CHR '':'' \<notin> set ip" "port < 65536"
    and a: "acceptor s = Some a" "socks s a = Some k"
    and adr: "adr = \<lparr>sin_family = AF_INET, sin_port = htons ord (of_nat port), s_addr = inet_addr ip\<rparr>"
    and r: "r = os_bind os (trace s) (sock_fd k) adr"
  shows "bind os ord inet_addr s = Inr (case r of None \<Rightarrow> 0 | Some _ \<Rightarrow> - 1,
      record_call (EvBind (sock_fd k) adr r) r (s\<lparr>socks := (socks s)(a \<mapsto> k\<lparr>sock_addr := Some adr\<rparr>)\<rparr>))"
proof -
  have "\<not> isdigit (CHR '':'')" by (simp add: isdigit_def)
  then have "CHR '':'' \<notin> set (dec_digits port)" using dec_digits_chars by blast
  from split_two[OF h(2) this dec_digits_nonempty]
  have sp: "split (host s) (CHR '':'') = [ip, dec_digits port]" by (simp add: h(1))
  have "atoi (dec_digits port) = int port" by (rule atoi_dec_digits) (use h(3) in simp)
  then show ?thesis
    using a by (simp add: bind_def sp setAddr_def getFD_def sys_bind_def Let_def adr r)
qed

lemma start_up_created:
  fixes s :: "'u server"
  assumes none: "acceptor s = None" and sk: "os_socket os (trace s) = Inr f"
    and fresh: "\<And>p. nextptr s \<le> p \<Longrightarrow> chans s p = None"
    and ok: "poller_ok s" "channels s f = None" "ctl_works os (epollfd s) f"
  obtains s6 where "start_up os ord inet_addr s = rbind (bind os ord inet_addr s6) (\<lambda>(ret, s7).
      if ret \<noteq> 0 then Inr (nextptr s, False, s7)
      else rbind (listen os s7) (\<lambda>(ret, s8). Inr (nextptr s, ret = 0, s8)))"
    and "acceptor s6 = Some (nextptr s)" and "host s6 = host s"
    and "socks s6 = (socks s)(nextptr s \<mapsto> (conn_socket f (Suc (nextptr s)))\<lparr>refs := 2\<rparr>)"
    and "chans s6 (Suc (nextptr s)) = Some ((conn_channel f (nextptr s))
      \<lparr>readCallback := Some (Other Server_accept), closeCallback := Some (Other Server_acceptorClose)\<rparr>)"
    and "poller_ok s6" and "registered s6 = (registered s)(f \<mapsto> (kReadEvent, Suc (nextptr s)))"
    and "chans s6 = (chans s)(Suc (nextptr s) \<mapsto> (conn_channel f (nextptr s))
      \<lparr>readCallback := Some (Other Server_accept), closeCallback := Some (Other Server_acceptorClose)\<rparr>)"
    and "pevents s6 = pevents s" and "epollfd s6 = epollfd s"
    and "quietly (trace s @ [EvSocket (Inr f)]) (trace s6)"
    and "poller.more s6 = poller.more (s\<lparr>nextptr := Suc (Suc (nextptr s)),
      socks := (socks s)(nextptr s \<mapsto> (conn_socket f (Suc (nextptr s)))\<lparr>refs := 2\<rparr>),
      acceptor := Some (nextptr s)\<rparr>)"
proof -
  let ?i = "nextptr s"
  let ?s1 = "record_call (EvSocket (Inr f)) None s"
  have s1: "sys_socket os s = (Inr f, ?s1)" by (simp add: sys_socket_def sk Let_def)
  obtain s2 where s2: "new_Socket os f ?s1 = Inr (?i, s2)"
      "chans s2 = (chans s)(Suc ?i \<mapsto> conn_channel f ?i)"
      "poller.more s2 = poller.more
        (s\<lparr>socks := (socks s)(?i \<mapsto> conn_socket f (Suc ?i)), nextptr := Suc (Suc ?i)\<rparr>)"
      "poller_ok s2" "registered s2 = (registered s)(f \<mapsto> (kReadEvent, Suc ?i))"
      "pevents s2 = pevents s" "epollfd s2 = epollfd s" "quietly (trace ?s1) (trace s2)"
    by (rule new_Socket_made[of ?s1 s, where os = os and f = f]) (use ok fresh in \<open>simp_all add: registered_def\<close>)
  note F2 = server_frame[OF s2(3)]
  let ?c = "(conn_channel f ?i)\<lparr>readCallback := Some (Other Server_accept),
    closeCallback := Some (Other Server_acceptorClose)\<rparr>"
  let ?s4 = "s2\<lparr>socks := (socks s)(?i \<mapsto> (conn_socket f (Suc ?i))\<lparr>refs := 2\<rparr>), acceptor := Some ?i\<rparr>"
  let ?s6 = "?s4\<lparr>chans := (chans s)(Suc ?i \<mapsto> ?c)\<rparr>"
  have acq: "acquire ?i s2 = Inr (s2\<lparr>socks := (socks s)(?i \<mapsto> (conn_socket f (Suc ?i))\<lparr>refs := 2\<rparr>)\<rparr>)"
    by (simp add: acquire_def F2 numeral_2_eq_2)
  have cbs: "rbind (setChanReadCallback ?i (Other Server_accept) ?s4)
      (\<lambda>s5. rbind (setChanCloseCallback ?i (Other Server_acceptorClose) s5) K) = K ?s6"
    for K :: "'u server \<Rightarrow> (ptr \<times> bool \<times> 'u server) result"
    by (simp add: setChanReadCallback_def setChanCloseCallback_def getChan_def setReadCallback_def
        setCloseCallback_def s2(2) conn_channel_def)
  have "acceptor s2 = None" using none F2 by simp
  then have "start_up os ord inet_addr s = rbind (bind os ord inet_addr ?s6) (\<lambda>(ret, s7).
      if ret \<noteq> 0 then Inr (?i, False, s7)
      else rbind (listen os s7) (\<lambda>(ret, s8). Inr (?i, ret = 0, s8)))"
    using s1 s2(1) acq cbs by (simp add: start_up_def)
  moreover have "poller_ok ?s6"
  proof -
    have "chans s2 (Suc ?i) = Some (conn_channel f ?i)" by (simp add: s2(2))
    from poller_ok_set_events[OF s2(4) this, of ?c] have "poller_ok (s2\<lparr>chans := (chans s)(Suc ?i \<mapsto> ?c)\<rparr>)"
      by (simp add: s2(2))
    then show ?thesis by (rule poller_ok_frame) (simp_all add: registered_def)
  qed
  moreover have "registered ?s6 = (registered s)(f \<mapsto> (kReadEvent, Suc ?i))"
    using s2(5) by (simp add: registered_def)
  moreover have "poller.more ?s6 = poller.more (s\<lparr>nextptr := Suc (Suc ?i),
      socks := (socks s)(?i \<mapsto> (conn_socket f (Suc ?i))\<lparr>refs := 2\<rparr>), acceptor := Some ?i\<rparr>)"
    using s2(3) by (cases s; cases s2) simp
  ultimately show ?thesis using s2(8) by (intro that[of ?s6]) (simp_all add: F2 s2(6,7))
qed

section \<open>Properties\<close>

text \<open>When the peer of a connection hangs up, the server uses freed memory: \<^verbatim>\<open>handleClose\<close> makes
  the server drop its reference, which was the last one but for a temporary, so that the
  socket and its channel are destroyed while \<^verbatim>\<open>Channel::handleEvent\<close> of that channel is still
  running and goes on to read its members. This holds for every connection whose only owner is
  the connection map and every close callback that does not keep a copy of the pointer.\<close>

theorem disconnect_use_after_free:
  fixes s :: "'u server"
  assumes conn: "connected s i k c" and ok: "poller_ok s" and sole: "refs k = 1"
    and u: "srvCloseCallback s = Some u" "closes_quietly user u"
    and gone: "peer_gone os s k c"
  shows "dispatch os user (sock_chan k) t s = Inl UseAfterFree"
proof -
  let ?c = "c\<lparr>eventHandling := True\<rparr>"
  let ?s = "s\<lparr>chans := (chans s)(sock_chan k \<mapsto> ?c)\<rparr>"
  note C = conn[unfolded connected_def]
  have ok': "poller_ok ?s" using C by (intro poller_ok_handling[OF ok]) simp
  have S: "socks ?s i = Some k" "chans ?s (sock_chan k) = Some ?c" using C by simp_all
  show ?thesis
  proof (cases "has (ch_revents c) EPOLLHUP \<and> \<not> has (ch_revents c) EPOLLIN")
    case True
    from handleClose_destroys[of ?s i k ?c u user os] C S sole ok' u obtain s' where
        "handleClose os (call_back user) i ?s = Inr s'" "chans s' (sock_chan k) = None"
      by (auto elim!: yieldsE)
    with True C show ?thesis
      unfolding dispatch_def
      by (intro handleEvent_close_frees[where c = c and f = "Socket_handleClose i" and s' = s']) simp_all
  next
    case False
    with gone have g: "has (ch_revents c) EPOLLIN" "\<not> has (ch_revents c) EPOLLERR"
        "os_readv os (trace s) (sock_fd k) (readFd_iov (inputBuffer k)) = Inr []"
      by (auto simp: peer_gone_def)
    have "yields (handleRead os (call_back user) i ?s) (\<lambda>s'. chans s' (sock_chan k) = None)"
    proof (rule handleRead_effect[OF S, where d = "[]" and os = os and call = "call_back user"])
      fix s1 b
      assume h: "handleRead os (call_back user) i ?s = (if [] = ([] :: byte list)
          then handleClose os (call_back user) i s1
          else call_with_self (call_back user) (messageCallback k) i s1)"
        and s1: "socks s1 = (socks ?s)(i \<mapsto> k\<lparr>inputBuffer := b\<rparr>)" "chans s1 = chans ?s"
          "channels s1 = channels ?s" "registered s1 = registered ?s"
          "sock_state.more s1 = sock_state.more ?s"
      have m: "connections s1 = connections s" "srvCloseCallback s1 = srvCloseCallback s"
        using s1(5) by (cases s; cases s1; simp)+
      have "poller_ok s1" by (rule poller_ok_frame[OF ok' s1(3,4)]) (simp add: s1(2))
      then show ?thesis
        using handleClose_destroys[of s1 i "k\<lparr>inputBuffer := b\<rparr>" ?c u user os] C s1 m sole u h
        by (auto elim!: yields_mono)
    qed (use C g in simp_all)
    then obtain s' where "handleRead os (call_back user) i ?s = Inr s'" "chans s' (sock_chan k) = None"
      by (auto elim: yieldsE)
    with g C show ?thesis
      unfolding dispatch_def 
      by (intro handleEvent_read_frees[where c = c and f = "Socket_handleRead i" and s' = s']) simp_all
  qed
qed

theorem disconnect_use_after_free_witness:
  "dispatch (sample_os 5 1) (main_user (sample_os 5 1)) 7 0 (sample_server 1) = Inl UseAfterFree"
proof -
  let ?k = "(conn_socket 5 7)\<lparr>messageCallback := Some (User Message),
    sockCloseCallback := Some Server_connectionClose\<rparr>"
  let ?c = "(conn_channel 5 6)\<lparr>ch_revents := 1\<rparr>"
  have "connected (sample_server 1) 6 ?k ?c"
    by (simp add: connected_def new_Buffer_fresh) (simp add: conn_channel_def fresh_buffer_def
        extrabuf_size_def vec_max_def)
  moreover have "peer_gone (sample_os 5 1) (sample_server 1) ?k ?c"
    by (simp add: peer_gone_def has_def)
  moreover have "closes_quietly (main_user (sample_os 5 1)) Cclose"
    by (auto simp: closes_quietly_def cclose_def)
  ultimately show ?thesis
    using disconnect_use_after_free[of "sample_server 1" 6 ?k ?c Cclose] sample_server_ok[of 1]
    by simp
qed

text \<open>The address string: for a host of the form \<open>ip:port\<close> with a decimal port below 65536,
  \<^verbatim>\<open>bind\<close> passes the kernel the address of \<open>ip\<close> and exactly that port, whose bytes are in
  network order on either kind of host; it returns 0 when the kernel accepts and -1 when not.
  A host without a colon is refused without a system call.\<close>

theorem bind_address:
  fixes s :: "'u server"
  assumes h: "host s = ip @ CHR '':'' # dec_digits port" "CHR '':'' \<notin> set ip" "port < 65536"
    and a: "acceptor s = Some a" "socks s a = Some k"
  shows "(\<exists>adr s'. s_addr adr = inet_addr ip \<and> sin_family adr = AF_INET
      \<and> mem16 ord (sin_port adr) = be16 (of_nat port)
      \<and> bind os ord inet_addr s =
          Inr (if os_bind os (trace s) (sock_fd k) adr = None then 0 else - 1, s')
      \<and> trace s' = trace s @ [EvBind (sock_fd k) adr (os_bind os (trace s) (sock_fd k) adr)])
    \<and> bind os ord inet_addr (s\<lparr>host := ip\<rparr>) = Inr (- 1, s\<lparr>host := ip\<rparr>)"
proof
  let ?adr = "\<lparr>sin_family = AF_INET, sin_port = htons ord (of_nat port), s_addr = inet_addr ip\<rparr>"
  show "\<exists>adr s'. s_addr adr = inet_addr ip \<and> sin_family adr = AF_INET
      \<and> mem16 ord (sin_port adr) = be16 (of_nat port)
      \<and> bind os ord inet_addr s =
          Inr (if os_bind os (trace s) (sock_fd k) adr = None then 0 else - 1, s')
      \<and> trace s' = trace s @ [EvBind (sock_fd k) adr (os_bind os (trace s) (sock_fd k) adr)]"
    using bind_wellformed[OF assms refl refl, of os ord inet_addr]
    by (intro exI[of _ ?adr]) (auto split: option.splits)
  have "length (split ip (CHR '':'')) \<noteq> 2"
    using split_single[OF h(2)] by (cases "ip = []") (simp_all add: split.simps[of "[]"])
  then show "bind os ord inet_addr (s\<lparr>host := ip\<rparr>) = Inr (- 1, s\<lparr>host := ip\<rparr>)"
    by (simp add: bind_def)
qed

theorem bind_address_witness:
  "(\<exists>(adr :: sockaddr_in) s'. s_addr adr = 2130706433 \<and> mem16 LittleEndian (sin_port adr) = be16 9999
      \<and> bind (sample_os 5 1) LittleEndian (\<lambda>ip. 2130706433) (sample_server 0) = Inr (0, s'))
    \<and> bind (sample_os 5 1) LittleEndian (\<lambda>ip. 2130706433) ((sample_server 0)\<lparr>host := ''127.0.0.1''\<rparr>)
      = Inr (- 1, (sample_server 0)\<lparr>host := ''127.0.0.1''\<rparr>)"
  using bind_address[of "sample_server 0" "''127.0.0.1''" 9999 2 _ "\<lambda>ip. 2130706433" LittleEndian
      "sample_os 5 1"]
  by (simp add: dec_digits_9999) blast



text \<open>C34. A failed \<^verbatim>\<open>::accept\<close>: for the errors the code calls expected it goes on with the
  descriptor -1, builds a socket on it, enters it in the connection map and announces it to
  the connection callback; for every other error it aborts.\<close>

theorem accept_error:
  fixes s :: "'u server"
  assumes a: "acceptor s = Some a" "socks s a = Some ka"
    and r: "os_accept os (trace s) (sock_fd ka) = Inl e"
    and fresh: "\<And>p. nextptr s \<le> p \<Longrightarrow> chans s p = None"
    and u: "connectionCallback s = Some u" and new: "connections s (- 1) = None"
  shows "if expected_accept_error e
    then \<exists>s' k. accept os user s = rbind (user u (nextptr s) s') (release (nextptr s))
      \<and> connections s' (- 1) = Some (nextptr s) \<and> socks s' (nextptr s) = Some k
      \<and> sock_fd k = - 1 \<and> sock_addr k = None
    else accept os user s = Inl LogFatal"
proof (cases "expected_accept_error e")
  case True
  show ?thesis
  proof (rule accept_effect[OF a _ fresh u, where f = "- 1" and adr = None and os = os and user = user])
    show "accept_result (os_accept os (trace s) (sock_fd ka)) s = Inr (- 1, None, s\<lparr>errno := e\<rparr>)"
      using True by (simp add: r accept_result_def)
  next
    fix s9
    assume s9: "accept os user s = rbind (user u (nextptr s) s9) (release (nextptr s))"
      "socks s9 = (socks s)(nextptr s \<mapsto> accepted_socket (- 1) (nextptr s) None s)"
      "connections s9 = (if connections s (- 1) = None then (connections s)(- 1 \<mapsto> nextptr s)
         else connections s)"
    with new show ?thesis by (simp add: True) (auto simp: accepted_socket_def)
  qed
next
  case False
  then show ?thesis
    using a r by (simp add: accept_def getFD_def sys_accept_def accept_result_def Let_def)
qed

theorem accept_error_witness:
  "\<exists>s' k. accept (sample_os 5 1) (main_user (sample_os 5 1)) (sample_server 0)
       = rbind (main_user (sample_os 5 1) NewConn 8 s') (release 8)
     \<and> connections s' (- 1) = Some 8 \<and> socks s' 8 = Some k \<and> sock_fd k = - 1"
  using accept_error[of "sample_server 0" 2 _ "sample_os 5 1" EAGAIN NewConn "main_user (sample_os 5 1)"]
    sample_server_fresh[of _ 0]
  by (auto simp: expected_accept_error_def)

text \<open>The message callback of \<^verbatim>\<open>main.cpp\<close> empties the input buffer and answers with
  \<^verbatim>\<open>sizeof "aaaabbbb"\<close> bytes: the eight letters and the terminating zero.\<close>

theorem message_replies:
  fixes s :: "main_cb server"
  assumes k: "socks s i = Some k" and c: "chans s (sock_chan k) = Some c"
    and ok: "buffer_ok (inputBuffer k)"
    and w: "os_write os (trace s) (ch_fd c) reply = Inr 9"
  shows "yields (message os i s) (\<lambda>s'. \<exists>k'. socks s' i = Some k' \<and> readable (inputBuffer k') = []
    \<and> sent (ch_fd c) (trace s') = sent (ch_fd c) (trace s) @ map (of_char) ''aaaabbbb'' @ [0])"
proof -
  from retrieveAllAsString_spec[OF ok] obtain b where
    b: "retrieveAllAsString (inputBuffer k) = Inr (readable (inputBuffer k), b)" "readable b = []"
    by (auto elim!: yieldsE)
  let ?s = "s\<lparr>socks := (socks s)(i \<mapsto> k\<lparr>inputBuffer := b\<rparr>)\<rparr>"
  have w': "os_write os (trace ?s) (ch_fd c) reply = Inr (length reply)" using w by (simp add: reply_def)
  have "yields (Send os i reply ?s) (\<lambda>(ret, s'). socks s' = socks ?s
      \<and> sent (ch_fd c) (trace s') = sent (ch_fd c) (trace s) @ reply)"
    using Send_full[OF _ _ w', of i "k\<lparr>inputBuffer := b\<rparr>"] c by (auto elim!: yields_mono)
  with k b show ?thesis
    by (auto simp: message_def yields_rbind reply_def elim!: yields_mono)
qed

theorem message_replies_witness:
  "yields (message (sample_os 5 1) 6 (sample_server 0)) (\<lambda>s'. \<exists>k. socks s' 6 = Some k
     \<and> readable (inputBuffer k) = [] \<and> sent 5 (trace s') = [97, 97, 97, 97, 98, 98, 98, 98, 0])"
proof -
  have "sent 5 (trace (sample_server 0)) = []" by (simp add: sent_def)
  then show ?thesis
    using message_replies[of "sample_server 0" 6 "(conn_socket 5 7)\<lparr>messageCallback := Some (User Message),
      sockCloseCallback := Some Server_connectionClose\<rparr>" "(conn_channel 5 6)\<lparr>ch_revents := 0\<rparr>"
      "sample_os 5 1"] new_Buffer_fresh(2)
    by (simp add: reply_def)
qed

text \<open>Starting the server: the listening socket is created, registered for reading and given the
  accept and close callbacks, and is owned by the acceptor and by the local pointer. With an
  address the kernel binds and listens on, the event loop is entered with the registration
  invariant in place; when \<^verbatim>\<open>bind\<close> fails the call returns without listening, and when
  \<^verbatim>\<open>listen\<close> fails the process aborts.\<close>

theorem start_up_outcomes:
  fixes s :: "'u server"
  assumes none: "acceptor s = None" and sk: "os_socket os (trace s) = Inr f"
    and fresh: "\<And>p. nextptr s \<le> p \<Longrightarrow> chans s p = None"
    and ok: "poller_ok s" "channels s f = None" "ctl_works os (epollfd s) f"
    and h: "host s = ip @ CHR '':'' # dec_digits port" "CHR '':'' \<notin> set ip" "port < 65536"
    and rb: "\<And>tr adr. os_bind os tr f adr = rb" and rl: "\<And>tr. os_listen os tr f SOMAXCONN = rl"
  shows "if rb \<noteq> None then yields (start_up os ord inet_addr s) (\<lambda>(i, go, s'). \<not> go)
    else if rl \<noteq> None then start_up os ord inet_addr s = Inl LogFatal
    else yields (start_up os ord inet_addr s) (\<lambda>(i, go, s'). go \<and> i = nextptr s \<and> poller_ok s'
      \<and> acceptor s' = Some i \<and> map_option refs (socks s' i) = Some 2
      \<and> watched s' (Suc i) = Some kReadEvent
      \<and> map_option readCallback (chans s' (Suc i)) = Some (Some (Other Server_accept))
      \<and> map_option closeCallback (chans s' (Suc i)) = Some (Some (Other Server_acceptorClose)))"
proof (rule start_up_created[OF none sk fresh ok, of ord inet_addr])
  fix s6
  assume su: "start_up os ord inet_addr s = rbind (bind os ord inet_addr s6) (\<lambda>(ret, s7).
      if ret \<noteq> 0 then Inr (nextptr s, False, s7)
      else rbind (listen os s7) (\<lambda>(ret, s8). Inr (nextptr s, ret = 0, s8)))"
    and s6: "acceptor s6 = Some (nextptr s)" "host s6 = host s"
      "socks s6 = (socks s)(nextptr s \<mapsto> (conn_socket f (Suc (nextptr s)))\<lparr>refs := 2\<rparr>)"
      "chans s6 (Suc (nextptr s)) = Some ((conn_channel f (nextptr s))
        \<lparr>readCallback := Some (Other Server_accept), closeCallback := Some (Other Server_acceptorClose)\<rparr>)"
      "poller_ok s6" "registered s6 = (registered s)(f \<mapsto> (kReadEvent, Suc (nextptr s)))"
  let ?k = "(conn_socket f (Suc (nextptr s)))\<lparr>refs := 2\<rparr>"
  let ?adr = "\<lparr>sin_family = AF_INET, sin_port = htons ord (of_nat port), s_addr = inet_addr ip\<rparr>"
  let ?s7 = "record_call (EvBind f ?adr rb) rb
    (s6\<lparr>socks := (socks s6)(nextptr s \<mapsto> ?k\<lparr>sock_addr := Some ?adr\<rparr>)\<rparr>)"
  have "host s6 = ip @ CHR '':'' # dec_digits port" using s6(2) h(1) by simp
  moreover have "socks s6 (nextptr s) = Some ?k" using s6(3) by simp
  ultimately have b: "bind os ord inet_addr s6 = Inr (case rb of None \<Rightarrow> 0 | Some _ \<Rightarrow> - 1, ?s7)"
    using bind_wellformed[of s6 ip port "nextptr s" ?k ?adr ord inet_addr rb os] h s6(1) rb by simp
  let ?s8 = "record_call (EvListen f SOMAXCONN rl) rl ?s7"
  have acc: "acceptor ?s7 = Some (nextptr s)" using s6(1) by (simp add: record_call_def)
  have l: "listen os ?s7 = (case rl of None \<Rightarrow> Inr (0, ?s8) | Some _ \<Rightarrow> Inl LogFatal)"
    using rl acc by (simp add: listen_def getFD_def sys_listen_def Let_def split: option.splits)
  have ok8: "poller_ok ?s8 \<and> registered ?s8 = registered s6"
    by (intro conjI poller_ok_frame[OF s6(5)]) (simp_all add: registered_def interest_append)
  have acc8: "acceptor ?s8 = Some (nextptr s)" using acc by (simp add: record_call_def)
  have w8: "watched ?s8 (Suc (nextptr s)) = Some kReadEvent"
    using ok8 s6(4,6) by (simp add: watched_def)
  have cbs: "map_option readCallback (chans s6 (Suc (nextptr s))) = Some (Some (Other Server_accept))"
      "map_option closeCallback (chans s6 (Suc (nextptr s))) = Some (Some (Other Server_acceptorClose))"
    using s6(4) by simp_all
  show ?thesis
  proof (cases rb)
    case (Some e)
    with b show ?thesis by (simp add: su)
  next
    case None
    note rbN = this
    show ?thesis
    proof (cases rl)
      case None
      then show ?thesis
        using rbN b l ok8 acc8 w8 cbs by (simp add: su del: map_option_eq_Some)
    qed (use rbN b l in \<open>simp add: su\<close>)
  qed
qed

theorem start_up_outcomes_witness:
  "yields (start_up (sample_os 4 1) LittleEndian (\<lambda>ip. 1) (main_server (sample_os 4 1)))
     (\<lambda>(i, go, s'). go \<and> poller_ok s' \<and> acceptor s' = Some i \<and> watched s' (Suc i) = Some kReadEvent)"
proof -
  let ?s = "main_server (sample_os 4 1)"
  note defs = main_server_def new_TcpServer_def new_EventLoop_def init_Poller_def sys_epoll_create_def
    setConnectionCallback_def setServerCloseCallback_def setServerMessageCallback_def record_call_def
  have ok: "poller_ok ?s"
    by (simp add: defs Let_def poller_ok_def registered_def interest_def)
  have s: "acceptor ?s = None" "chans ?s = Map.empty" "channels ?s = Map.empty"
      "host ?s = ''127.0.0.1'' @ CHR '':'' # dec_digits 9999"
    by (simp_all add: defs Let_def dec_digits_9999)
  show ?thesis
    using start_up_outcomes[of ?s "sample_os 4 1" 4 "''127.0.0.1''" 9999 None None LittleEndian
        "\<lambda>ip. 1"] s ok sample_ctl_works[of 4 4 1 "epollfd ?s"]
    by (auto elim!: yields_mono)
qed

end
