(* ===== verification/Conversation.thy ===== *)
theory Conversation
  imports TcpServer
begin

text \<open>
  What the server of \<^verbatim>\<open>netlib/main.cpp\<close> and its clients say to each other, read off the trace of system
  calls: every message that arrives is answered with the very next call, and as long as no write is cut
  short the bytes sent to a descriptor are one reply for each message that came from it.
\<close>

section \<open>Messages and replies\<close>

text \<open>Every message that is read is answered on the same connection, with the very next call.\<close>

definition answered :: "sys_event list \<Rightarrow> bool" where
  "answered tr \<longleftrightarrow> (\<forall>n f iov d. n < length tr \<and> tr ! n = EvReadv f iov (Inr d) \<and> d \<noteq> [] \<longrightarrow>
     Suc n < length tr \<and> (\<exists>r. tr ! Suc n = EvWrite f reply r))"

text \<open>The messages that have come from a descriptor, one for each read that brought data.\<close>

fun msgs_by :: "fd \<Rightarrow> sys_event \<Rightarrow> byte list list" where
  "msgs_by f (EvReadv g iov (Inr d)) = (if g = f \<and> d \<noteq> [] then [d] else [])"
| "msgs_by f _ = []"

definition msgs_from :: "fd \<Rightarrow> sys_event list \<Rightarrow> byte list list" where
  "msgs_from f tr = concat (map (msgs_by f) tr)"

text \<open>The reference: a server that sends the reply for each message.\<close>

definition replies :: "byte list list \<Rightarrow> byte list" where
  "replies ms = concat (map (\<lambda>m. reply) ms)"

text \<open>A trace without a write that failed or was cut short, and one in which every descriptor has been
  sent what the reference server sends.\<close>

fun whole :: "sys_event \<Rightarrow> bool" where
  "whole (EvWrite f d r) \<longleftrightarrow> r = Inr (length d)"
| "whole _ \<longleftrightarrow> True"

abbreviation complete :: "sys_event list \<Rightarrow> bool" where
  "complete tr \<equiv> list_all whole tr"

definition balanced :: "sys_event list \<Rightarrow> bool" where
  "balanced tr \<longleftrightarrow> (\<forall>f. sent f tr = replies (msgs_from f tr))"

text \<open>A kernel that takes every write as a whole.\<close>

definition full_writes :: "os \<Rightarrow> bool" where
  "full_writes os \<longleftrightarrow> (\<forall>tr f d. os_write os tr f d = Inr (length d))"

text \<open>A trace that goes on with messages and their answers.\<close>

definition talks_on :: "os \<Rightarrow> sys_event list \<Rightarrow> sys_event list \<Rightarrow> bool" where
  "talks_on os tr tr' \<longleftrightarrow> (\<exists>evs. tr' = tr @ evs \<and> answered evs \<and> (complete evs \<longrightarrow> balanced evs)
     \<and> (full_writes os \<longrightarrow> complete evs))"

section \<open>Lemmas\<close>

lemma msgs_from_append [simp]: "msgs_from f (tr @ tr') = msgs_from f tr @ msgs_from f tr'"
  by (simp add: msgs_from_def)

fun data_read :: "sys_event \<Rightarrow> bool" where
  "data_read (EvReadv f iov (Inr d)) = (d \<noteq> [])"
| "data_read _ = False"

lemma received_msgs: "received f tr = concat (msgs_from f tr)"
proof (induction tr)
  case (Cons ev tr)
  have "received_by f ev = concat (msgs_by f ev)" by (cases ev rule: data_read.cases) auto
  with Cons show ?case by (simp add: received_def msgs_from_def)
qed (simp add: received_def msgs_from_def)

lemma replies_append [simp]: "replies (ms @ ms') = replies ms @ replies ms'"
  by (simp add: replies_def)

lemma balanced_append: "balanced tr \<Longrightarrow> balanced tr' \<Longrightarrow> balanced (tr @ tr')"
  by (simp add: balanced_def)

lemma answered_append:
  assumes "answered tr" "answered tr'"
  shows "answered (tr @ tr')"
  unfolding answered_def
proof (intro allI impI, elim conjE)
  fix n f iov d
  assume n: "n < length (tr @ tr')" "(tr @ tr') ! n = EvReadv f iov (Inr d)" "d \<noteq> []"
  show "Suc n < length (tr @ tr') \<and> (\<exists>r. (tr @ tr') ! Suc n = EvWrite f reply r)"
  proof (cases "n < length tr")
    case True
    with n assms(1) have "Suc n < length tr \<and> (\<exists>r. tr ! Suc n = EvWrite f reply r)"
      unfolding answered_def by (metis nth_append)
    then show ?thesis by (auto simp: nth_append)
  next
    case False
    with n assms(2) have "Suc (n - length tr) < length tr' \<and> (\<exists>r. tr' ! Suc (n - length tr) = EvWrite f reply r)"
      unfolding answered_def by (metis add_diff_inverse_nat length_append nat_add_left_cancel_less nth_append)
    with False show ?thesis by (auto simp: nth_append Suc_diff_le)
  qed
qed

lemma answered_unread: "\<forall>ev \<in> set evs. \<not> data_read ev \<Longrightarrow> answered evs"
  unfolding answered_def by (metis data_read.simps(1) nth_mem)

text \<open>Calls that neither bring data nor write.\<close>

fun uneventful :: "sys_event \<Rightarrow> bool" where
  "uneventful (EvReadv f iov (Inr d)) = (d = [])"
| "uneventful (EvWrite f d r) = False"
| "uneventful _ = True"

lemma uneventful_unread: "uneventful ev \<Longrightarrow> \<not> data_read ev"
  by (cases ev rule: data_read.cases) auto

lemma plain_uneventful: "plain ev \<Longrightarrow> uneventful ev"
  by (cases ev rule: uneventful.cases) auto

lemma uneventful_books: "uneventful ev \<Longrightarrow> sent_by f ev = [] \<and> msgs_by f ev = []"
  by (cases ev rule: uneventful.cases) auto

lemma uneventful_answered: "\<forall>ev \<in> set evs. uneventful ev \<Longrightarrow> answered evs"
  by (rule answered_unread) (blast dest: uneventful_unread)

lemma uneventful_balanced: "\<forall>ev \<in> set evs. uneventful ev \<Longrightarrow> balanced evs"
proof -
  assume "\<forall>ev \<in> set evs. uneventful ev"
  then have "sent f evs = []" "msgs_from f evs = []" for f
    by (auto simp: sent_def msgs_from_def uneventful_books)
  then show "balanced evs" by (simp add: balanced_def replies_def)
qed

lemma uneventful_complete: "\<forall>ev \<in> set evs. uneventful ev \<Longrightarrow> complete evs"
proof -
  have "whole ev" if "uneventful ev" for ev using that by (cases ev) auto
  then show "\<forall>ev \<in> set evs. uneventful ev \<Longrightarrow> complete evs" by (auto simp: list_all_iff)
qed

lemma talks_on_refl [simp]: "talks_on os tr tr"
  by (simp add: talks_on_def uneventful_answered uneventful_balanced uneventful_complete)

lemma talks_on_trans [trans]:
  assumes "talks_on os tr tr'" and "talks_on os tr' tr''"
  shows "talks_on os tr tr''"
proof -
  obtain evs evs' where E: "tr' = tr @ evs" "answered evs" "complete evs \<longrightarrow> balanced evs"
    "full_writes os \<longrightarrow> complete evs" "full_writes os \<longrightarrow> complete evs'"
    "tr'' = tr' @ evs'" "answered evs'" "complete evs' \<longrightarrow> balanced evs'"
    using assms unfolding talks_on_def by blast
  then have "answered (evs @ evs')" "complete (evs @ evs') \<longrightarrow> balanced (evs @ evs')"
    by (auto intro: answered_append balanced_append)
  with E show ?thesis by (auto simp: talks_on_def)
qed

lemma talks_on_answered: "talks_on os tr tr' \<Longrightarrow> answered tr \<Longrightarrow> answered tr'"
  by (auto simp: talks_on_def answered_append)

lemma talks_on_balanced: "talks_on os tr tr' \<Longrightarrow> (complete tr \<longrightarrow> balanced tr) \<Longrightarrow> (complete tr' \<longrightarrow> balanced tr')"
  by (auto simp: talks_on_def balanced_append)

lemma talks_on_call [simp]: "\<forall>ev \<in> set evs. uneventful ev \<Longrightarrow> talks_on os tr (tr @ evs)"
  by (auto simp: talks_on_def uneventful_answered uneventful_balanced uneventful_complete)

lemma quietly_talks_on: "quietly tr tr' \<Longrightarrow> talks_on os tr tr'"
  by (auto simp: quietly_def plain_uneventful)

lemma talks_on_reply:
  assumes "\<forall>ev \<in> set evs. plain ev" and d: "d \<noteq> []" and r: "full_writes os \<Longrightarrow> r = Inr (length reply)"
  shows "talks_on os tr (tr @ EvReadv f iov (Inr d) # EvWrite f reply r # evs)"
proof -
  let ?talk = "[EvReadv f iov (Inr d), EvWrite f reply r]"
  have "answered ?talk" by (auto simp: answered_def less_Suc_eq nth_Cons split: nat.splits)
  moreover have "complete ?talk \<longrightarrow> balanced ?talk"
    using d by (auto simp: balanced_def sent_def msgs_from_def replies_def)
  moreover have "full_writes os \<longrightarrow> complete ?talk" using r by simp
  ultimately have "talks_on os tr (tr @ ?talk)" unfolding talks_on_def by blast
  also have "talks_on os (tr @ ?talk) ((tr @ ?talk) @ evs)" using assms(1) plain_uneventful by (intro talks_on_call) blast
  finally show ?thesis by simp
qed

end
