(* ===== verification/Server_Run.thy ===== *)
theory Server_Run
  imports Conversation
begin

unbundle bit_operations_syntax

text \<open>
  Whole runs of the program of \<^verbatim>\<open>netlib/main.cpp\<close>: the server, its loop, the poller, the
  channels, the connections and the callbacks of \<^verbatim>\<open>main.cpp\<close> together. The invariant
  \<open>server_ok\<close> says what is true of the server between two events; it is established by
  \<^verbatim>\<open>start\<close> and kept by every pass of the loop, without a fault, as long as the kernel keeps to
  its documentation and no peer hangs up.
\<close>

section \<open>The kernel\<close>

text \<open>What the documentation of the system calls promises: \<^verbatim>\<open>epoll_wait\<close> and \<^verbatim>\<open>epoll_ctl\<close> follow
  the interest list, a new descriptor is not one that is open, \<^verbatim>\<open>readv\<close> does not return more than
  the vectors hold, and \<^verbatim>\<open>write\<close> does not take more than it is given.\<close>

definition kernel_contract :: "os \<Rightarrow> bool" where
  "kernel_contract os \<longleftrightarrow> wait_contract os
     \<and> (\<forall>ep f. 0 \<le> ep \<longrightarrow> 0 \<le> f \<longrightarrow> ctl_works os ep f)
     \<and> (\<forall>tr f. os_epoll_create os tr = Inr f \<longrightarrow> 0 \<le> f)
     \<and> (\<forall>tr f. os_socket os tr = Inr f \<longrightarrow> 0 \<le> f \<and> f \<notin> open_fds tr)
     \<and> (\<forall>tr g f a. os_accept os tr g = Inr (f, a) \<longrightarrow> 0 \<le> f \<and> f \<notin> open_fds tr)
     \<and> (\<forall>tr f iov d. os_readv os tr f iov = Inr d \<longrightarrow> length d \<le> sum_list iov)
     \<and> (\<forall>tr f d n. os_write os tr f d = Inr n \<longrightarrow> n \<le> length d)"

text \<open>A run in which nothing goes wrong outside the program: there are descriptors for the epoll
  instance, the listening socket and every connection that is announced, \<^verbatim>\<open>listen\<close> succeeds, and
  no peer hangs up: a read never meets the end of the stream, and a hang-up is never reported
  without input. Reads and writes may still fail or be partial.\<close>

definition undisturbed :: "os \<Rightarrow> bool" where
  "undisturbed os \<longleftrightarrow>
     (\<forall>tr. \<exists>f. os_epoll_create os tr = Inr f) \<and> (\<forall>tr. \<exists>f. os_socket os tr = Inr f)
     \<and> (\<forall>tr g. \<exists>f a. os_accept os tr g = Inr (f, a)) \<and> (\<forall>tr f n. os_listen os tr f n = None)
     \<and> (\<forall>tr f iov. os_readv os tr f iov \<noteq> Inr [])
     \<and> (\<forall>tr ep n timeout evs. os_epoll_wait os tr ep n timeout = Inr evs \<longrightarrow>
          (\<forall>(ev, p) \<in> set evs. has ev EPOLLHUP \<longrightarrow> has ev EPOLLIN))"

section \<open>The invariant\<close>

text \<open>The input buffer between two events: it has been emptied, and it never grows past its
  first spill of the 64 KB stack buffer.\<close>

definition input_ok :: "buffer \<Rightarrow> bool" where
  "input_ok b \<longleftrightarrow> buffer_ok b \<and> writerIndex b = kCheapPrepend \<and> length (buf b) \<le> 8 + 2 * extrabuf_size"

text \<open>A socket \<open>i\<close> of the server and its channel. \<open>A\<close> are the channels whose events of the current
  pass are still to be handled: each event adds at most nine bytes of pending output.\<close>

definition served ::
    "ptr set \<Rightarrow> main_cb server \<Rightarrow> ptr \<Rightarrow> main_cb server_cb socket \<Rightarrow> server_bind chan_cb channel \<Rightarrow> bool" where
  "served A s i k c \<longleftrightarrow>
     ch_fd c = sock_fd k \<and> ch_index c = kAdded \<and> has (ch_events c) kReadEvent
     \<and> 0 \<le> sock_fd k \<and> sock_fd k \<in> open_fds (trace s) \<and> 0 < refs k
     \<and> sockWriteCallback k = None \<and> errorCallback c = None
     \<and> writeCallback c = Some (Socket_handleWrite i)
     \<and> input_ok (inputBuffer k) \<and> buffer_ok (outputBuffer k)
     \<and> used_bytes (outputBuffer k) + (if sock_chan k \<in> A then 9 else 0)
         \<le> 8 + 9 * busy_waits (trace s)
     \<and> (if acceptor s = Some i
        then readCallback c = Some (Other Server_accept)
          \<and> closeCallback c = Some (Other Server_acceptorClose)
        else readCallback c = Some (Socket_handleRead i) \<and> connections s (sock_fd k) = Some i
          \<and> messageCallback k = Some (User Message)
          \<and> sockCloseCallback k = Some Server_connectionClose \<and> closeCallback c = Some (Socket_handleClose i)
          \<and> (has (ch_revents c) EPOLLHUP \<longrightarrow> has (ch_revents c) EPOLLIN))"

text \<open>The acceptor is the first object that is created.\<close>

definition main_acceptor :: ptr where
  "main_acceptor = 1"

text \<open>The objects of the server: the acceptor is there, every socket is served and owns its
  channel, there is no other channel, and the map of connections points to sockets.\<close>

definition objects_ok :: "ptr set \<Rightarrow> main_cb server \<Rightarrow> bool" where
  "objects_ok A s \<longleftrightarrow>
     acceptor s = Some main_acceptor \<and> socks s main_acceptor \<noteq> None \<and> A \<subseteq> dom (chans s)
     \<and> (\<forall>i k. socks s i = Some k \<longrightarrow>
          i < nextptr s \<and> (\<exists>c. chans s (sock_chan k) = Some c \<and> served A s i k c))
     \<and> (\<forall>i j k l. socks s i = Some k \<longrightarrow> socks s j = Some l \<longrightarrow> sock_chan k = sock_chan l \<longrightarrow> i = j)
     \<and> (\<forall>p c. chans s p = Some c \<longrightarrow> p < nextptr s \<and> (\<exists>i k. socks s i = Some k \<and> sock_chan k = p))
     \<and> (\<forall>f i. connections s f = Some i \<longrightarrow> i \<noteq> main_acceptor \<and> (\<exists>k. socks s i = Some k \<and> sock_fd k = f))"

definition server_ok :: "ptr set \<Rightarrow> main_cb server \<Rightarrow> bool" where
  "server_ok A s \<longleftrightarrow> poller_ok s \<and> 0 \<le> epollfd s
     \<and> length (pevents s) = 16 * 2 ^ busy_waits (trace s) \<and> busy_waits (trace s) \<le> 27
     \<and> pendingFunctors s = [] \<and> connectionCallback s = Some NewConn
     \<and> srvMessageCallback s = Some Message \<and> writeCompleteCallback s = None
     \<and> srvCloseCallback s = Some Cclose \<and> objects_ok A s"

text \<open>Between two events the map is the only owner of a connection.\<close>

definition sole :: "(ptr \<rightharpoonup> main_cb server_cb socket) \<Rightarrow> bool" where
  "sole m \<longleftrightarrow> (\<forall>i k. m i = Some k \<longrightarrow> i \<noteq> main_acceptor \<longrightarrow> refs k = 1)"

text \<open>As long as no write has been cut short, no output is pending and every connection has been sent what the
  reference server sends.\<close>

definition flushed :: "(ptr \<rightharpoonup> main_cb server_cb socket) \<Rightarrow> bool" where
  "flushed m \<longleftrightarrow> (\<forall>i k. m i = Some k \<longrightarrow> readableBytes (outputBuffer k) = 0)"

definition paid_up :: "(ptr \<rightharpoonup> main_cb server_cb socket) \<Rightarrow> sys_event list \<Rightarrow> bool" where
  "paid_up m tr \<longleftrightarrow> (complete tr \<longrightarrow> flushed m \<and> balanced tr)"

text \<open>The states that the loop passes through, and what every event keeps.\<close>

definition at_rest :: "os \<Rightarrow> main_cb server \<Rightarrow> bool" where
  "at_rest os s \<longleftrightarrow> server_ok {} s \<and> sole (socks s) \<and> answered (trace s) \<and> paid_up (socks s) (trace s)
     \<and> (full_writes os \<longrightarrow> complete (trace s))"

definition goes_on :: "os \<Rightarrow> main_cb server \<Rightarrow> main_cb server \<Rightarrow> bool" where
  "goes_on os s s' \<longleftrightarrow>
     (\<exists>evs. trace s' = trace s @ evs \<and> answered evs \<and> (full_writes os \<longrightarrow> complete evs))
     \<and> (sole (socks s) \<longrightarrow> sole (socks s')) \<and> (paid_up (socks s) (trace s) \<longrightarrow> paid_up (socks s') (trace s'))"

section \<open>Lemmas on traces\<close>

text \<open>Traces with the same descriptors and the same reports.\<close>

definition steadily :: "sys_event list \<Rightarrow> sys_event list \<Rightarrow> bool" where
  "steadily tr tr' \<longleftrightarrow> open_fds tr' = open_fds tr \<and> busy_waits tr' = busy_waits tr"

lemma steadily_simps [simp]:
  "steadily tr tr" "plain ev \<Longrightarrow> steadily tr (tr @ [ev])" "steadily tr (tr @ [EvReadv f iov r])"
  "steadily tr (tr @ [EvWrite f d r'])"
  by (cases ev; simp add: steadily_def)+

lemma quietly_steadily: "quietly tr tr' \<Longrightarrow> steadily tr tr'"
  by (simp add: steadily_def quietly_open_fds quietly_busy_waits)

lemma goes_on_refl [simp]: "goes_on os s s"
  by (simp add: goes_on_def answered_def)

lemma goes_on_trans [trans]: "goes_on os s s' \<Longrightarrow> goes_on os s' s'' \<Longrightarrow> goes_on os s s''"
  unfolding goes_on_def
proof (intro conjI; (elim conjE exE)?)
  fix evs evs'
  assume "trace s' = trace s @ evs" "answered evs" "full_writes os \<longrightarrow> complete evs"
    and "trace s'' = trace s' @ evs'" "answered evs'" "full_writes os \<longrightarrow> complete evs'"
  then show "\<exists>evs. trace s'' = trace s @ evs \<and> answered evs \<and> (full_writes os \<longrightarrow> complete evs)"
    by (intro exI[of _ "evs @ evs'"]) (simp add: answered_append)
qed blast+

lemma goes_on_simps [simp]:
  "goes_on os (s\<lparr>chans := m\<rparr>) s' = goes_on os s s'" "goes_on os s (s'\<lparr>chans := m\<rparr>) = goes_on os s s'"
  "goes_on os s (s'\<lparr>quit_flag := b\<rparr>) = goes_on os s s'"
  by (simp_all add: goes_on_def)

lemma at_rest_goes_on:
  "at_rest os s \<Longrightarrow> goes_on os s s' \<Longrightarrow> server_ok {} s' \<Longrightarrow> at_rest os s'"
  by (auto simp: at_rest_def goes_on_def answered_append)

text \<open>One socket is replaced by another with as many owners.\<close>

lemma sole_upd: "m i = Some k \<Longrightarrow> refs k' = refs k \<Longrightarrow> sole m \<Longrightarrow> sole (m(i \<mapsto> k'))"
  by (auto simp: sole_def split: if_splits)

text \<open>A trace that goes on keeps the books, whatever the sockets are, as long as their output buffers
  stay empty.\<close>

lemma paid_up_talk:
  assumes talk: "talks_on os tr tr'" and st: "paid_up m tr"
    and quiet: "complete tr' \<Longrightarrow> flushed m \<Longrightarrow> flushed m'"
  shows "paid_up m' tr'"
  unfolding paid_up_def
proof (intro impI conjI)
  assume c: "complete tr'"
  then have "complete tr" using talk by (auto simp: talks_on_def)
  with st have m: "flushed m" "balanced tr" by (auto simp: paid_up_def)
  show "balanced tr'" using talks_on_balanced[OF talk] c m(2) by blast
  show "flushed m'" by (rule quiet[OF c m(1)])
qed

lemma goes_on_upd:
  assumes talk: "talks_on os (trace s) (trace s')" and k: "socks s i = Some k"
    and upd: "socks s' = (socks s)(i \<mapsto> k')" "refs k' = refs k"
    and quiet: "complete (trace s') \<Longrightarrow> readableBytes (outputBuffer k) = 0 \<Longrightarrow> readableBytes (outputBuffer k') = 0"
  shows "goes_on os s s'"
proof -
  have "paid_up (socks s') (trace s')" if "paid_up (socks s) (trace s)"
    by (rule paid_up_talk[OF talk that]) (use k quiet in \<open>auto simp: upd(1) flushed_def split: if_splits\<close>)
  then show ?thesis
    using talk sole_upd[of "socks s" i k k'] k upd by (auto simp: goes_on_def talks_on_def)
qed

lemma goes_on_same:
  assumes talk: "talks_on os (trace s) (trace s')" and same: "socks s' = socks s"
  shows "goes_on os s s'"
proof -
  have "paid_up (socks s') (trace s')" if "paid_up (socks s) (trace s)"
    by (rule paid_up_talk[OF talk that]) (simp add: same)
  then show ?thesis using talk by (auto simp: goes_on_def same talks_on_def)
qed

lemma goes_on_new:
  assumes talk: "talks_on os (trace s) (trace s')"
    and new: "socks s' = (socks s)(i \<mapsto> k)" "refs k = 1" "readableBytes (outputBuffer k) = 0"
  shows "goes_on os s s'"
proof -
  have "paid_up (socks s') (trace s')" if "paid_up (socks s) (trace s)"
    by (rule paid_up_talk[OF talk that]) (use new in \<open>auto simp: flushed_def split: if_splits\<close>)
  then show ?thesis using talk new by (auto simp: goes_on_def talks_on_def sole_def)
qed

text \<open>A write of what is pending: there is nothing pending as long as no write has been cut short.\<close>

lemma goes_on_flush:
  assumes k: "socks s i = Some k" and pend: "d = [] \<longleftrightarrow> readableBytes (outputBuffer k) = 0"
    and s': "trace s' = trace s @ [EvWrite f d r]" "socks s' = (socks s)(i \<mapsto> k')" "refs k' = refs k"
    and same: "d = [] \<Longrightarrow> k' = k" and r: "full_writes os \<Longrightarrow> r = Inr (length d)"
  shows "goes_on os s s'"
proof -
  have "paid_up (socks s') (trace s')" if st: "paid_up (socks s) (trace s)"
  proof (cases "complete (trace s)")
    case True
    with st k have d: "d = []" by (auto simp: paid_up_def flushed_def pend)
    have "balanced [EvWrite f d r]" unfolding d
      by (cases r) (auto simp: balanced_def sent_def msgs_from_def replies_def)
    with True st have "balanced (trace s')" unfolding s'(1) by (auto simp: paid_up_def intro: balanced_append)
    moreover have "flushed (socks s')" using True st same[OF d] k by (simp add: paid_up_def s' fun_upd_idem)
    ultimately show ?thesis by (simp add: paid_up_def)
  qed (simp add: paid_up_def s')
  moreover have "answered [EvWrite f d r]" by (rule answered_unread) simp
  moreover have "full_writes os \<longrightarrow> complete [EvWrite f d r]" using r by simp
  ultimately show ?thesis using sole_upd[of "socks s" i k k'] k s' by (auto simp: goes_on_def)
qed

section \<open>Lemmas on the invariant\<close>

lemma objects_okD:
  assumes "objects_ok A s"
  shows "acceptor s = Some main_acceptor \<and> (\<exists>k. socks s main_acceptor = Some k)"
    and "socks s i = Some k \<Longrightarrow> \<exists>c. chans s (sock_chan k) = Some c \<and> served A s i k c"
    and "socks s i = Some k \<Longrightarrow> i < nextptr s"
    and "chans s p = Some c \<Longrightarrow> p < nextptr s \<and> (\<exists>i k. socks s i = Some k \<and> sock_chan k = p)"
    and "connections s f = Some i \<Longrightarrow> \<exists>k. socks s i = Some k \<and> sock_fd k = f"
    and "socks s i = Some k \<Longrightarrow> socks s j = Some l \<Longrightarrow> sock_chan k = sock_chan l \<Longrightarrow> i = j"
    and "A \<subseteq> dom (chans s)"
    and "connections s f = Some i \<Longrightarrow> i \<noteq> main_acceptor"
  using assms unfolding objects_ok_def by blast+

lemma server_okD:
  assumes "server_ok A s"
  shows "poller_ok s" "0 \<le> epollfd s" "pendingFunctors s = []" "objects_ok A s"
    "length (pevents s) = 16 * 2 ^ busy_waits (trace s)" "busy_waits (trace s) \<le> 27"
    "connectionCallback s = Some NewConn" "srvMessageCallback s = Some Message"
    "writeCompleteCallback s = None" "srvCloseCallback s = Some Cclose"
  using assms unfolding server_ok_def by blast+

lemma served_mono:
  assumes "served A s i k c" and "B \<subseteq> A" and "steadily (trace s) (trace s')"
    and "acceptor s' = acceptor s" and "connections s' = connections s"
  shows "served B s' i k c"
  using assms by (auto simp: served_def steadily_def split: if_splits)

text \<open>One socket and its channel may be replaced by others that are as good.\<close>

lemma objects_ok_upd:
  assumes ok: "objects_ok A s" and k: "socks s i = Some k" and B: "B \<subseteq> A"
    and tr: "steadily (trace s) (trace s')"
    and chans: "chans s' = (chans s)(sock_chan k \<mapsto> c')"
    and socks: "socks s' = (socks s)(i \<mapsto> k')" "sock_chan k' = sock_chan k" "sock_fd k' = sock_fd k"
    and same: "nextptr s' = nextptr s" "connections s' = connections s" "acceptor s' = acceptor s"
    and served: "served B s' i k' c'"
  shows "objects_ok B s'"
proof -
  note D = objects_okD[OF ok]
  have "\<exists>c. chans s' (sock_chan l) = Some c \<and> served B s' j l c" if "socks s' j = Some l" for j l
  proof (cases "j = i")
    case True
    with that have "l = k'" by (simp add: socks)
    with True served socks(2) show ?thesis by (simp add: chans)
  next
    case False
    with that have l: "socks s j = Some l" by (simp add: socks)
    with False D(6)[OF k l] have "sock_chan l \<noteq> sock_chan k" by auto
    with D(2)[OF l] show ?thesis using served_mono[OF _ B tr same(3,2)] by (auto simp: chans)
  qed
  moreover have "\<exists>j l. socks s' j = Some l \<and> sock_chan l = p" if "chans s' p = Some c" for p c
  proof -
    have "chans s p \<noteq> None" using that D(2)[OF k] by (auto simp: chans split: if_splits)
    then obtain j l where "socks s j = Some l" "sock_chan l = p" using D(4) by blast
    then show ?thesis using k socks(1,2) by (cases "j = i") auto
  qed
  moreover have "p < nextptr s" if "chans s' p = Some c" for p c
    using that D(2)[OF k] D(4) by (auto simp: chans split: if_splits)
  moreover have "j \<noteq> main_acceptor \<and> (\<exists>l. socks s' j = Some l \<and> sock_fd l = f)"
    if "connections s f = Some j" for f j
    using D(5,8)[OF that] k socks by (cases "j = i") auto
  moreover have "acceptor s = Some main_acceptor \<and> socks s' main_acceptor \<noteq> None"
    using D(1) by (auto simp: socks)
  moreover have "j < nextptr s" if "socks s' j = Some l" for j l
    using that D(3) k by (auto simp: socks split: if_splits)
  moreover have "j = j'" if "socks s' j = Some l" "socks s' j' = Some l'" "sock_chan l = sock_chan l'"
    for j j' l l'
    using that D(6) k socks(2) by (auto simp: socks(1) split: if_splits)
  moreover have "B \<subseteq> dom (chans s')" using B D(7) by (auto simp: chans)
  ultimately show ?thesis unfolding objects_ok_def same by blast
qed

lemma server_ok_upd:
  assumes ok: "server_ok A s" and k: "socks s i = Some k" and B: "B \<subseteq> A"
    and pok: "poller_ok s'" and tr: "steadily (trace s) (trace s')"
    and fields: "pevents s' = pevents s" "epollfd s' = epollfd s"
      "chans s' = (chans s)(sock_chan k \<mapsto> c')"
      "poller.more s' = poller.more (s\<lparr>socks := (socks s)(i \<mapsto> k')\<rparr>)"
      "sock_chan k' = sock_chan k" "sock_fd k' = sock_fd k"
    and served: "served B s i k' c'"
  shows "server_ok B s'"
proof -
  note D = server_okD[OF ok] and F = server_frame[OF fields(4)]
  have "served B s' i k' c'" by (rule served_mono[OF served order.refl tr]) (simp_all add: F)
  with objects_ok_upd[OF D(4) k B tr fields(3) _ fields(5,6)] F have "objects_ok B s'" by simp
  with D pok tr F fields(1,2) show ?thesis by (simp add: server_ok_def steadily_def)
qed

text \<open>A change of the channel's mask that leaves the read bits.\<close>

lemma server_ok_change:
  assumes ok: "server_ok A s" and kc: "kernel_contract os" and k: "socks s i = Some k"
    and m: "\<forall>m. has m kReadEvent \<longrightarrow> has (f m) kReadEvent"
  shows "yields (change_events os f (sock_chan k) s) (\<lambda>s'. server_ok A s' \<and> socks s' = socks s
    \<and> dom (chans s') = dom (chans s) \<and> quietly (trace s) (trace s'))"
proof -
  note D = server_okD[OF ok]
  obtain c where c: "chans s (sock_chan k) = Some c" and sv: "served A s i k c"
    using objects_okD(2)[OF D(4) k] by blast
  let ?c = "c\<lparr>ch_events := f (ch_events c)\<rparr>"
  have us: "usable os s (sock_chan k)"
    using c sv kc D(2) by (simp add: usable_def served_def kernel_contract_def)
  have none: "\<not> isNoneEvent ?c" using m sv by (auto simp: served_def isNoneEvent_def kNoneEvent_def)
  have idx: "index_after ?c = kAdded" using none sv by (simp add: index_after_def served_def)
  have "yields (change_events os f (sock_chan k) s) (\<lambda>s'. poller_ok s'
      \<and> chans s' = (chans s)(sock_chan k \<mapsto> ?c\<lparr>ch_index := kAdded\<rparr>) \<and> pevents s' = pevents s
      \<and> epollfd s' = epollfd s \<and> poller.more s' = poller.more s \<and> quietly (trace s) (trace s'))"
    using yields_conj[OF change_events_ok[OF D(1) us c refl, of f] change_total[OF c, of os f]]
    by (auto simp: idx elim!: yields_mono)
  then show ?thesis
  proof (rule yields_mono, elim conjE)
    fix s'
    assume s': "poller_ok s'" "chans s' = (chans s)(sock_chan k \<mapsto> ?c\<lparr>ch_index := kAdded\<rparr>)"
      "pevents s' = pevents s" "epollfd s' = epollfd s" "poller.more s' = poller.more s"
      "quietly (trace s) (trace s')"
    have "poller.more s' = poller.more (s\<lparr>socks := (socks s)(i \<mapsto> k)\<rparr>)"
      using s'(5) k by (cases s) (simp add: fun_upd_idem)
    moreover have "served A s i k (?c\<lparr>ch_index := kAdded\<rparr>)" using sv m by (simp add: served_def)
    ultimately have "server_ok A s'"
      using server_ok_upd[OF ok k order.refl s'(1) quietly_steadily[OF s'(6)] s'(3,4,2)] by simp
    then show "server_ok A s' \<and> socks s' = socks s \<and> dom (chans s') = dom (chans s) \<and> quietly (trace s) (trace s')"
      using s'(2,6) c server_frame(1)[OF s'(5)] by auto
  qed
qed

text \<open>A call that is only recorded, and a socket that is replaced.\<close>

lemma server_ok_record:
  assumes ok: "server_ok A s" and "\<And>tr. steadily tr (tr @ [ev])" and reg: "registered (record_call ev err s) = registered s"
    and k: "socks s i = Some k" and B: "B \<subseteq> A" and k': "sock_chan k' = sock_chan k" "sock_fd k' = sock_fd k"
    and sv: "\<And>c. served A s i k c \<Longrightarrow> served B s i k' c"
  shows "server_ok B ((record_call ev err s)\<lparr>socks := (socks s)(i \<mapsto> k')\<rparr>)"
proof -
  note D = server_okD[OF ok]
  obtain c where c: "chans s (sock_chan k) = Some c" and s: "served A s i k c"
    using objects_okD(2)[OF D(4) k] by blast
  have "poller_ok ((record_call ev err s)\<lparr>socks := (socks s)(i \<mapsto> k')\<rparr>)"
    by (rule poller_ok_frame[OF D(1)]) (use reg in \<open>simp_all add: registered_def\<close>)
  moreover have "poller.more ((record_call ev err s)\<lparr>socks := m\<rparr>) = poller.more (s\<lparr>socks := m\<rparr>)" for m
    by (cases s) (simp add: record_call_def)
  ultimately show ?thesis
    using c k' sv[OF s] assms(2) by (intro server_ok_upd[OF ok k B]) (simp_all add: fun_upd_idem)
qed

lemma server_ok_sock:
  assumes ok: "server_ok A s" and k: "socks s i = Some k" and B: "B \<subseteq> A"
    and k': "sock_chan k' = sock_chan k" "sock_fd k' = sock_fd k"
    and sv: "\<And>c. served A s i k c \<Longrightarrow> served B s i k' c"
  shows "server_ok B (s\<lparr>socks := (socks s)(i \<mapsto> k')\<rparr>)"
proof -
  note D = server_okD[OF ok]
  obtain c where c: "chans s (sock_chan k) = Some c" and s: "served A s i k c"
    using objects_okD(2)[OF D(4) k] by blast
  have "poller_ok (s\<lparr>socks := (socks s)(i \<mapsto> k')\<rparr>)"
    by (rule poller_ok_frame[OF D(1)]) (simp_all add: registered_def)
  then show ?thesis
    by (rule server_ok_upd[OF ok k B]) (use c k' sv[OF s] in \<open>simp_all add: fun_upd_idem\<close>)
qed

lemma server_ok_mono:
  assumes "server_ok A s" and "B \<subseteq> A"
  shows "server_ok B s"
proof -
  obtain a k where k: "socks s a = Some k" using objects_okD(1)[OF server_okD(4)[OF assms(1)]] by blast
  have "s\<lparr>socks := (socks s)(a \<mapsto> k)\<rparr> = s" using k by (simp add: fun_upd_idem)
  with server_ok_sock[OF assms(1) k assms(2) refl refl served_mono[OF _ assms(2)]] show ?thesis by simp
qed

lemma server_ok_call:
  assumes "server_ok A s" and "\<And>tr. steadily tr (tr @ [ev])" and "registered (record_call ev err s) = registered s"
  shows "server_ok A (record_call ev err s)"
proof -
  obtain a k where k: "socks s a = Some k" using objects_okD(1)[OF server_okD(4)[OF assms(1)]] by blast
  have "(record_call ev err s)\<lparr>socks := (socks s)(a \<mapsto> k)\<rparr> = record_call ev err s"
    using k by (simp add: fun_upd_idem record_call_def)
  with server_ok_record[OF assms k order.refl refl refl] show ?thesis by simp
qed

section \<open>The handlers of a connection\<close>

lemma has_enabled:
  "\<forall>m. has m kReadEvent \<longrightarrow> has (op_mask EnableWriting m) kReadEvent"
  "\<forall>m. has m kReadEvent \<longrightarrow> has (op_mask DisableWriting m) kReadEvent"
proof -
  have "NOT kWriteEvent AND kReadEvent = kReadEvent" by (simp add: kReadEvent_def kWriteEvent_def)
  then show "\<forall>m. has m kReadEvent \<longrightarrow> has (op_mask DisableWriting m) kReadEvent"
    by (simp add: has_def and.assoc)
qed (simp add: has_or_left)

text \<open>The rest of a reply that is queued fits the output buffer.\<close>

lemma rest_of_reply:
  assumes sv: "served A s i k c" and p: "sock_chan k \<in> A" and bw: "busy_waits (trace s) \<le> 27" and n: "n < 9"
  obtains b where "append_data (drop n reply) (of_nat (9 - n)) (outputBuffer k) = Inr b" and "buffer_ok b"
    and "used_bytes b \<le> 8 + 9 * busy_waits (trace s)"
proof -
  have len: "length reply = 9" by (simp add: reply_def)
  have w: "used_bytes (outputBuffer k) + 9 \<le> 8 + 9 * busy_waits (trace s)"
    and bok: "buffer_ok (outputBuffer k)" using sv p by (auto simp: served_def)
  have "room (length (drop n reply)) (outputBuffer k)"
    using w bw by (simp add: room_def used_bytes_def vec_max_def len)
  moreover have "unat (of_nat (9 - n) :: size_t) = length (drop n reply)"
    using len by (simp add: vec_max_def)
  ultimately obtain b where "append_data (drop n reply) (of_nat (9 - n)) (outputBuffer k) = Inr b"
      "buffer_ok b" "unat (writerIndex b) \<le> unat (writerIndex (outputBuffer k)) + (9 - n)"
    using append_data_spec[OF bok, of "of_nat (9 - n)" "drop n reply"] len by (auto elim!: yieldsE)
  moreover from this(3) w have "used_bytes b \<le> 8 + 9 * busy_waits (trace s)" by (simp add: used_bytes_def)
  ultimately show ?thesis using that by blast
qed

lemma Send_server:
  assumes ok: "server_ok A s" and kc: "kernel_contract os" and k: "socks s i = Some k"
    and p: "sock_chan k \<in> A"
  shows "yields (Send os i reply s) (\<lambda>(ret, s'). server_ok (A - {sock_chan k}) s'
    \<and> dom (chans s') = dom (chans s)
    \<and> (\<exists>b r evs. socks s' = (socks s)(i \<mapsto> k\<lparr>outputBuffer := b\<rparr>)
        \<and> trace s' = trace s @ EvWrite (sock_fd k) reply r # evs \<and> (\<forall>ev \<in> set evs. plain ev)
        \<and> (r = Inr (length reply) \<longrightarrow> b = outputBuffer k) \<and> (full_writes os \<longrightarrow> r = Inr (length reply))))"
proof -
  let ?B = "A - {sock_chan k}"
  note D = server_okD[OF ok]
  obtain c where c: "chans s (sock_chan k) = Some c" and sv: "served A s i k c"
    using objects_okD(2)[OF D(4) k] by blast
  have len: "length reply = 9" by (simp add: reply_def)
  have same: "(socks s)(i \<mapsto> k) = socks s" "k\<lparr>outputBuffer := outputBuffer k\<rparr> = k"
    using k by (simp_all add: fun_upd_idem)
  let ?r = "os_write os (trace s) (ch_fd c) reply"
  let ?s1 = "record_call (EvWrite (ch_fd c) reply ?r) (err_of ?r) s"
  have ok1: "server_ok A ?s1" by (rule server_ok_call[OF ok]) simp_all
  have k1: "socks ?s1 i = Some k" using k by simp
  have fd: "sock_fd k = ch_fd c" using sv by (simp add: served_def)
  have fw: "full_writes os \<longrightarrow> ?r = Inr (length reply)" by (simp add: full_writes_def)
  from kc have "?r = Inr n \<Longrightarrow> n \<le> 9" for n
    unfolding kernel_contract_def len[symmetric] by blast
  then consider (full) "?r = Inr 9" | (part) n where "?r = Inr n" "0 < n" "n < 9"
    | (none) "(\<exists>e. ?r = Inl e) \<or> ?r = Inr 0"
    by (cases ?r) (auto simp: le_less)
  then show ?thesis
  proof cases
    case full
    then have "Send os i reply s = Inr (0, ?s1)"
      using k c by (simp add: Send_def sys_write_def Let_def len)
    then show ?thesis using server_ok_mono[OF ok1, of ?B] same fd full len
      by (auto intro!: exI[of _ "outputBuffer k"])
  next
    case part
    obtain b where b: "append_data (drop n reply) (of_nat (9 - n)) (outputBuffer k) = Inr b"
        "buffer_ok b" "used_bytes b \<le> 8 + 9 * busy_waits (trace s)"
      by (rule rest_of_reply[OF sv p D(6) part(3)])
    let ?s2 = "?s1\<lparr>socks := (socks s)(i \<mapsto> k\<lparr>outputBuffer := b\<rparr>)\<rparr>"
    have "Send os i reply s = Inr (0, ?s2)"
      using k c b(1) part by (simp add: Send_def sys_write_def Let_def len)
    moreover have "server_ok ?B ?s2"
      by (rule server_ok_record[OF ok _ _ k]) (use b in \<open>auto simp: served_def\<close>)
    ultimately show ?thesis using fd part len fw by auto
  next
    case none
    then have "Send os i reply s = rbind (if errno ?s1 = EAGAIN then enableWriting os (sock_chan k) ?s1
        else Inr ?s1) (\<lambda>s2. Inr (errno s2, s2))"
      using k c len by (auto simp: Send_def sys_write_def Let_def)
    moreover have "yields (if errno ?s1 = EAGAIN then enableWriting os (sock_chan k) ?s1 else Inr ?s1)
        (\<lambda>s2. server_ok A s2 \<and> socks s2 = socks s \<and> dom (chans s2) = dom (chans s)
          \<and> quietly (trace ?s1) (trace s2))"
      using server_ok_change[OF ok1 kc k1, OF has_enabled(1)] ok1
      by (auto simp: writing_calls simp del: op_mask.simps elim!: yields_mono)
    ultimately show ?thesis using server_ok_mono[of A _ ?B] same fd fw
      by (auto simp: yields_rbind quietly_def elim!: yields_mono intro!: exI[of _ "outputBuffer k"])
  qed
qed

lemma readFd_length:
  assumes b: "input_ok b" and fits: "length d \<le> sum_list (readFd_iov b)"
    and r: "readFd (\<lambda>_. Inr d) b = Inr (n, e, b')"
  shows "length (buf b') \<le> 8 + 2 * extrabuf_size"
proof -
  note ok = b[unfolded input_ok_def]
  have w: "unat (writableBytes b) = length (buf b) - 8" using ok by (simp add: unat_writableBytes)
  obtain m where m: "store (buf b) (beginWrite b) (take (unat (writableBytes b)) d) = Inr m"
    using r by (auto simp: readFd_def Let_def rbind_Inr_iff)
  note lm = store_length[OF m]
  show ?thesis
  proof (cases "length d \<le> unat (writableBytes b)")
    case True
    with r m lm ok show ?thesis by (simp add: readFd_def Let_def) auto
  next
    case False
    with fits have small: "length (buf b) - 8 < extrabuf_size"
      "length d \<le> length (buf b) - 8 + extrabuf_size"
      by (auto simp: readFd_iov_def Let_def w split: if_splits)
    have "append_data (drop (unat (writableBytes b)) d) (of_nat (length d) - writableBytes b)
        (b\<lparr>buf := m, writerIndex := vec_size m\<rparr>) = Inr b'"
      using r m False by (auto simp: readFd_def Let_def rbind_Inr_iff)
    from append_data_length[OF this] have "length (buf b')
        \<le> max (length (buf b)) (unat (vec_size m + (of_nat (length d) - writableBytes b)))"
      by (simp add: lm)
    also have "unat (vec_size m + (of_nat (length d) - writableBytes b)) = 8 + length d"
    proof -
      have d: "length d \<le> 2 * extrabuf_size" using small by simp
      then have ld: "unat (of_nat (length d) :: size_t) = length d"
        by (simp add: extrabuf_size_def vec_max_def)
      have "unat (of_nat (length d) - writableBytes b) = length d - (length (buf b) - 8)"
        using False by (simp add: unat_sub word_le_nat_alt ld w)
      moreover have "unat (vec_size m) = length (buf b)"
        using ok by (simp add: unat_vec_size lm buffer_ok_def)
      moreover have "8 \<le> length (buf b)" using ok by (simp add: buffer_ok_def)
      ultimately show ?thesis
        using False d w ok by (subst unat_add_vec_max) (auto simp: extrabuf_size_def vec_max_def)
    qed
    finally show ?thesis using small ok by auto
  qed
qed

text \<open>Reading: on an error nothing but the trace changes; otherwise the bytes are taken out by the
  message callback, which answers.\<close>

lemma input_ok_all: "buffer_ok b \<Longrightarrow> length (buf b) \<le> 8 + 2 * extrabuf_size \<Longrightarrow> input_ok (retrieveAll b)"
  by (simp add: input_ok_def retrieveAll_ok) (simp add: retrieveAll_def)

lemma handleRead_server_error:
  assumes ok: "server_ok A s" and k: "socks s i = Some k" and c: "chans s (sock_chan k) = Some c"
    and r: "os_readv os (trace s) (ch_fd c) (readFd_iov (inputBuffer k)) = Inl e"
  shows "yields (handleRead os call i s) (\<lambda>s'.
    server_ok (A - {sock_chan k}) s' \<and> dom (chans s') = dom (chans s) \<and> goes_on os s s')"
proof -
  let ?B = "A - {sock_chan k}" and ?b = "inputBuffer k"
  let ?s1 = "record_call (EvReadv (ch_fd c) (readFd_iov ?b) (Inl e)) (Some e) s"
  let ?g = "os_getsockopt os (trace ?s1) (sock_fd k)"
  have same: "(socks s)(i \<mapsto> k) = socks s" using k by (simp add: fun_upd_idem)
  have "?s1\<lparr>socks := (socks s)(i \<mapsto> k\<lparr>inputBuffer := ?b\<rparr>), errno := e\<rparr> = ?s1"
    using same by (simp add: record_call_def)
  then have "handleRead os call i s = handleError os i ?s1"
    using k c r by (simp add: handleRead_def sys_readv_def Let_def readFd_def)
  then have "handleRead os call i s
      = Inr (record_call (EvGetsockopt (sock_fd k) ?g) ?g ?s1)"
    using k by (simp add: handleError_def sys_getsockopt_def Let_def)
  moreover have "server_ok A ?s1" by (rule server_ok_call[OF ok]) simp_all
  then have "server_ok A (record_call (EvGetsockopt (sock_fd k) ?g) ?g ?s1)"
    by (rule server_ok_call) (simp_all add: registered_def interest_append)
  moreover have "talks_on os (trace s) (trace ?s1 @ [EvGetsockopt (sock_fd k) ?g])"
    by simp
  ultimately show ?thesis using server_ok_mono[of A _ ?B] by (simp add: goes_on_same)
qed

lemma handleRead_server_data:
  assumes ok: "server_ok A s" and kc: "kernel_contract os"
    and k: "socks s i = Some k" and p: "sock_chan k \<in> A" and conn: "acceptor s \<noteq> Some i"
    and c: "chans s (sock_chan k) = Some c" and sv: "served A s i k c"
    and Inr: "os_readv os (trace s) (ch_fd c) (readFd_iov (inputBuffer k)) = Inr d"
    and d: "d \<noteq> []" "length d \<le> sum_list (readFd_iov (inputBuffer k))"
  shows "yields (handleRead os (call_back (main_user os)) i s) (\<lambda>s'.
    server_ok (A - {sock_chan k}) s' \<and> dom (chans s') = dom (chans s) \<and> goes_on os s s')"
proof -
  let ?B = "A - {sock_chan k}" and ?b = "inputBuffer k"
  have b: "input_ok ?b" and mcb: "messageCallback k = Some (User Message)"
    using sv conn by (auto simp: served_def)
  have bok: "buffer_ok ?b" and blen: "length (buf ?b) + extrabuf_size \<le> vec_max"
    using b by (auto simp: input_ok_def extrabuf_size_def vec_max_def)
  let ?s1 = "record_call (EvReadv (ch_fd c) (readFd_iov ?b) (Inr d)) None s"
  obtain b1 where b1: "handleRead os (call_back (main_user os)) i s
      = call_with_self (call_back (main_user os)) (messageCallback k) i
          (?s1\<lparr>socks := (socks s)(i \<mapsto> k\<lparr>inputBuffer := b1\<rparr>)\<rparr>)"
      "buffer_ok b1" "readFd (\<lambda>_. Inr d) ?b = Inr (int (length d), None, b1)"
    by (rule handleRead_exact[OF k c bok blen Inr d(2), of "call_back (main_user os)"]) (simp add: d(1))
  let ?k = "k\<lparr>refs := Suc (refs k), inputBuffer := retrieveAll b1\<rparr>"
  let ?s2 = "?s1\<lparr>socks := (socks s)(i \<mapsto> ?k)\<rparr>"
  have "input_ok (retrieveAll b1)" using b1(2) readFd_length[OF b d(2) b1(3)] by (rule input_ok_all)
  then have ok2: "server_ok A ?s2"
    by (intro server_ok_record[OF ok _ _ k]) (auto simp: served_def)
  have eq: "handleRead os (call_back (main_user os)) i s
      = rbind (Send os i reply ?s2) (\<lambda>r. release i (snd r))"
    using retrieveAllAsString_eq[OF b1(2)]
    by (simp add: b1(1) mcb call_with_self_def acquire_def message_def rbind_assoc split_beta)
  obtain ret s3 where S: "Send os i reply ?s2 = Inr (ret, s3)"
    using Send_server[OF ok2 kc, of i ?k] p by (auto elim!: yieldsE)
  have "socks ?s2 i = Some ?k" "sock_chan ?k \<in> A" using p by simp_all
  from Send_server[OF ok2 kc this, unfolded S yields_simps prod.case] obtain b r evs where s3': "server_ok (A - {sock_chan ?k}) s3" "dom (chans s3) = dom (chans ?s2)"
        "socks s3 = (socks ?s2)(i \<mapsto> ?k\<lparr>outputBuffer := b\<rparr>)"
        "trace s3 = trace ?s2 @ EvWrite (sock_fd ?k) reply r # evs" "\<forall>ev \<in> set evs. plain ev"
        "r = Inr (length reply) \<longrightarrow> b = outputBuffer ?k" "full_writes os \<longrightarrow> r = Inr (length reply)"
    by blast
  then have s3: "server_ok ?B s3" "dom (chans s3) = dom (chans s)"
      "socks s3 = (socks s)(i \<mapsto> ?k\<lparr>outputBuffer := b\<rparr>)"
      "trace s3 = trace ?s2 @ EvWrite (sock_fd k) reply r # evs" "\<forall>ev \<in> set evs. plain ev"
      "r = Inr (length reply) \<longrightarrow> b = outputBuffer k" "full_writes os \<longrightarrow> r = Inr (length reply)"
    by simp_all
  have "ch_fd c = sock_fd k" using sv by (simp add: served_def)
  with s3(4) talks_on_reply[OF s3(5) d(1), of os r] s3(7) have talk: "talks_on os (trace s) (trace s3)" by simp
  let ?k3 = "?k\<lparr>outputBuffer := b\<rparr>"
  have k3: "socks s3 i = Some ?k3" "1 < refs ?k3" using s3(3) sv by (simp_all add: served_def)
  have "server_ok ?B (s3\<lparr>socks := (socks s3)(i \<mapsto> ?k3\<lparr>refs := refs ?k3 - 1\<rparr>)\<rparr>)"
    using sv by (intro server_ok_sock[OF s3(1) k3(1)]) (auto simp: served_def)
  moreover have "goes_on os s (s3\<lparr>socks := (socks s3)(i \<mapsto> ?k3\<lparr>refs := refs ?k3 - 1\<rparr>)\<rparr>)"
    by (rule goes_on_upd[OF _ k, where k' = "?k3\<lparr>refs := refs ?k3 - 1\<rparr>"]) (use talk s3(3,4,6) in simp_all)
  ultimately show ?thesis using release_keeps[OF k3] S s3(2) by (simp add: eq)
qed

lemma handleRead_server:
  assumes ok: "server_ok A s" and kc: "kernel_contract os" and calm: "undisturbed os"
    and k: "socks s i = Some k" and p: "sock_chan k \<in> A" and conn: "acceptor s \<noteq> Some i"
  shows "yields (handleRead os (call_back (main_user os)) i s) (\<lambda>s'.
    server_ok (A - {sock_chan k}) s' \<and> dom (chans s') = dom (chans s) \<and> goes_on os s s')"
proof -
  obtain c where c: "chans s (sock_chan k) = Some c" and sv: "served A s i k c"
    using objects_okD(2)[OF server_okD(4)[OF ok] k] by blast
  show ?thesis
  proof (cases "os_readv os (trace s) (ch_fd c) (readFd_iov (inputBuffer k))")
    case (Inl e)
    then show ?thesis by (rule handleRead_server_error[OF ok k c])
  next
    case (Inr d)
    have "d \<noteq> []" "length d \<le> sum_list (readFd_iov (inputBuffer k))"
      using Inr calm kc unfolding undisturbed_def kernel_contract_def by metis+
    then show ?thesis by (rule handleRead_server_data[OF ok kc k p conn c sv Inr])
  qed
qed

lemma retrieved_smaller:
  assumes bok: "buffer_ok ob" and le: "n \<le> length (readable ob)"
  obtains b where "retrieve (of_nat n) ob = Inr b" and "buffer_ok b" and "used_bytes b \<le> used_bytes ob"
proof -
  have "length (readable ob) \<le> vec_max"
    using buffer_okD[OF bok] by (simp add: length_readable[OF bok] unat_readableBytes[OF bok])
  then have un: "unat (of_nat n :: size_t) = n" using le by simp
  from retrieve_spec[OF bok, of "of_nat n"] le un obtain b where
    "retrieve (of_nat n) ob = Inr b" "buffer_ok b" "unat (writerIndex b) \<le> max 8 (unat (writerIndex ob))"
    by (auto elim: yieldsE)
  with that show ?thesis by (simp add: used_bytes_def)
qed

text \<open>Writing: what the kernel took is dropped, and write events are switched off when nothing is
  left. There is no write-complete callback.\<close>

lemma handleWrite_server:
  assumes ok: "server_ok A s" and kc: "kernel_contract os" and k: "socks s i = Some k"
  shows "yields (handleWrite os i s) (\<lambda>s'. server_ok A s' \<and> dom (chans s') = dom (chans s)
    \<and> goes_on os s s')"
proof -
  let ?ob = "outputBuffer k" and ?d = "readable (outputBuffer k)"
  note D = server_okD[OF ok]
  obtain c where c: "chans s (sock_chan k) = Some c" and sv: "served A s i k c"
    using objects_okD(2)[OF D(4) k] by blast
  have bok: "buffer_ok ?ob" and w0: "sockWriteCallback k = None" using sv by (auto simp: served_def)
  have ld: "load (buf ?ob) (peek ?ob) (unat (readableBytes ?ob)) = Inr ?d"
    using load_readable[OF bok, of "unat (readableBytes ?ob)"] by (simp add: length_readable[OF bok])
  let ?r = "os_write os (trace s) (ch_fd c) ?d"
  let ?s1 = "record_call (EvWrite (ch_fd c) ?d ?r) (err_of ?r) s"
  have ok1: "server_ok A ?s1" by (rule server_ok_call[OF ok]) simp_all
  have pend: "?d = [] \<longleftrightarrow> readableBytes ?ob = 0"
    using length_readable[OF bok] by (metis length_0_conv unat_eq_zero)
  have le: "n \<le> length ?d" if "?r = Inr n" for n using kc that unfolding kernel_contract_def by blast
  show ?thesis
  proof (cases "\<exists>n. ?r = Inr n \<and> 0 < n")
    case False
    then have "handleWrite os i s = Inr ?s1"
      using k c ld by (cases ?r) (auto simp: handleWrite_def sys_write_def Let_def)
    moreover have "goes_on os s ?s1"
      by (rule goes_on_flush[OF k pend, where k' = k and f = "ch_fd c" and r = ?r]) (use k in \<open>simp_all add: fun_upd_idem full_writes_def\<close>)
    ultimately show ?thesis using ok1 by simp
  next
    case True
    then obtain n where n: "?r = Inr n" "0 < n" by blast
    obtain b where b: "retrieve (of_nat n) ?ob = Inr b" "buffer_ok b" "used_bytes b \<le> used_bytes ?ob"
      by (rule retrieved_smaller[OF bok le[OF n(1)]])
    let ?k = "k\<lparr>outputBuffer := b\<rparr>"
    let ?s2 = "?s1\<lparr>socks := (socks s)(i \<mapsto> ?k)\<rparr>"
    have ok2: "server_ok A ?s2"
      by (rule server_ok_record[OF ok _ _ k]) (use b in \<open>auto simp: served_def\<close>)
    have "handleWrite os i s = (if readableBytes b = 0 then disableWriting os (sock_chan k) ?s2 else Inr ?s2)"
      using k c ld n b(1) w0 by (simp add: handleWrite_def sys_write_def Let_def)
    moreover have g2: "goes_on os s ?s2"
      by (rule goes_on_flush[OF k pend, where k' = ?k and f = "ch_fd c" and r = ?r]) (use le[OF n(1)] n(2) in \<open>simp_all add: full_writes_def\<close>)
    moreover have "yields (disableWriting os (sock_chan k) ?s2)
        (\<lambda>s'. server_ok A s' \<and> dom (chans s') = dom (chans s) \<and> goes_on os ?s2 s')"
      using server_ok_change[OF ok2 kc _ has_enabled(2), of i ?k]
      by (auto simp: writing_calls simp del: op_mask.simps elim!: yields_mono
          intro!: goes_on_same dest: quietly_talks_on)
    ultimately show ?thesis using ok2 by (auto elim!: yields_mono intro: goes_on_trans[OF g2])
  qed
qed

section \<open>New connections\<close>

lemma objects_ok_new:
  assumes ok: "objects_ok A s"
    and new: "nextptr s \<le> i" "nextptr s \<le> sock_chan k" "i < nextptr s'" "sock_chan k < nextptr s'"
    and upd: "chans s' = (chans s)(sock_chan k \<mapsto> c)" "socks s' = (socks s)(i \<mapsto> k)"
      "connections s' = (connections s)(sock_fd k \<mapsto> i)" "acceptor s' = acceptor s"
    and old: "\<And>j l d. served A s j l d \<Longrightarrow> socks s j = Some l \<Longrightarrow> served A s' j l d"
    and fresh: "served A s' i k c"
  shows "objects_ok A s'"
proof -
  note O = objects_okD[OF ok]
  have lt: "sock_chan l < nextptr s" if "socks s j = Some l" for j l using O(2)[OF that] O(4) by blast
  have ne: "j \<noteq> i" "sock_chan l \<noteq> sock_chan k" if "socks s j = Some l" for j l
    using O(3)[OF that] lt[OF that] new by auto
  have "\<exists>d. chans s' (sock_chan l) = Some d \<and> served A s' j l d" if "socks s' j = Some l" for j l
  proof (cases "j = i")
    case True
    with that fresh show ?thesis by (simp add: upd)
  next
    case False
    with that have l: "socks s j = Some l" by (simp add: upd)
    from O(2)[OF l] old[OF _ l] ne(2)[OF l] show ?thesis by (auto simp: upd)
  qed
  moreover have "\<exists>j l. socks s' j = Some l \<and> sock_chan l = p" if "chans s' p = Some d" for p d
  proof (cases "p = sock_chan k")
    case True
    then show ?thesis by (auto simp: upd)
  next
    case False
    with that have "chans s p = Some d" by (simp add: upd)
    then obtain j l where "socks s j = Some l" "sock_chan l = p" using O(4) by blast
    with ne show ?thesis by (intro exI[of _ j] exI[of _ l]) (simp add: upd)
  qed
  moreover have "j < nextptr s'" if "socks s' j = Some l" for j l
    using that O(3)[of j l] new by (auto simp: upd split: if_splits)
  moreover have "p < nextptr s'" if "chans s' p = Some d" for p d
    using that O(4)[of p d] new by (auto simp: upd split: if_splits)
  moreover have "j = j'" if "socks s' j = Some l" "socks s' j' = Some l'" "sock_chan l = sock_chan l'"
    for j j' l l'
    using that ne[of j l] ne[of j' l'] O(6)[of j l j' l'] by (auto simp: upd split: if_splits)
  moreover have "main_acceptor < nextptr s" using O(1,3) by blast
  then have "j \<noteq> main_acceptor \<and> (\<exists>l. socks s' j = Some l \<and> sock_fd l = f)"
    if "connections s' f = Some j" for f j
    using that O(5,8)[of f j] ne(1)[of j] new(1) by (auto simp: upd split: if_splits)
  moreover have "acceptor s' = Some main_acceptor \<and> socks s' main_acceptor \<noteq> None"
    using O(1) by (auto simp: upd)
  moreover have "A \<subseteq> dom (chans s')" using O(7) by (auto simp: upd)
  ultimately show ?thesis unfolding objects_ok_def by blast
qed

text \<open>A descriptor that is not open belongs to no object of the server.\<close>

lemma fresh_descriptor:
  assumes ok: "server_ok A s" and f: "f \<notin> open_fds (trace s)"
  shows "socks s j = Some k \<Longrightarrow> sock_fd k \<noteq> f" and "connections s f = None" and "channels s f = None"
    and "nextptr s \<le> p \<Longrightarrow> chans s p = None"
proof -
  note O = objects_okD[OF server_okD(4)[OF ok]]
  show fd: "sock_fd k \<noteq> f" if "socks s j = Some k" for j k using f O(2)[OF that] by (auto simp: served_def)
  show "connections s f = None" using O(5)[of f] fd by (cases "connections s f") auto
  show "chans s p = None" if "nextptr s \<le> p" for p using that O(4)[of p] by (cases "chans s p") auto
  show "channels s f = None"
  proof (rule ccontr)
    assume "channels s f \<noteq> None"
    then obtain p c where "chans s p = Some c" "ch_fd c = f" using poller_okD(2)[OF server_okD(1)[OF ok]] by blast
    with O(4)[of p] O(2) fd show False by (fastforce simp: served_def)
  qed
qed

lemma accept_server:
  assumes ok: "server_ok A s" and kc: "kernel_contract os" and calm: "undisturbed os"
  shows "yields (accept os (main_user os) s) (\<lambda>s'. server_ok A s' \<and> dom (chans s) \<subseteq> dom (chans s')
    \<and> goes_on os s s')"
proof -
  note D = server_okD[OF ok] and O = objects_okD[OF server_okD(4)[OF ok]]
  obtain a ka where a: "acceptor s = Some a" "socks s a = Some ka" using O(1) by blast
  obtain f adr where r: "os_accept os (trace s) (sock_fd ka) = Inr (f, adr)"
    using calm unfolding undisturbed_def by blast
  have f: "0 \<le> f" "f \<notin> open_fds (trace s)" using kc r unfolding kernel_contract_def by blast+
  let ?i = "nextptr s"
  note fd = fresh_descriptor(1)[OF ok f(2)] and cn = fresh_descriptor(2)[OF ok f(2)]
    and ch = fresh_descriptor(3)[OF ok f(2)] and new = fresh_descriptor(4)[OF ok f(2)]
  have ctl: "ctl_works os (epollfd s) f" using kc D(2) f unfolding kernel_contract_def by blast
  let ?k = "accepted_socket f ?i (Some adr) s" and ?c = "conn_channel f ?i"
  obtain s9 where s9: "accept os (main_user os) s = rbind (newConn ?i s9) (release ?i)"
      "chans s9 = (chans s)(Suc ?i \<mapsto> ?c)" "poller_ok s9" "pevents s9 = pevents s"
      "epollfd s9 = epollfd s"
      "quietly (trace s @ [EvAccept (sock_fd ka) (Inr (f, adr))]) (trace s9)"
      "poller.more s9 = poller.more (s\<lparr>nextptr := Suc (Suc ?i), socks := (socks s)(?i \<mapsto> ?k),
        connections := (connections s)(f \<mapsto> ?i)\<rparr>)"
    by (rule accept_effect[OF a, where f = f and adr = "Some adr" and os = os and user = "main_user os"
          and u = NewConn]) (use D(1,7) ch ctl cn r in \<open>auto simp: accept_result_def new\<close>)
  note F = server_frame[OF s9(7)]
  let ?k1 = "?k\<lparr>refs := 1\<rparr>"
  let ?s = "s9\<lparr>socks := (socks s)(?i \<mapsto> ?k1)\<rparr>"
  have k9: "socks s9 ?i = Some ?k" "1 < refs ?k" using cn by (simp_all add: F accepted_socket_def)
  have eq: "accept os (main_user os) s = Inr ?s"
    using s9(1) k9 release_keeps[OF k9] cn by (simp add: newConn_def F accepted_socket_def)
  have tr: "open_fds (trace s9) = insert f (open_fds (trace s))" "busy_waits (trace s9) = busy_waits (trace s)"
    using quietly_open_fds[OF s9(6)] quietly_busy_waits[OF s9(6)] by simp_all
  have old: "served A ?s j k c" if "served A s j k c" "socks s j = Some k" for j k c
    using that fd[OF that(2)] by (auto simp: served_def tr F)
  have "served A ?s ?i ?k1 ?c"
    using f O(3)[OF a(2)] O(7) new[of "Suc ?i"] a(1) D(8,9) new_Buffer_fresh(2)
    by (auto simp: served_def tr F accepted_socket_def input_ok_def used_bytes_def fresh_buffer_def
        extrabuf_size_def kCheapPrepend_def has_def kReadEvent_def conn_channel_def)
  with old have "objects_ok A ?s"
    by (intro objects_ok_new[OF D(4), where i = ?i and k = ?k1 and c = ?c])
      (simp_all add: F s9(2) accepted_socket_def)
  moreover have "poller_ok ?s" by (rule poller_ok_frame[OF s9(3)]) (simp_all add: registered_def)
  ultimately have "server_ok A ?s" using D by (simp add: server_ok_def F s9(4,5) tr)
  moreover have talk: "talks_on os (trace s) (trace s9)"
    by (rule talks_on_trans[OF _ quietly_talks_on[OF s9(6)]]) simp
  have "goes_on os s ?s"
    by (rule goes_on_new[where i = ?i and k = ?k1]) (simp_all add: accepted_socket_def conn_socket_def fresh_buffer_def readableBytes_def talk)
  ultimately show ?thesis by (auto simp: eq s9(2))
qed

section \<open>One event\<close>

text \<open>The flags and lists of the loop do not matter to the invariant.\<close>

lemma server_ok_cong:
  assumes ok: "server_ok A s" and same: "trace s' = trace s" "chans s' = chans s" "channels s' = channels s"
      "epollfd s' = epollfd s" "pevents s' = pevents s" "sock_state.more s' = sock_state.more s"
      "socks s' = socks s" "nextptr s' = nextptr s" "pendingFunctors s' = pendingFunctors s"
  shows "server_ok A s'"
proof -
  note D = server_okD[OF ok]
  have F: "connections s' = connections s" "acceptor s' = acceptor s"
      "connectionCallback s' = connectionCallback s" "srvMessageCallback s' = srvMessageCallback s"
      "writeCompleteCallback s' = writeCompleteCallback s" "srvCloseCallback s' = srvCloseCallback s"
    using same(6) by (cases s; cases s'; simp)+
  have "served A s' = served A s" by (intro ext) (simp add: served_def same F)
  with D(4) have "objects_ok A s'" by (simp add: objects_ok_def same F)
  moreover have "poller_ok s'" by (rule poller_ok_frame[OF D(1)]) (simp_all add: same registered_def)
  ultimately show ?thesis using D by (simp add: server_ok_def same F)
qed

lemma server_ok_chan:
  assumes ok: "server_ok A s" and c: "chans s p = Some c"
    and c': "ch_fd c' = ch_fd c" "ch_index c' = ch_index c"
    and sv: "\<And>i k. served A s i k c \<Longrightarrow> served A s i k c'"
  shows "server_ok A (s\<lparr>chans := (chans s)(p \<mapsto> c')\<rparr>)"
proof -
  note D = server_okD[OF ok]
  obtain i k where k: "socks s i = Some k" "sock_chan k = p" using objects_okD(4)[OF D(4) c] by blast
  with objects_okD(2)[OF D(4) k(1)] c have s: "served A s i k c" by simp
  have "s\<lparr>socks := (socks s)(i \<mapsto> k)\<rparr> = s" using k by (simp add: fun_upd_idem)
  with poller_ok_set_events[OF D(1) c c'] sv[OF s] k show ?thesis
    by (intro server_ok_upd[OF ok k(1) order.refl]) simp_all
qed

lemma server_ok_handling:
  assumes "server_ok A s" and "chans s p = Some c"
  shows "server_ok A (s\<lparr>chans := (chans s)(p \<mapsto> c\<lparr>eventHandling := b\<rparr>)\<rparr>)"
  by (rule server_ok_chan[OF assms]) (simp_all add: served_def)

lemma stage_server:
  assumes ok: "server_ok A s" and p: "p \<in> dom (chans s)" and B: "B \<subseteq> A"
    and cb: "\<And>i k c f. socks s i = Some k \<Longrightarrow> sock_chan k = p \<Longrightarrow> served A s i k c \<Longrightarrow> test c \<Longrightarrow>
      cb c = Some f \<Longrightarrow> yields (run f s) (\<lambda>s'. server_ok B s' \<and> dom (chans s) \<subseteq> dom (chans s')
        \<and> goes_on os s s')"
    and talk: "goes_on os st s"
  shows "yields (event_stage test run cb p s) (\<lambda>s'. server_ok B s' \<and> p \<in> dom (chans s') \<and> goes_on os st s')"
proof -
  note O = objects_okD[OF server_okD(4)[OF ok]]
  obtain c where c: "chans s p = Some c" using p by auto
  then obtain i k where k: "socks s i = Some k" "sock_chan k = p" using O(4) by blast
  with O(2)[OF k(1)] c have sv: "served A s i k c" by simp
  have stay: "server_ok B s" by (rule server_ok_mono[OF ok B])
  show ?thesis
  proof (cases "test c \<and> cb c \<noteq> None")
    case True
    then obtain f where "cb c = Some f" "test c" by auto
    with cb[OF k sv] c p talk show ?thesis
      by (auto simp: event_stage_def call_if_def elim!: yields_mono intro: goes_on_trans)
  qed (use c p stay talk in \<open>auto simp: event_stage_def call_if_def split: option.splits\<close>)
qed

text \<open>The four stages of \<^verbatim>\<open>handleEvent\<close>.\<close>

lemma close_stage_server:
  assumes "server_ok A s" and "p \<in> dom (chans s)" and "goes_on os st s"
  shows "yields (event_stage (\<lambda>c. has (ch_revents c) EPOLLHUP \<and> \<not> has (ch_revents c) EPOLLIN)
      (run_cb os (main_user os)) closeCallback p s) (\<lambda>s'. server_ok A s' \<and> p \<in> dom (chans s') \<and> goes_on os st s')"
  by (rule stage_server[OF assms(1,2) order.refl _ assms(3)])
    (use assms in \<open>auto simp: served_def acceptorCloseCallback_def quit_def split: if_splits
      intro: server_ok_cong[of A s]\<close>)

lemma error_stage_server:
  assumes "server_ok A s" and "p \<in> dom (chans s)" and "goes_on os st s"
  shows "yields (event_stage (\<lambda>c. has (ch_revents c) EPOLLERR) (run_cb os (main_user os)) errorCallback p s)
      (\<lambda>s'. server_ok A s' \<and> p \<in> dom (chans s') \<and> goes_on os st s')"
  by (rule stage_server[OF assms(1,2) order.refl _ assms(3)]) (auto simp: served_def)

lemma read_stage_server:
  assumes ok: "server_ok A s" and kc: "kernel_contract os" and calm: "undisturbed os"
    and p: "p \<in> dom (chans s)" "p \<in> A" and st: "goes_on os st s"
  shows "yields (event_stage (\<lambda>c. has (ch_revents c) (EPOLLIN OR EPOLLPRI OR EPOLLRDHUP))
      (run_cb os (main_user os)) readCallback p s)
      (\<lambda>s'. server_ok (A - {p}) s' \<and> p \<in> dom (chans s') \<and> goes_on os st s')"
proof (rule stage_server[OF ok p(1) Diff_subset _ st])
  fix i k c f
  assume k: "socks s i = Some k" "sock_chan k = p" "served A s i k c" "readCallback c = Some f"
  show "yields (run_cb os (main_user os) f s)
    (\<lambda>s'. server_ok (A - {p}) s' \<and> dom (chans s) \<subseteq> dom (chans s') \<and> goes_on os s s')"
  proof (cases "acceptor s = Some i")
    case True
    with k have "f = Other Server_accept" by (simp add: served_def)
    then show ?thesis
      using accept_server[OF ok kc calm] server_ok_mono[OF _ Diff_subset] by (auto elim!: yields_mono)
  next
    case False
    with k have "f = Socket_handleRead i" by (simp add: served_def)
    then show ?thesis
      using handleRead_server[OF ok kc calm k(1) _ False] p(2) k(2) by (auto elim!: yields_mono)
  qed
qed

lemma write_stage_server:
  assumes ok: "server_ok A s" and kc: "kernel_contract os" and p: "p \<in> dom (chans s)" and st: "goes_on os st s"
  shows "yields (event_stage (\<lambda>c. has (ch_revents c) EPOLLOUT) (run_cb os (main_user os)) writeCallback p s)
      (\<lambda>s'. server_ok A s' \<and> p \<in> dom (chans s') \<and> goes_on os st s')"
proof (rule stage_server[OF ok p order.refl _ st])
  fix i k c f
  assume "socks s i = Some k" "served A s i k c" "writeCallback c = Some f"
  then have "f = Socket_handleWrite i"
    "yields (handleWrite os i s) (\<lambda>s'. server_ok A s' \<and> dom (chans s') = dom (chans s) \<and> goes_on os s s')"
    using handleWrite_server[OF ok kc] by (auto simp: served_def)
  then show "yields (run_cb os (main_user os) f s)
      (\<lambda>s'. server_ok A s' \<and> dom (chans s) \<subseteq> dom (chans s') \<and> goes_on os s s')"
    by (auto elim!: yields_mono)
qed

lemma dispatch_server:
  assumes ok: "server_ok A s" and kc: "kernel_contract os" and calm: "undisturbed os" and p: "p \<in> A"
  shows "yields (dispatch os (main_user os) p t s) (\<lambda>s'. server_ok (A - {p}) s' \<and> goes_on os s s')"
proof -
  obtain c where c: "chans s p = Some c" using p objects_okD(7)[OF server_okD(4)[OF ok]] by auto
  let ?s = "s\<lparr>chans := (chans s)(p \<mapsto> c\<lparr>eventHandling := True\<rparr>)\<rparr>"
  have start: "server_ok A ?s" "p \<in> dom (chans ?s)" "goes_on os s ?s"
    using server_ok_handling[OF ok c] by simp_all
  have unmark: "yields (set_chan p (\<lambda>c. c\<lparr>eventHandling := False\<rparr>) s') (\<lambda>s'. server_ok (A - {p}) s' \<and> goes_on os s s')"
    if "server_ok (A - {p}) s'" "p \<in> dom (chans s')" "goes_on os s s'" for s'
    using that by (auto intro: server_ok_handling)
  show ?thesis
    unfolding dispatch_def handleEvent_def set_chan_Some[OF c] rbind_simps
    by (rule yields_rbindI[OF close_stage_server[OF start]], elim conjE, rule yields_rbindI[OF error_stage_server],
        assumption+, elim conjE, rule yields_rbindI[OF read_stage_server[OF _ kc calm _ p]], assumption+, elim conjE,
        rule yields_rbindI[OF write_stage_server[OF _ kc]], assumption+, elim conjE, rule unmark)
qed

section \<open>One pass\<close>

lemma dispatch_all:
  assumes "server_ok (set ps) s" and "distinct ps" and kc: "kernel_contract os" and calm: "undisturbed os"
  shows "yields (run_all (map (\<lambda>p. dispatch os (main_user os) p t) ps) s)
    (\<lambda>s'. server_ok {} s' \<and> goes_on os s s')"
  using assms(1,2)
proof (induction ps arbitrary: s)
  case (Cons p ps)
  then have "set (p # ps) - {p} = set ps" by auto
  with dispatch_server[OF Cons.prems(1) kc calm, of p t]
  have "yields (dispatch os (main_user os) p t s) (\<lambda>s'. server_ok (set ps) s' \<and> goes_on os s s')"
    by simp
  then show ?case unfolding list.map run_all.simps
  proof (rule yields_rbindI, elim conjE)
    fix x
    assume x: "server_ok (set ps) x" "goes_on os s x"
    have "distinct ps" using Cons.prems by simp
    from Cons.IH[OF x(1) this]
    show "yields (run_all (map (\<lambda>p. dispatch os (main_user os) p t) ps) x)
        (\<lambda>s'. server_ok {} s' \<and> goes_on os s s')"
      by (rule yields_mono) (use x(2) in \<open>auto intro: goes_on_trans\<close>)
  qed
qed simp

text \<open>The report of the kernel: each pass that reports something doubles the event array, until
  its size no longer fits an \<^verbatim>\<open>int\<close>.\<close>

lemma reports_wait: "reports (EvEpollWait ep n timeout (Inr evs)) \<longleftrightarrow> evs \<noteq> []"
  by (cases evs) simp_all

lemma report_small:
  assumes ok: "server_ok {} s" and wc: "wait_contract os"
    and r: "os_epoll_wait os (trace s) (epollfd s) (to_int32 (int (length (pevents s)))) timeout = Inr evs"
    and some: "evs \<noteq> []"
  shows "busy_waits (trace s) < 27"
proof (rule ccontr)
  assume "\<not> busy_waits (trace s) < 27"
  with server_okD(5,6)[OF ok] have "length (pevents s) = 2 ^ 31" by simp
  then have "to_int32 (int (length (pevents s))) = - (2 ^ 31)" by (simp add: to_int32_def)
  moreover have "int (length evs) \<le> max 0 (to_int32 (int (length (pevents s))))"
    using wc r unfolding wait_contract_def by blast
  ultimately show False using some by simp
qed

lemma polled_server:
  assumes ok: "server_ok {} s" and pok: "poller_ok s1"
    and same: "epollfd s1 = epollfd s" "poller.more s1 = poller.more s"
      "open_fds (trace s1) = open_fds (trace s)"
      "\<forall>p. map_option (\<lambda>c. c\<lparr>ch_revents := 0\<rparr>) (chans s1 p)
         = map_option (\<lambda>c. c\<lparr>ch_revents := 0\<rparr>) (chans s p)"
    and bw: "busy_waits (trace s1) = busy_waits (trace s) + n" "busy_waits (trace s1) \<le> 27"
    and grow: "length (pevents s1) = 2 ^ n * length (pevents s)" and n: "A \<noteq> {} \<longrightarrow> n = 1"
    and rev: "\<forall>p c. chans s1 p = Some c \<longrightarrow>
        chans s p = Some c \<or> (has (ch_revents c) EPOLLHUP \<longrightarrow> has (ch_revents c) EPOLLIN)"
    and A: "A \<subseteq> dom (chans s1)"
  shows "server_ok A s1"
proof -
  note D = server_okD[OF ok] and O = objects_okD[OF server_okD(4)[OF ok]] and F = server_frame[OF same(2)]
  have "\<exists>d. chans s1 (sock_chan k) = Some d \<and> served A s1 i k d" if k: "socks s i = Some k" for i k
  proof -
    obtain c where c: "chans s (sock_chan k) = Some c" and sv: "served {} s i k c" using O(2)[OF k] by blast
    obtain d where d: "chans s1 (sock_chan k) = Some d" "d\<lparr>ch_revents := 0\<rparr> = c\<lparr>ch_revents := 0\<rparr>"
      using same(4)[rule_format, of "sock_chan k"] c by auto
    have fld: "ch_fd d = ch_fd c" "ch_index d = ch_index c" "ch_events d = ch_events c"
      "readCallback d = readCallback c" "writeCallback d = writeCallback c"
      "closeCallback d = closeCallback c" "errorCallback d = errorCallback c"
      using d(2) by (cases c; cases d; simp)+
    have "d = c \<or> (has (ch_revents d) EPOLLHUP \<longrightarrow> has (ch_revents d) EPOLLIN)"
      using rev[rule_format, OF d(1)] c by auto
    then have "acceptor s = Some i \<or> (has (ch_revents d) EPOLLHUP \<longrightarrow> has (ch_revents d) EPOLLIN)"
      using sv by (auto simp: served_def split: if_splits)
    moreover have "used_bytes (outputBuffer k) + (if sock_chan k \<in> A then 9 else 0)
        \<le> 8 + 9 * (busy_waits (trace s) + n)"
      using sv n by (auto simp: served_def)
    ultimately have "served A s1 i k d"
      using sv by (auto simp: served_def fld F same(3) bw)
    with d(1) show ?thesis by blast
  qed
  moreover have "p < nextptr s \<and> (\<exists>i k. socks s i = Some k \<and> sock_chan k = p)"
    if d: "chans s1 p = Some d" for p d
  proof -
    obtain c where "chans s p = Some c" using same(4)[rule_format, of p, symmetric] d by auto
    then show ?thesis by (rule O(4))
  qed
  moreover have "acceptor s = Some main_acceptor \<and> socks s main_acceptor \<noteq> None" using O(1) by auto
  ultimately have "objects_ok A s1"
    using A O(3,5,6,8) unfolding objects_ok_def F by blast
  then show ?thesis using D pok bw grow by (simp add: server_ok_def F same(1) power_add)
qed

text \<open>What the poll leaves for the handlers: \<open>evs\<close> is what was reported.\<close>

definition report :: "os \<Rightarrow> main_cb server \<Rightarrow> (events \<times> ptr) list" where
  "report os s =
     (case os_epoll_wait os (trace s) (epollfd s) (to_int32 (int (length (pevents s)))) kPollTimeMs of
        Inl e \<Rightarrow> [] | Inr evs \<Rightarrow> evs)"

lemma report_some:
  "report os s \<noteq> [] \<Longrightarrow> os_epoll_wait os (trace s) (epollfd s) (to_int32 (int (length (pevents s)))) kPollTimeMs
     = Inr (report os s)"
  by (simp add: report_def split: sum.splits)

definition polled :: "os \<Rightarrow> main_cb server \<Rightarrow> int \<Rightarrow> main_cb server \<Rightarrow> int + (events \<times> ptr) list \<Rightarrow> bool" where
  "polled os s now s1 r \<longleftrightarrow> (\<forall>handle. handle_active os handle s = run_all (map (\<lambda>p. handle p now) (map snd (report os s)))
       (s1\<lparr>pollReturnTime := now, activeChannels := map snd (report os s)\<rparr>))
     \<and> (poller_ok s1)
     \<and> (epollfd s1 = epollfd s)
     \<and> (poller.more s1 = poller.more (s\<lparr>activeChannels := []\<rparr>))
     \<and> (\<forall>p. map_option (\<lambda>c. c\<lparr>ch_revents := 0\<rparr>) (chans s1 p)
         = map_option (\<lambda>c. c\<lparr>ch_revents := 0\<rparr>) (chans s p))
     \<and> (trace s1 = trace s @ [EvEpollWait (epollfd s) (to_int32 (int (length (pevents s)))) kPollTimeMs r])
     \<and> (report os s \<noteq> [] \<longleftrightarrow> reports (EvEpollWait (epollfd s) (to_int32 (int (length (pevents s)))) kPollTimeMs r))
     \<and> (\<forall>(ev, p) \<in> set (report os s). map_option ch_revents (chans s1 p) = Some ev)
     \<and> (\<forall>p. p \<notin> snd ` set (report os s) \<longrightarrow> chans s1 p = chans s p)
     \<and> (length (pevents s1) = (if report os s = [] then 1 else 2) * length (pevents s))"

lemma polledD:
  assumes "polled os s now s1 r"
  shows "handle_active os handle s = run_all (map (\<lambda>p. handle p now) (map snd (report os s)))
       (s1\<lparr>pollReturnTime := now, activeChannels := map snd (report os s)\<rparr>)"
    and "poller_ok s1"
    and "epollfd s1 = epollfd s"
    and "poller.more s1 = poller.more (s\<lparr>activeChannels := []\<rparr>)"
    and "\<forall>p. map_option (\<lambda>c. c\<lparr>ch_revents := 0\<rparr>) (chans s1 p)
         = map_option (\<lambda>c. c\<lparr>ch_revents := 0\<rparr>) (chans s p)"
    and "trace s1 = trace s @ [EvEpollWait (epollfd s) (to_int32 (int (length (pevents s)))) kPollTimeMs r]"
    and "report os s \<noteq> [] \<longleftrightarrow> reports (EvEpollWait (epollfd s) (to_int32 (int (length (pevents s)))) kPollTimeMs r)"
    and "\<forall>(ev, p) \<in> set (report os s). map_option ch_revents (chans s1 p) = Some ev"
    and "\<forall>p. p \<notin> snd ` set (report os s) \<longrightarrow> chans s1 p = chans s p"
    and "length (pevents s1) = (if report os s = [] then 1 else 2) * length (pevents s)"
  using assms unfolding polled_def by blast+

lemma handle_active_polled:
  assumes ok: "server_ok {} s" and wc: "wait_contract os"
  obtains now s1 r where "polled os s now s1 r"
proof -
  let ?s = "s\<lparr>activeChannels := []\<rparr>" and ?evs = "report os s"
  let ?r = "os_epoll_wait os (trace s) (epollfd s) (to_int32 (int (length (pevents s)))) kPollTimeMs"
  have ok': "server_ok {} ?s" by (rule server_ok_cong[OF ok]) simp_all
  note D = server_okD[OF ok']
  have size: "2 * length (pevents ?s) \<le> pevents_max"
    using D(5) power_increasing[OF D(6), of "2 :: nat"] by (simp add: pevents_max_def)
  obtain now s1 where s1: "poll os kPollTimeMs [] ?s = Inr (now, map snd ?evs, s1)" "poller_ok s1"
      "epollfd s1 = epollfd s" "poller.more s1 = poller.more ?s"
      "\<forall>p. map_option (\<lambda>c. c\<lparr>ch_revents := 0\<rparr>) (chans s1 p)
         = map_option (\<lambda>c. c\<lparr>ch_revents := 0\<rparr>) (chans s p)"
      "trace s1 = trace s @ [EvEpollWait (epollfd s) (to_int32 (int (length (pevents s)))) kPollTimeMs ?r]"
      "\<forall>(ev, p) \<in> set ?evs. map_option ch_revents (chans s1 p) = Some ev"
      "\<forall>p. p \<notin> snd ` set ?evs \<longrightarrow> chans s1 p = chans s p"
      "length (pevents s1) = (if ?evs = [] then 1 else 2) * length (pevents s)"
    using poll_effect[OF D(1) wc size refl, of kPollTimeMs "[]"]
    by (cases ?r) (auto simp: report_def elim!: yieldsE)
  let ?s2 = "s1\<lparr>pollReturnTime := now, activeChannels := map snd ?evs\<rparr>"
  have "\<forall>p \<in> set (map snd ?evs). chans ?s2 p \<noteq> None" using s1(7) by fastforce
  then obtain ls where "printActiveChannels (map snd ?evs) ?s2 = Inr ls"
    by (blast dest: printActiveChannels_ok elim: yieldsE)
  then have "handle_active os handle s = run_all (map (\<lambda>p. handle p now) (map snd ?evs)) ?s2" for handle
    by (simp add: handle_active_def s1(1) del: map_map)
  moreover have "?evs \<noteq> [] \<longleftrightarrow> reports (EvEpollWait (epollfd s) (to_int32 (int (length (pevents s)))) kPollTimeMs ?r)"
    by (cases ?r) (simp_all add: report_def reports_wait)
  ultimately have "polled os s now s1 ?r" unfolding polled_def using s1(2-) by blast
  then show ?thesis by (rule that)
qed

lemma handle_active_server:
  assumes ok: "server_ok {} s" and kc: "kernel_contract os" and calm: "undisturbed os"
  shows "yields (handle_active os (dispatch os (main_user os)) s)
    (\<lambda>s'. server_ok {} s' \<and> goes_on os s s')"
proof -
  let ?s = "s\<lparr>activeChannels := []\<rparr>" and ?evs = "report os s"
  have wc: "wait_contract os" using kc by (simp add: kernel_contract_def)
  have ok': "server_ok {} ?s" by (rule server_ok_cong[OF ok]) simp_all
  note D = server_okD[OF ok']
  obtain now s1 r where "polled os s now s1 r" by (rule handle_active_polled[OF ok wc])
  note s1 = polledD[OF this]
  let ?n = "if ?evs = [] then 0 else 1 :: nat"
  let ?s2 = "s1\<lparr>pollReturnTime := now, activeChannels := map snd ?evs\<rparr>"
  have up: "has ev EPOLLHUP \<longrightarrow> has ev EPOLLIN" if "(ev, p) \<in> set ?evs" for ev p
  proof -
    have "?evs \<noteq> []" using that by auto
    from report_some[OF this] calm have "\<forall>(ev, p) \<in> set ?evs. has ev EPOLLHUP \<longrightarrow> has ev EPOLLIN"
      unfolding undisturbed_def by blast
    with that show ?thesis by auto
  qed
  have busy: "busy_waits (trace s1) = busy_waits (trace s) + ?n"
    using s1(7) by (simp add: s1(6)) 
  have ok1: "server_ok (set (map snd ?evs)) s1"
  proof (rule polled_server[OF ok' s1(2), where n = ?n])
    have "busy_waits (trace s) < 27" if "?evs \<noteq> []"
      by (rule report_small[OF ok wc report_some[OF that] that])
    then show "busy_waits (trace s1) \<le> 27" using D(6) busy by auto
    show "\<forall>p c. chans s1 p = Some c \<longrightarrow>
        chans ?s p = Some c \<or> (has (ch_revents c) EPOLLHUP \<longrightarrow> has (ch_revents c) EPOLLIN)"
    proof (intro allI impI)
      fix p c
      assume c: "chans s1 p = Some c"
      show "chans ?s p = Some c \<or> (has (ch_revents c) EPOLLHUP \<longrightarrow> has (ch_revents c) EPOLLIN)"
      proof (cases "p \<in> snd ` set ?evs")
        case True
        then obtain ev where ev: "(ev, p) \<in> set ?evs" by auto
        with s1(8) c have "ch_revents c = ev" by fastforce
        with up[OF ev] show ?thesis by simp
      qed (use s1(9) c in auto)
    qed
    show "set (map snd ?evs) \<subseteq> dom (chans s1)" using s1(8) by fastforce
  qed (use s1 busy in auto)
  then have ok2: "server_ok (set (map snd ?evs)) ?s2" by (rule server_ok_cong) simp_all
  have dist: "distinct (map snd ?evs)"
    using wc report_some[of os s] unfolding wait_contract_def by (cases "?evs = []") auto
  have "goes_on os s ?s2" by (rule goes_on_same) (simp_all add: s1(6) server_frame[OF s1(4)])
  then show ?thesis
    using dispatch_all[OF ok2 dist kc calm, of now] by (auto simp: s1(1) elim!: yields_mono intro: goes_on_trans)
qed

lemma iteration_server:
  assumes "server_ok {} s" and "kernel_contract os" and "undisturbed os"
  obtains s' where "iteration os (dispatch os (main_user os)) (run_functor (main_user os)) s = Some (Inr s')"
    and "server_ok {} s'" and "goes_on os s s'"
proof -
  obtain s' where s': "handle_active os (dispatch os (main_user os)) s = Inr s'" "server_ok {} s'"
      "goes_on os s s'"
    using handle_active_server[OF assms] by (auto elim: yieldsE)
  have "pending_loop (run_functor (main_user os)) 0 s' = Some (Inr s')"
    using server_okD(3)[OF s'(2)] by (subst pending_loop.simps) simp
  with s' that show ?thesis by (simp add: iteration_def doPendingFunctors_def)
qed

interpretation run: loop_invariant os "dispatch os (main_user os)" "run_functor (main_user os)"
  "\<lambda>s. kernel_contract os \<and> undisturbed os \<and> at_rest os s" for os
proof unfold_locales
  fix s :: "main_cb server" and b q
  assume s: "kernel_contract os \<and> undisturbed os \<and> at_rest os s"
  then show "\<exists>s'. iteration os (dispatch os (main_user os)) (run_functor (main_user os)) s = Some (Inr s')
      \<and> kernel_contract os \<and> undisturbed os \<and> at_rest os s'"
    by (metis iteration_server at_rest_goes_on at_rest_def)
  show "kernel_contract os \<and> undisturbed os \<and> at_rest os (s\<lparr>looping := b, quit_flag := q\<rparr>)"
    using s by (auto simp: at_rest_def intro: server_ok_cong[of "{}" s])
qed

end
