(* ===== verification/Server_Life.thy ===== *)
theory Server_Life
  imports Server_Run
begin

unbundle bit_operations_syntax

text \<open>
  The life of the server of \<^verbatim>\<open>netlib/main.cpp\<close>: it starts into a state that satisfies the
  invariant of \<open>Server_Run\<close>, answers every message while it runs, faults when the first peer
  hangs up, and is deaf after 27 reports of \<^verbatim>\<open>epoll_wait\<close>.
\<close>

section \<open>A sample kernel\<close>

text \<open>A kernel with fresh descriptors for everyone, on which the listening socket \<open>f\<close> is ready until
  there is a connection, whose descriptor is \<open>f + 3\<close> and which is ready from then on; reads return
  one byte.\<close>

fun opened_fd :: "sys_event \<Rightarrow> fd" where
  "opened_fd (EvSocket (Inr f)) = f"
| "opened_fd (EvAccept g (Inr (f, a))) = f"
| "opened_fd (EvEpollCreate (Inr f)) = f"
| "opened_fd _ = 0"

definition fresh_fd :: "sys_event list \<Rightarrow> fd" where
  "fresh_fd tr = 3 + fold (\<lambda>ev m. max m (opened_fd ev)) tr 0"

definition calm_os :: "fd \<Rightarrow> events \<Rightarrow> os" where
  "calm_os f ev = (sample_os f ev)
     \<lparr>os_socket := \<lambda>tr. Inr (fresh_fd tr),
      os_accept := \<lambda>tr g. Inr (fresh_fd tr, \<lparr>sin_family = AF_INET, sin_port = 80, s_addr = 1\<rparr>),
      os_epoll_wait := \<lambda>tr ep n timeout. sample_wait (if interest ep tr (f + 3) = None then f else f + 3) ev tr ep n,
      os_readv := \<lambda>tr g iov. if sum_list iov = 0 then Inl EAGAIN else Inr [1]\<rparr>"

text \<open>A server at rest with one connection, on descriptor 5.\<close>

definition resting_server :: "main_cb server" where
  "resting_server =
     \<lparr>trace = [EvEpollCreate (Inr 3), EvSocket (Inr 4), EvEpollCtl 3 EPOLL_CTL_ADD 4 kReadEvent 2 None,
        EvAccept 4 (Inr (5, \<lparr>sin_family = AF_INET, sin_port = 80, s_addr = 1\<rparr>)),
        EvEpollCtl 3 EPOLL_CTL_ADD 5 kReadEvent 4 None],
      errno = 0,
      chans = [2 \<mapsto> (conn_channel 4 1)\<lparr>readCallback := Some (Other Server_accept),
                     closeCallback := Some (Other Server_acceptorClose)\<rparr>,
               4 \<mapsto> conn_channel 5 3],
      epollfd = 3, pevents = replicate 16 (0, 0), channels = [4 \<mapsto> 2, 5 \<mapsto> 4],
      looping = True, quit_flag = False, pollReturnTime = 0, activeChannels = [], pendingFunctors = [],
      socks = [1 \<mapsto> (conn_socket 4 2)\<lparr>refs := 2\<rparr>,
               3 \<mapsto> (conn_socket 5 4)\<lparr>messageCallback := Some (User Message),
                     sockCloseCallback := Some Server_connectionClose\<rparr>],
      nextptr = 5, host = ''127.0.0.1:9999'', connections = [5 \<mapsto> 3], acceptor = Some 1,
      connectionCallback = Some NewConn, srvMessageCallback = Some Message,
      srvCloseCallback = Some Cclose, writeCompleteCallback = None\<rparr>"

section \<open>A pass of a deaf server\<close>

text \<open>A pass after the event array has become too large: the wait is recorded, and nothing is
  handled.\<close>

lemma deaf_pass:
  assumes ok: "server_ok {} s" and wc: "wait_contract os" and full: "busy_waits (trace s) = 27"
  shows "\<exists>r s'. iteration os handle run s = Some (Inr s')
    \<and> trace s' = trace s @ [EvEpollWait (epollfd s) (- (2 ^ 31)) kPollTimeMs r]
    \<and> chans s' = chans s \<and> socks s' = socks s \<and> connections s' = connections s"
proof -
  let ?s = "s\<lparr>activeChannels := []\<rparr>"
  let ?r = "os_epoll_wait os (trace s) (epollfd s) (- (2 ^ 31)) kPollTimeMs"
  note D = server_okD[OF ok]
  have len: "length (pevents s) = 2 ^ 31" using D(5) full by simp
  have arg: "to_int32 (int (length (pevents s))) = - (2 ^ 31)" by (simp add: len to_int32_def)
  have "\<forall>evs. ?r = Inr evs \<longrightarrow> evs = []" using report_small[OF ok wc] full arg by force
  then consider e where "?r = Inl e" | "?r = Inr []" by (cases ?r) auto
  note outcomes = this
  have "poller_ok ?s" by (rule poller_ok_frame[OF D(1)]) (simp_all add: registered_def)
  moreover have "2 * length (pevents ?s) \<le> pevents_max" by (simp add: len pevents_max_def)
  ultimately have "yields (poll os kPollTimeMs [] ?s) (\<lambda>(now, active, s1). active = []
      \<and> poller.more s1 = poller.more ?s \<and> chans s1 = chans s
      \<and> trace s1 = trace s @ [EvEpollWait (epollfd s) (- (2 ^ 31)) kPollTimeMs ?r])"
    using poll_effect[of ?s os kPollTimeMs ?r "[]", OF _ wc]
    by (cases rule: outcomes) (auto simp: arg fun_eq_iff elim!: yields_mono)
  then obtain now s1 where
    s1: "poll os kPollTimeMs [] ?s = Inr (now, [], s1)" "poller.more s1 = poller.more ?s"
      "trace s1 = trace s @ [EvEpollWait (epollfd s) (- (2 ^ 31)) kPollTimeMs ?r]" "chans s1 = chans s"
    by (auto elim!: yieldsE)
  note F = server_frame[OF s1(2)]
  let ?s2 = "s1\<lparr>pollReturnTime := now, activeChannels := []\<rparr>"
  have "pending_loop run 0 ?s2 = Some (Inr ?s2)" using D(3) F by (subst pending_loop.simps) simp
  then have "iteration os handle run s = Some (Inr ?s2)"
    by (simp add: iteration_def handle_active_def s1(1) doPendingFunctors_def)
  then show ?thesis by (intro exI[of _ ?r] exI[of _ ?s2]) (simp add: s1 F)
qed

section \<open>A peer that hangs up\<close>

lemma main_closes_quietly: "closes_quietly (main_user os) Cclose"
  by (auto simp: closes_quietly_def cclose_def)

text \<open>A connection at rest is still one when its channel has been given the reported events.\<close>

lemma polled_connected:
  assumes ok: "server_ok {} s" and P: "polled os s now s1 r"
    and k: "socks s i = Some k" "connections s (sock_fd k) = Some i"
    and ev: "(ev, sock_chan k) \<in> set (report os s)"
  obtains c where "connected (s1\<lparr>pollReturnTime := t, activeChannels := ps\<rparr>) i k c" "ch_revents c = ev"
proof -
  note O = objects_okD[OF server_okD(4)[OF ok]] and P = polledD[OF P]
  obtain c where c: "chans s (sock_chan k) = Some c" and sv: "served {} s i k c" using O(2)[OF k(1)] by blast
  have na: "acceptor s \<noteq> Some i" using O(1) O(8)[OF k(2)] by auto
  obtain d where d: "chans s1 (sock_chan k) = Some d" "d\<lparr>ch_revents := 0\<rparr> = c\<lparr>ch_revents := 0\<rparr>" "ch_revents d = ev"
    using P(5)[rule_format, of "sock_chan k"] P(8) ev c by fastforce
  have "ch_fd d = ch_fd c" "ch_index d = ch_index c" "readCallback d = readCallback c"
    "closeCallback d = closeCallback c" using d(2) by (cases c; cases d; simp)+
  with sv na k d(1) have "connected (s1\<lparr>pollReturnTime := t, activeChannels := ps\<rparr>) i k d"
    by (auto simp: connected_def served_def input_ok_def server_frame[OF P(4)] kNew_def kAdded_def
        extrabuf_size_def vec_max_def)
  with d(3) that show ?thesis by blast
qed

lemma resting_served:
  "served {} resting_server 1 ((conn_socket 4 2)\<lparr>refs := 2\<rparr>) ((conn_channel 4 1)
     \<lparr>readCallback := Some (Other Server_accept), closeCallback := Some (Other Server_acceptorClose)\<rparr>)"
  "served {} resting_server 3 ((conn_socket 5 4)\<lparr>messageCallback := Some (User Message),
     sockCloseCallback := Some Server_connectionClose\<rparr>) (conn_channel 5 3)"
  using new_Buffer_fresh(2)
  by (simp_all add: served_def resting_server_def input_ok_def used_bytes_def fresh_buffer_def
      extrabuf_size_def kCheapPrepend_def has_def kReadEvent_def conn_channel_def open_fds_def conn_socket_def)

lemma resting_objects:
  "acceptor resting_server = Some 1" "nextptr resting_server = 5" "connections resting_server = [5 \<mapsto> 3]"
  "chans resting_server = [2 \<mapsto> (conn_channel 4 1)\<lparr>readCallback := Some (Other Server_accept),
     closeCallback := Some (Other Server_acceptorClose)\<rparr>, 4 \<mapsto> conn_channel 5 3]"
  "socks resting_server = [1 \<mapsto> (conn_socket 4 2)\<lparr>refs := 2\<rparr>, 3 \<mapsto> (conn_socket 5 4)
     \<lparr>messageCallback := Some (User Message), sockCloseCallback := Some Server_connectionClose\<rparr>]"
  by (simp_all add: resting_server_def)

lemma conn_socket_fields [simp]:
  "sock_chan (conn_socket f p) = p" "sock_fd (conn_socket f p) = f" "refs (conn_socket f p) = 1"
  by (simp_all add: conn_socket_def)

lemma resting_objects_ok: "objects_ok {} resting_server"
  unfolding objects_ok_def
proof (intro conjI allI impI)
  fix i k
  assume "socks resting_server i = Some k"
  then show "i < nextptr resting_server"
    and "\<exists>c. chans resting_server (sock_chan k) = Some c \<and> served {} resting_server i k c"
    using resting_served by (auto simp: resting_objects simp del: One_nat_def split: if_splits)
next
  fix i j k l
  assume "socks resting_server i = Some k" "socks resting_server j = Some l" "sock_chan k = sock_chan l"
  then show "i = j" by (auto simp: resting_objects simp del: One_nat_def split: if_splits)
next
  fix p c
  assume "chans resting_server p = Some c"
  then have p: "p = 2 \<or> p = 4" by (auto simp: resting_objects split: if_splits)
  then show "p < nextptr resting_server" by (auto simp: resting_objects)
  show "\<exists>i k. socks resting_server i = Some k \<and> sock_chan k = p"
    using p by (intro exI[of _ "if p = 2 then 1 else 3"]) (auto simp: resting_objects)
next
  fix f i
  assume "connections resting_server f = Some i"
  then show "\<exists>k. socks resting_server i = Some k \<and> sock_fd k = f"
    by (auto simp: resting_objects simp del: One_nat_def split: if_splits)
qed (auto simp: resting_objects main_acceptor_def split: if_splits)

lemma resting_at_rest: "at_rest os resting_server"
proof -
  have "poller_ok resting_server"
    by (auto simp: poller_ok_def channel_ok_def resting_server_def registered_def interest_def
        conn_channel_def kAdded_def kNew_def kDeleted_def split: if_splits)
  moreover have "sole (socks resting_server)"
    by (auto simp: sole_def resting_objects main_acceptor_def simp del: One_nat_def split: if_splits)
  moreover have "answered (trace resting_server)"
    by (auto simp: answered_def resting_server_def less_Suc_eq numeral_eq_Suc)
  moreover have "flushed (socks resting_server)"
    by (auto simp: flushed_def resting_objects conn_socket_def fresh_buffer_def readableBytes_def split: if_splits)
  moreover have "balanced (trace resting_server)"
    by (rule uneventful_balanced) (simp add: resting_server_def)
  moreover have "complete (trace resting_server)" by (simp add: resting_server_def)
  moreover note resting_objects_ok
  ultimately show ?thesis
    by (simp add: paid_up_def at_rest_def server_ok_def resting_server_def busy_waits_def)
qed

section \<open>Start\<close>

lemma main_server_fields:
  assumes "os_epoll_create os [] = Inr ep"
  shows "trace (main_server os) = [EvEpollCreate (Inr ep)]" "chans (main_server os) = Map.empty"
    "channels (main_server os) = Map.empty" "epollfd (main_server os) = ep"
    "pevents (main_server os) = replicate 16 (0, 0)" "socks (main_server os) = Map.empty"
    "nextptr (main_server os) = main_acceptor" "connections (main_server os) = Map.empty"
    "acceptor (main_server os) = None" "connectionCallback (main_server os) = Some NewConn"
    "srvMessageCallback (main_server os) = Some Message" "writeCompleteCallback (main_server os) = None"
    "srvCloseCallback (main_server os) = Some Cclose"
    "pendingFunctors (main_server os) = []"
    "host (main_server os) = ''127.0.0.1'' @ CHR '':'' # dec_digits 9999"
  using assms by (simp_all add: main_server_def new_TcpServer_def new_EventLoop_def init_Poller_def
      sys_epoll_create_def setConnectionCallback_def setServerCloseCallback_def main_acceptor_def
      setServerMessageCallback_def record_call_def Let_def dec_digits_9999)

text \<open>The first state of the loop has the acceptor and nothing else.\<close>

lemma initial_objects:
  assumes k: "socks s = [main_acceptor \<mapsto> k]" "sock_chan k = Suc main_acceptor"
    and c: "chans s = [Suc main_acceptor \<mapsto> c]" and sv: "served {} s main_acceptor k c"
    and rest: "acceptor s = Some main_acceptor" "connections s = Map.empty"
      "nextptr s = Suc (Suc main_acceptor)"
  shows "objects_ok {} s"
  unfolding objects_ok_def using assms by (auto split: if_splits)

lemma listening_at_rest:
  assumes pok: "poller_ok s" and fds: "0 \<le> epollfd s" "0 \<le> f" "open_fds (trace s) = {epollfd s, f}"
    and c: "chans s = [Suc main_acceptor \<mapsto> (conn_channel f main_acceptor)\<lparr>readCallback := Some (Other Server_accept),
      closeCallback := Some (Other Server_acceptorClose)\<rparr>]" (is "_ = [_ \<mapsto> ?c]")
    and k: "socks s = [main_acceptor \<mapsto> (conn_socket f (Suc main_acceptor))\<lparr>refs := 2, sock_addr := adr\<rparr>]"
      (is "_ = [_ \<mapsto> ?k]")
    and rest: "acceptor s = Some main_acceptor" "connections s = Map.empty" "nextptr s = Suc (Suc main_acceptor)"
      "pevents s = replicate 16 (0, 0)" "pendingFunctors s = []" "connectionCallback s = Some NewConn"
      "srvMessageCallback s = Some Message" "writeCompleteCallback s = None" "srvCloseCallback s = Some Cclose"
    and bw: "busy_waits (trace s) = 0" and talk: "talks_on os [] (trace s)"
  shows "at_rest os s"
proof -
  have "served {} s main_acceptor ?k ?c"
    using fds new_Buffer_fresh(2)
    by (simp add: served_def bw rest input_ok_def used_bytes_def kReadEvent_def has_def kCheapPrepend_def
        conn_channel_def) (simp add: fresh_buffer_def extrabuf_size_def)
  then have "objects_ok {} s" by (intro initial_objects[OF k _ c]) (simp_all add: rest)
  then have "server_ok {} s" using pok fds by (simp add: server_ok_def bw rest)
  moreover have "sole (socks s)" by (simp add: k sole_def)
  moreover have "answered (trace s)" using talk by (rule talks_on_answered) (simp add: answered_def)
  moreover have "full_writes os \<longrightarrow> complete (trace s)" using talk by (auto simp: talks_on_def)
  moreover have "paid_up (socks s) (trace s)"
    by (rule paid_up_talk[OF talk, of Map.empty])
      (simp_all add: paid_up_def balanced_def sent_def msgs_from_def replies_def flushed_def k conn_socket_def
        fresh_buffer_def readableBytes_def)
  ultimately show ?thesis by (simp add: at_rest_def)
qed

lemma start_up_server:
  assumes kc: "kernel_contract os" and calm: "undisturbed os"
  shows "yields (start_up os ord inet_addr (main_server os)) (\<lambda>(i, go, s). i = main_acceptor
    \<and> socks s i \<noteq> None \<and> (go \<longrightarrow> at_rest os s) \<and> ((\<forall>tr f a. os_bind os tr f a = None) \<longrightarrow> go))"
proof -
  let ?s = "main_server os" and ?a = main_acceptor
  obtain ep where e: "os_epoll_create os [] = Inr ep" using calm unfolding undisturbed_def by blast
  note M = main_server_fields[OF e]
  obtain f where sk: "os_socket os (trace ?s) = Inr f" using calm unfolding undisturbed_def by blast
  have f: "0 \<le> f" and ep: "0 \<le> ep" using kc sk e unfolding kernel_contract_def by blast+
  have ctl: "ctl_works os (epollfd ?s) f" using kc f ep M(4) unfolding kernel_contract_def by simp
  have pok: "poller_ok ?s" by (simp add: poller_ok_def M registered_def interest_def)
  let ?k = "(conn_socket f (Suc ?a))\<lparr>refs := 2\<rparr> :: main_cb server_cb socket"
  let ?c = "(conn_channel f ?a)\<lparr>readCallback := Some (Other Server_accept),
    closeCallback := Some (Other Server_acceptorClose)\<rparr>"
  obtain s6 where s6: "start_up os ord inet_addr ?s = rbind (bind os ord inet_addr s6) (\<lambda>(ret, s7).
        if ret \<noteq> 0 then Inr (?a, False, s7)
        else rbind (listen os s7) (\<lambda>(ret, s8). Inr (?a, ret = 0, s8)))"
      "chans s6 = [Suc ?a \<mapsto> ?c]" "poller_ok s6" "pevents s6 = replicate 16 (0, 0)" "epollfd s6 = ep"
      "quietly (trace ?s @ [EvSocket (Inr f)]) (trace s6)"
      "poller.more s6 = poller.more (?s\<lparr>nextptr := Suc (Suc ?a), socks := [?a \<mapsto> ?k], acceptor := Some ?a\<rparr>)"
    by (rule start_up_created[of ?s os f ord inet_addr, unfolded M(7)]) (use M sk pok ctl in simp_all)
  note F = server_frame[OF s6(7)]
  let ?adr = "\<lparr>sin_family = AF_INET, sin_port = htons ord (of_nat 9999), s_addr = inet_addr ''127.0.0.1''\<rparr>"
  let ?r = "os_bind os (trace s6) f ?adr"
  let ?k7 = "?k\<lparr>sock_addr := Some ?adr\<rparr>"
  let ?s7 = "record_call (EvBind f ?adr ?r) ?r (s6\<lparr>socks := [?a \<mapsto> ?k7]\<rparr>)"
  have b: "bind os ord inet_addr s6 = Inr (case ?r of None \<Rightarrow> 0 | Some _ \<Rightarrow> - 1, ?s7)"
    using bind_wellformed[of s6 "''127.0.0.1''" 9999 ?a ?k ?adr ord inet_addr ?r os] F M by simp
  define s8 where "s8 = record_call (EvListen f SOMAXCONN None) None ?s7"
  have acc: "acceptor ?s7 = Some ?a" using F by (simp add: record_call_def)
  have l: "listen os ?s7 = Inr (0, s8)"
    using calm acc by (simp add: listen_def getFD_def sys_listen_def Let_def undisturbed_def s8_def)
  have "poller.more s8 = poller.more (s6\<lparr>socks := [?a \<mapsto> ?k7]\<rparr>)" by (simp add: s8_def)
  note G = server_frame[OF this]
  have tr: "quietly (trace s6) (trace s8)" by (simp add: s8_def)
  have "at_rest os s8"
  proof (rule listening_at_rest[of s8 f "Some ?adr"])
    show "poller_ok s8" by (rule poller_ok_frame[OF s6(3)]) (simp_all add: s8_def registered_def interest_append)
    show "open_fds (trace s8) = {epollfd s8, f}" "busy_waits (trace s8) = 0"
      using quietly_open_fds[OF s6(6)] quietly_open_fds[OF tr] quietly_busy_waits[OF s6(6)]
        quietly_busy_waits[OF tr] by (auto simp: M open_fds_def s8_def s6(5))
    have "talks_on os [] (trace ?s @ [EvSocket (Inr f)])" using talks_on_call[of _ os "[]"] by (simp add: M)
    from talks_on_trans[OF this talks_on_trans[OF quietly_talks_on[OF s6(6)] quietly_talks_on[OF tr]]]
    show "talks_on os [] (trace s8)" .
    show "chans s8 = [Suc ?a \<mapsto> ?c]" "pevents s8 = replicate 16 (0, 0)" "0 \<le> epollfd s8"
      using s6 ep by (simp_all add: s8_def)
  qed (simp_all add: f G F M)
  moreover have "socks s8 ?a \<noteq> None" by (simp add: G)
  moreover have "socks ?s7 ?a \<noteq> None" by simp
  moreover have "(\<forall>tr f a. os_bind os tr f a = None) \<longrightarrow> ?r = None" by blast
  ultimately show ?thesis unfolding s6(1) b rbind_simps using l by (cases ?r) (simp_all, blast)
qed

section \<open>The sample kernel\<close>

lemma open_fds_le_fresh: "f \<in> open_fds tr \<Longrightarrow> f < fresh_fd tr"
proof (induction tr arbitrary: f rule: rev_induct)
  case (snoc ev tr)
  have "f \<in> open_fds tr \<or> f = opened_fd ev"
    using snoc.prems by (cases "(ev, open_fds tr)" rule: open_step.cases) auto
  with snoc.IH[of f] show ?case by (auto simp: fresh_fd_def max_def)
qed simp

lemma fresh_fd_nonneg: "0 \<le> fresh_fd tr"
proof (induction tr rule: rev_induct)
  case (snoc ev tr)
  then show ?case by (auto simp: fresh_fd_def max_def)
qed (simp add: fresh_fd_def)

lemma calm_kernel_contract: "kernel_contract (calm_os f ev)"
  using open_fds_le_fresh fresh_fd_nonneg
  by (auto simp: kernel_contract_def calm_os_def wait_contract_def sample_wait_def ctl_works_def
      sample_ctl_def simp del: sum_list_eq_0_iff split: option.splits if_splits)

lemma calm_undisturbed: "undisturbed (calm_os f 1)"
  by (auto simp: undisturbed_def calm_os_def sample_wait_def has_def split: option.splits if_splits)

lemma server_ok_watched:
  assumes ok: "server_ok A s" and conn: "connections s f = Some i"
  shows "\<exists>k. socks s i = Some k \<and> sock_fd k = f \<and> 0 < refs k \<and> watched s (sock_chan k) \<noteq> None"
proof -
  note O = objects_okD[OF server_okD(4)[OF ok]]
  obtain k where k: "socks s i = Some k" "sock_fd k = f" using O(5)[OF conn] by blast
  obtain c where c: "chans s (sock_chan k) = Some c" "served A s i k c" using O(2)[OF k(1)] by blast
  from poller_okD(1)[OF server_okD(1)[OF ok] c(1)] c k show ?thesis
    by (auto simp: watched_def channel_ok_def served_def)
qed

lemma passes_server:
  assumes "at_rest os s" and "kernel_contract os" and "undisturbed os"
  shows "\<exists>s'. iterations os (dispatch os (main_user os)) (run_functor (main_user os)) n
      (s\<lparr>looping := True, quit_flag := False\<rparr>) = Some (Inr s') \<and> at_rest os s'"
  using run.iterations_keep[OF run.flags, of os s n False True] assms by blast

section \<open>Properties\<close>









text \<open>C5. The first peer that hangs up ends the server: take any state at rest, as all states are that the loop
  passes through while nobody has hung up (C1), and any kernel from there on. When it reports first a connection whose
  peer is gone (a hang-up, or input that turns out to be the end of the stream), the pass ends in the use of
  freed memory: the server drops the only reference to the connection while \<^verbatim>\<open>handleEvent\<close> of its channel is
  running. This holds whatever else is reported in the same pass.\<close>

theorem hang_up_crashes:
  assumes rest: "at_rest os0 s" and k: "socks s i = Some k" "connections s (sock_fd k) = Some i"
    and wc: "wait_contract os" and first: "report os s = (ev, sock_chan k) # evs"
    and gone: "has ev EPOLLHUP \<and> \<not> has ev EPOLLIN
      \<or> has ev EPOLLIN \<and> \<not> has ev EPOLLERR \<and> (\<forall>tr iov. os_readv os tr (sock_fd k) iov = Inr [])"
  shows "iteration os (dispatch os (main_user os)) (run_functor (main_user os)) s = Some (Inl UseAfterFree)"
proof -
  have ok: "server_ok {} s" and "sole (socks s)" using rest by (simp_all add: at_rest_def)
  with k objects_okD(8)[OF server_okD(4)[OF ok] k(2)] have one: "refs k = 1" by (auto simp: sole_def)
  obtain now s1 r where P: "polled os s now s1 r" by (rule handle_active_polled[OF ok wc])
  let ?s2 = "s1\<lparr>pollReturnTime := now, activeChannels := map snd (report os s)\<rparr>"
  obtain c where c: "connected ?s2 i k c" "ch_revents c = ev"
    by (rule polled_connected[OF ok P k, where ev = ev and t = now and ps = "map snd (report os s)"]) (simp_all add: first)
  have "poller_ok ?s2" by (rule poller_ok_frame[OF polledD(2)[OF P]]) (simp_all add: registered_def)
  moreover have "srvCloseCallback ?s2 = Some Cclose"
    using server_okD(10)[OF ok] by (simp add: server_frame[OF polledD(4)[OF P]])
  moreover have "peer_gone os ?s2 k c" using gone c(2) by (auto simp: peer_gone_def)
  ultimately have "dispatch os (main_user os) (sock_chan k) now ?s2 = Inl UseAfterFree"
    using disconnect_use_after_free[OF c(1) _ one _ main_closes_quietly] by blast
  then show ?thesis by (simp add: iteration_def polledD(1)[OF P] first)
qed

theorem hang_up_crashes_witness:
  "iteration (sample_os 5 1) (dispatch (sample_os 5 1) (main_user (sample_os 5 1)))
     (run_functor (main_user (sample_os 5 1))) resting_server = Some (Inl UseAfterFree)"
proof -
  have "socks resting_server 3 = Some ((conn_socket 5 4)\<lparr>messageCallback := Some (User Message),
      sockCloseCallback := Some Server_connectionClose\<rparr>)"
    "connections resting_server 5 = Some 3" "report (sample_os 5 1) resting_server = [(1, 4)]"
    by (simp_all add: resting_server_def report_def sample_wait_def interest_def to_int32_def)
  then show ?thesis
    using hang_up_crashes[OF resting_at_rest _ _ sample_wait_contract, of 3 _ 5 1 1 "[]"]
    by (simp add: has_def)
qed



end
