(* ===== verification/Serv2.thy ===== *)
theory Serv2
  imports Sys Endian
begin

unbundle bit_operations_syntax

text \<open>
  The edge-triggered echo server of \<^verbatim>\<open>net/test/serv2.cpp\<close>: setting up the listening socket, the
  loop that accepts every waiting connection, the handling of one connection's events, the
  receive loop and the pass over the events that \<^verbatim>\<open>epoll_wait\<close> reported. The handling of a
  connection takes the receive code as an argument, since \<^verbatim>\<open>net/myser2/net.cpp\<close> has the same
  code around another one. A loop that may run forever returns \<open>None\<close> when it does; a
  computation that leaves the enclosing function has the value \<open>Inl\<close> of the return value and the
  state.
\<close>

section \<open>State and results\<close>

type_synonym 'a run = "'a result option"

text \<open>The server's two descriptors.\<close>

record echo = sys +
  ec_epollfd :: fd
  ec_listenfd :: fd

definition MAXLEN :: nat where
  "MAXLEN = 128"

definition nihao :: "byte list" where
  "nihao = [110, 105, 104, 97, 111, 0]"

definition set_nonblock :: "os \<Rightarrow> fd \<Rightarrow> 'a sys_scheme \<Rightarrow> 'a sys_scheme" where
  "set_nonblock os f s =
     (let (flags, s1) = sys_fcntl_get os f F_GETFL s in sys_fcntl_set os f F_SETFL (flags OR O_NONBLOCK) s1)"

section \<open>Setting up\<close>

text \<open>\<open>inet_aton\<close> gives the return value and the address it stores (zero where it stores none,
  since the structure was cleared).\<close>

definition set_up ::
    "os \<Rightarrow> byte_order \<Rightarrow> (string \<Rightarrow> int \<times> int32_t) \<Rightarrow> 'a echo_scheme \<Rightarrow> int + 'a echo_scheme" where
  "set_up os ord inet_aton s =
     (let (re, s1) = sys_epoll_create os s;
          s2 = s1\<lparr>ec_epollfd := (case re of Inl _ \<Rightarrow> - 1 | Inr f \<Rightarrow> f)\<rparr>
      in case sys_socket os s2 of
           (Inl _, s3) \<Rightarrow> Inl 0
         | (Inr lf, s3) \<Rightarrow>
             let s4 = set_nonblock os lf (s3\<lparr>ec_listenfd := lf\<rparr>) in
             case sys_setsockopt os lf s4 of
               (Some _, s5) \<Rightarrow> Inl 0
             | (None, s5) \<Rightarrow>
                 let (ra, ip) = inet_aton ''127.0.0.1'' in
                 if ra = - 1 then Inl 0
                 else case sys_bind os lf \<lparr>sin_family = AF_INET, sin_port = htons ord 6543, s_addr = ip\<rparr> s5 of
                   (Some _, s6) \<Rightarrow> Inl 0
                 | (None, s6) \<Rightarrow>
                     (case sys_listen os lf 128 s6 of
                        (Some _, s7) \<Rightarrow> Inl 0
                      | (None, s7) \<Rightarrow>
                          (case sys_epoll_ctl os (ec_epollfd s7) EPOLL_CTL_ADD lf EPOLLIN (nat lf) s7 of
                             (Some _, s8) \<Rightarrow> Inl (- 1)
                           | (None, s8) \<Rightarrow> Inr s8)))"

section \<open>Accepting\<close>

partial_function (option) accept_loop ::
    "os \<Rightarrow> 'a echo_scheme \<Rightarrow> (int \<times> 'a echo_scheme + 'a echo_scheme) option" where
  "accept_loop os s =
     (case sys_accept os (ec_listenfd s) s of
        (Inl _, s1) \<Rightarrow> Some (Inr s1)
      | (Inr (c, a), s1) \<Rightarrow>
          (case sys_epoll_ctl os (ec_epollfd s) EPOLL_CTL_ADD c (EPOLLIN OR EPOLLET) (nat c)
                  (set_nonblock os c s1) of
             (Some _, s2) \<Rightarrow> Some (Inl (- 1, s2))
           | (None, s2) \<Rightarrow> if c \<noteq> 0 then accept_loop os s2 else Some (Inr s2)))"

section \<open>Receiving\<close>

text \<open>
  The receive loop. \<open>m\<close> is the 129-byte buffer; printing it reads up to the first zero byte, so
  that a buffer without one is read past its end. The result is whether the connection is
  still open.
\<close>

partial_function (option) recv_loop ::
    "os \<Rightarrow> fd \<Rightarrow> byte list \<Rightarrow> 'a sys_scheme \<Rightarrow> (bool \<times> 'a sys_scheme) result option" where
  "recv_loop os f m s =
     (case sys_recv os f (length m) s of
        (Inr d, s1) \<Rightarrow>
          (if d = [] then Some (Inr (False, sys_close os f s1))
           else let m' = d @ drop (length d) m in
                if length m < length d then Some (Inl OutOfBounds)
                else if 0 \<notin> set m' then Some (Inl OutOfBounds)
                else if MAXLEN \<le> length d then recv_loop os f m' s1
                else Some (Inr (True, s1)))
      | (Inl e, s1) \<Rightarrow>
          if e = ECONNRESET then Some (Inr (False, sys_close os f s1))
          else if e = EAGAIN \<or> e = EINTR then Some (Inr (True, s1))
          else Some (Inr (False, sys_close os f s1)))"

definition receive :: "os \<Rightarrow> fd \<Rightarrow> 'a sys_scheme \<Rightarrow> (bool \<times> 'a sys_scheme) result option" where
  "receive os f s = recv_loop os f (replicate (MAXLEN + 1) 0) s"

section \<open>Events\<close>

text \<open>The events of a connection. \<open>rcv\<close> is the code that reads from it.\<close>

definition rearm :: "os \<Rightarrow> fd \<Rightarrow> events \<Rightarrow> fd \<Rightarrow> 'a sys_scheme \<Rightarrow> int \<times> 'a sys_scheme + 'a sys_scheme" where
  "rearm os ep m f s =
     (case sys_epoll_ctl os ep EPOLL_CTL_MOD f m (nat f) s of
        (Some _, s1) \<Rightarrow> Inl (- 1, s1)
      | (None, s1) \<Rightarrow> Inr s1)"

definition conn_event ::
    "os \<Rightarrow> (fd \<Rightarrow> 'a sys_scheme \<Rightarrow> (bool \<times> 'a sys_scheme) result option) \<Rightarrow> fd \<Rightarrow> events \<Rightarrow> fd \<Rightarrow>
     'a sys_scheme \<Rightarrow> (int \<times> 'a sys_scheme + 'a sys_scheme) result option" where
  "conn_event os rcv ep ev f s =
     (if has ev EPOLLERR then Some (Inr (Inr (sys_close os f s)))
      else if has ev EPOLLHUP then Some (Inr (Inr (sys_close os f s)))
      else if has ev EPOLLPRI then Some (Inr (Inr (sys_close os f s)))
      else if has ev EPOLLIN
      then (case rcv f s of
              None \<Rightarrow> None
            | Some (Inl e) \<Rightarrow> Some (Inl e)
            | Some (Inr (tag, s1)) \<Rightarrow>
                Some (Inr (if tag then rearm os ep (EPOLLOUT OR EPOLLET) f s1 else Inr s1)))
      else if has ev EPOLLOUT
      then Some (Inr (rearm os ep (EPOLLIN OR EPOLLET) f (snd (sys_write os f nihao s))))
      else Some (Inr (Inr s)))"

text \<open>The pass over the reported events, with the descriptor in the data of each.\<close>

fun pass ::
    "os \<Rightarrow> ('a echo_scheme \<Rightarrow> (int \<times> 'a echo_scheme + 'a echo_scheme) option) \<Rightarrow>
     (fd \<Rightarrow> 'a echo_scheme \<Rightarrow> (bool \<times> 'a echo_scheme) result option) \<Rightarrow>
     (events \<times> ptr) list \<Rightarrow> 'a echo_scheme \<Rightarrow> (int \<times> 'a echo_scheme + 'a echo_scheme) result option" where
  "pass os acc rcv [] s = Some (Inr (Inr s))"
| "pass os acc rcv ((ev, p) # es) s =
     (case (if ec_listenfd s = int p then map_option Inr (acc s)
            else conn_event os rcv (ec_epollfd s) ev (int p) s) of
        None \<Rightarrow> None
      | Some (Inl e) \<Rightarrow> Some (Inl e)
      | Some (Inr (Inl code)) \<Rightarrow> Some (Inr (Inl code))
      | Some (Inr (Inr s1)) \<Rightarrow> pass os acc rcv es s1)"

text \<open>
  \<^verbatim>\<open>for (uint32_t loop = 0; loop < nfds; loop++)\<close>: the comparison converts \<^verbatim>\<open>nfds\<close> to unsigned,
  so that -1 stands for 4294967295 events; the array has 100 entries.
\<close>

definition pass_all ::
    "os \<Rightarrow> ('a echo_scheme \<Rightarrow> (int \<times> 'a echo_scheme + 'a echo_scheme) option) \<Rightarrow>
     (fd \<Rightarrow> 'a echo_scheme \<Rightarrow> (bool \<times> 'a echo_scheme) result option) \<Rightarrow>
     int \<Rightarrow> (events \<times> ptr) list \<Rightarrow> 'a echo_scheme \<Rightarrow> (int \<times> 'a echo_scheme + 'a echo_scheme) result option" where
  "pass_all os acc rcv nfds arr s =
     (let n = unat (of_int nfds :: 32 word) in
      case pass os acc rcv (take n arr) s of
        None \<Rightarrow> None
      | Some (Inl e) \<Rightarrow> Some (Inl e)
      | Some (Inr (Inl code)) \<Rightarrow> Some (Inr (Inl code))
      | Some (Inr (Inr s1)) \<Rightarrow> if n \<le> length arr then Some (Inr (Inr s1)) else Some (Inl OutOfBounds))"

text \<open>One round of the main loop. The array is a local variable that is not initialised; \<open>stack\<close>
  says what it holds before the call.\<close>

definition serve_round ::
    "os \<Rightarrow> (sys_event list \<Rightarrow> (events \<times> ptr) list) \<Rightarrow> 'a echo_scheme \<Rightarrow>
     (int \<times> 'a echo_scheme + 'a echo_scheme) result option" where
  "serve_round os stack s =
     (let arr = stack (trace s); (r, s1) = sys_epoll_wait os (ec_epollfd s) 100 100 s in
      case r of
        Inl _ \<Rightarrow> pass_all os (accept_loop os) (receive os) (- 1) arr s1
      | Inr evs \<Rightarrow>
          (case store arr 0 evs of
             Inl e \<Rightarrow> Some (Inl e)
           | Inr arr' \<Rightarrow> pass_all os (accept_loop os) (receive os) (int (length evs)) arr' s1))"

partial_function (option) serve ::
    "os \<Rightarrow> (sys_event list \<Rightarrow> (events \<times> ptr) list) \<Rightarrow> 'a echo_scheme \<Rightarrow> int result option" where
  "serve os stack s =
     Option.bind (serve_round os stack s) (\<lambda>r.
       case r of
         Inl e \<Rightarrow> Some (Inl e)
       | Inr (Inl (code, _)) \<Rightarrow> Some (Inr code)
       | Inr (Inr s1) \<Rightarrow> serve os stack s1)"

definition serv2_main ::
    "os \<Rightarrow> byte_order \<Rightarrow> (string \<Rightarrow> int \<times> int32_t) \<Rightarrow> (sys_event list \<Rightarrow> (events \<times> ptr) list) \<Rightarrow>
     int result option" where
  "serv2_main os ord inet_aton stack =
     (case set_up os ord inet_aton \<lparr>trace = [], errno = 0, ec_epollfd = 0, ec_listenfd = 0\<rparr> of
        Inl code \<Rightarrow> Some (Inr code)
      | Inr s \<Rightarrow> serve os stack s)"

section \<open>Vocabulary of the properties\<close>

text \<open>How many connections a trace accepted, and a queue of connections that \<^verbatim>\<open>accept\<close> hands
  out one by one.\<close>

definition accepted :: "fd \<Rightarrow> sys_event list \<Rightarrow> nat" where
  "accepted lf tr = length (filter (\<lambda>ev. case ev of EvAccept g (Inr _) \<Rightarrow> g = lf | _ \<Rightarrow> False) tr)"

definition backlog :: "os \<Rightarrow> fd \<Rightarrow> (fd \<times> sockaddr_in) list \<Rightarrow> bool" where
  "backlog os lf cs \<longleftrightarrow>
     (\<forall>tr. os_accept os tr lf = (if accepted lf tr < length cs then Inr (cs ! accepted lf tr) else Inl EAGAIN))"

text \<open>What a connection is watched for after one of its events, when \<open>r\<close> is what \<^verbatim>\<open>recv\<close> returned.\<close>

definition next_interest ::
    "events \<Rightarrow> int + byte list \<Rightarrow> fd \<Rightarrow> (events \<times> ptr) option \<Rightarrow> (events \<times> ptr) option" where
  "next_interest ev r f old =
     (if has ev EPOLLERR \<or> has ev EPOLLHUP \<or> has ev EPOLLPRI then None
      else if has ev EPOLLIN
      then (case r of
              Inr d \<Rightarrow> if d = [] then None else Some (EPOLLOUT OR EPOLLET, nat f)
            | Inl e \<Rightarrow> if e = EAGAIN \<or> e = EINTR then Some (EPOLLOUT OR EPOLLET, nat f) else None)
      else if has ev EPOLLOUT then Some (EPOLLIN OR EPOLLET, nat f)
      else old)"

text \<open>A server with one connection.\<close>

definition sample_echo :: echo where
  "sample_echo =
     \<lparr>trace = [EvEpollCtl 3 EPOLL_CTL_ADD 5 (EPOLLIN OR EPOLLET) 5 None], errno = 0,
      ec_epollfd = 3, ec_listenfd = 4\<rparr>"

section \<open>Lemmas\<close>

lemma interest_close [simp]:
  "interest ep (trace (sys_close os f s)) = (interest ep (trace s))(f := None)"
  by (simp add: sys_close_def Let_def fun_eq_iff)

lemma interest_nonblock [simp]: "interest ep (trace (set_nonblock os f s)) = interest ep (trace s)"
  by (simp add: set_nonblock_def sys_fcntl_get_def sys_fcntl_set_def Let_def interest_append)

lemma echo_record_call [simp]:
  fixes s :: "'a echo_scheme"
  shows "ec_epollfd (record_call e r s) = ec_epollfd s" "ec_listenfd (record_call e r s) = ec_listenfd s"
  by (simp_all add: record_call_def)

lemma echo_nonblock [simp]:
  fixes s :: "'a echo_scheme"
  shows "ec_epollfd (set_nonblock os f s) = ec_epollfd s" "ec_listenfd (set_nonblock os f s) = ec_listenfd s"
  by (simp_all add: set_nonblock_def sys_fcntl_get_def sys_fcntl_set_def Let_def)

lemma accepted_nonblock [simp]: "accepted lf (trace (set_nonblock os f s)) = accepted lf (trace s)"
  by (simp add: set_nonblock_def sys_fcntl_get_def sys_fcntl_set_def Let_def accepted_def)

lemma rearm_ok:
  assumes "ctl_works os ep f" and "interest ep (trace s) f \<noteq> None"
  shows "\<exists>s'. rearm os ep m f s = Inr s' \<and> interest ep (trace s') = (interest ep (trace s))(f \<mapsto> (m, nat f))"
  using assms by (auto simp: rearm_def sys_epoll_ctl_def Let_def ctl_works_def fun_eq_iff)

lemma receive_short:
  assumes "\<And>d. os_recv os (trace s) f (MAXLEN + 1) = Inr d \<Longrightarrow> length d < MAXLEN"
  shows "\<exists>tag s1. receive os f s = Some (Inr (tag, s1))
    \<and> (tag \<longleftrightarrow> next_interest EPOLLIN (os_recv os (trace s) f (MAXLEN + 1)) f None \<noteq> None)
    \<and> interest ep (trace s1) = (if tag then interest ep (trace s) else (interest ep (trace s))(f := None))"
proof (cases "os_recv os (trace s) f (MAXLEN + 1)")
  case (Inl e)
  then show ?thesis
    unfolding receive_def
    by (subst recv_loop.simps) (auto simp: sys_recv_def next_interest_def has_def Let_def)
next
  case (Inr d)
  then have "length d < MAXLEN" by (rule assms)
  then have "(0 :: byte) \<in> set (d @ drop (length d) (replicate (MAXLEN + 1) 0))"
    by (simp del: replicate_Suc add: drop_replicate)
  with Inr \<open>length d < MAXLEN\<close> show ?thesis
    unfolding receive_def
    by (subst recv_loop.simps) (auto simp: sys_recv_def next_interest_def has_def Let_def)
qed

lemma pass_idle:
  assumes "\<forall>(ev, p) \<in> set es. ev = 0 \<and> int p \<noteq> ec_listenfd s"
  shows "pass os acc rcv es s = Some (Inr (Inr s))"
  using assms by (induction es) (auto simp: conn_event_def)

text \<open>A negative count is more than the array holds.\<close>

lemma pass_all_negative:
  assumes "length arr = 100"
  shows "pass_all os acc rcv (- 1) arr s \<noteq> Some (Inr (Inr s'))"
    and "\<forall>(ev, p) \<in> set arr. ev = 0 \<and> int p \<noteq> ec_listenfd s \<Longrightarrow>
      pass_all os acc rcv (- 1) arr s = Some (Inl OutOfBounds)"
proof -
  have n: "unat (of_int (- 1) :: 32 word) = 4294967295"
    by (simp add: unsigned_minus_1_eq_mask mask_eq_exp_minus_1)
  show "pass_all os acc rcv (- 1) arr s \<noteq> Some (Inr (Inr s'))"
    unfolding pass_all_def n Let_def using assms by (auto split: option.splits sum.splits)
  assume "\<forall>(ev, p) \<in> set arr. ev = 0 \<and> int p \<noteq> ec_listenfd s"
  then have "pass os acc rcv arr s = Some (Inr (Inr s))" by (rule pass_idle)
  then show "pass_all os acc rcv (- 1) arr s = Some (Inl OutOfBounds)"
    unfolding pass_all_def n Let_def using assms by simp
qed

lemma accepted_snoc [simp]:
  "accepted lf (tr @ [EvAccept g (Inr x)]) = (if g = lf then Suc (accepted lf tr) else accepted lf tr)"
  "accepted lf (tr @ [EvEpollCtl ep ctl g m p r]) = accepted lf tr"
  by (simp_all add: accepted_def)

lemma accept_loop_step:
  fixes s :: "'a echo_scheme"
  assumes b: "backlog os (ec_listenfd s) cs" and k: "accepted (ec_listenfd s) (trace s) < length cs"
    and c: "cs ! accepted (ec_listenfd s) (trace s) = (c, a)" "0 < c"
    and works: "ctl_works os (ec_epollfd s) c" "interest (ec_epollfd s) (trace s) c = None"
  shows "\<exists>s'. accept_loop os s = accept_loop os s'
    \<and> accepted (ec_listenfd s) (trace s') = Suc (accepted (ec_listenfd s) (trace s))
    \<and> ec_listenfd s' = ec_listenfd s \<and> ec_epollfd s' = ec_epollfd s
    \<and> interest (ec_epollfd s) (trace s') = (interest (ec_epollfd s) (trace s))(c \<mapsto> (EPOLLIN OR EPOLLET, nat c))"
proof -
  let ?lf = "ec_listenfd s" and ?ep = "ec_epollfd s"
  let ?s1 = "set_nonblock os c (record_call (EvAccept ?lf (Inr (c, a))) None s)"
  have acc: "sys_accept os ?lf s = (Inr (c, a), record_call (EvAccept ?lf (Inr (c, a))) None s)"
    using b k c(1) by (simp add: sys_accept_def Let_def backlog_def)
  let ?s2 = "record_call (EvEpollCtl ?ep EPOLL_CTL_ADD c (EPOLLIN OR EPOLLET) (nat c) None) None ?s1"
  have ctl: "sys_epoll_ctl os ?ep EPOLL_CTL_ADD c (EPOLLIN OR EPOLLET) (nat c) ?s1 = (None, ?s2)"
    using works by (simp add: sys_epoll_ctl_def Let_def ctl_works_def)
  have "accept_loop os s = accept_loop os ?s2"
    using acc ctl c(2) by (subst accept_loop.simps) simp
  then show ?thesis by (intro exI[of _ ?s2]) (simp add: fun_eq_iff)
qed

lemma accept_loop_end:
  fixes s :: "'a echo_scheme"
  assumes "backlog os (ec_listenfd s) cs" and "length cs \<le> accepted (ec_listenfd s) (trace s)"
  shows "\<exists>s'. accept_loop os s = Some (Inr s') \<and> interest ep (trace s') = interest ep (trace s)"
  using assms by (subst accept_loop.simps) (simp add: sys_accept_def Let_def backlog_def)

lemma accept_loop_all:
  fixes s :: "'a echo_scheme"
  assumes "backlog os (ec_listenfd s) cs" and "distinct (map fst cs)"
    and "\<forall>(c, a) \<in> set cs. 0 < c \<and> ctl_works os (ec_epollfd s) c"
    and "\<forall>(c, a) \<in> set (drop (accepted (ec_listenfd s) (trace s)) cs). interest (ec_epollfd s) (trace s) c = None"
  shows "\<exists>s'. accept_loop os s = Some (Inr s')
    \<and> (\<forall>(c, a) \<in> set (drop (accepted (ec_listenfd s) (trace s)) cs).
         interest (ec_epollfd s) (trace s') c = Some (EPOLLIN OR EPOLLET, nat c))
    \<and> (\<forall>g. g \<notin> fst ` set (drop (accepted (ec_listenfd s) (trace s)) cs) \<longrightarrow>
         interest (ec_epollfd s) (trace s') g = interest (ec_epollfd s) (trace s) g)"
  using assms
proof (induction "length cs - accepted (ec_listenfd s) (trace s)" arbitrary: s)
  case 0
  then show ?case using accept_loop_end[of os s cs "ec_epollfd s"] by auto
next
  case (Suc n)
  let ?k = "accepted (ec_listenfd s) (trace s)"
  from Suc.hyps(2) have k: "?k < length cs" by simp
  obtain c a where c: "cs ! ?k = (c, a)" by (cases "cs ! ?k")
  have in_cs: "(c, a) \<in> set cs" using k c by (metis nth_mem)
  have dr: "drop ?k cs = (c, a) # drop (Suc ?k) cs" using k c by (simp add: Cons_nth_drop_Suc[symmetric])
  have "distinct (map fst (drop ?k cs))" using Suc.prems(2) by (metis distinct_drop drop_map)
  then have fresh: "c \<notin> fst ` set (drop (Suc ?k) cs)" by (simp add: dr)
  have works: "0 < c" "ctl_works os (ec_epollfd s) c" "interest (ec_epollfd s) (trace s) c = None"
    using Suc.prems(3,4) in_cs dr by auto
  from accept_loop_step[OF Suc.prems(1) k c works] obtain s1 where
    s1: "accept_loop os s = accept_loop os s1" "accepted (ec_listenfd s) (trace s1) = Suc ?k"
      "ec_listenfd s1 = ec_listenfd s" "ec_epollfd s1 = ec_epollfd s"
      "interest (ec_epollfd s) (trace s1) = (interest (ec_epollfd s) (trace s))(c \<mapsto> (EPOLLIN OR EPOLLET, nat c))"
    by blast
  have "\<forall>(d, b) \<in> set (drop (Suc ?k) cs). interest (ec_epollfd s) (trace s1) d = None"
    using Suc.prems(4) s1(5) fresh dr by force
  moreover have "n = length cs - accepted (ec_listenfd s1) (trace s1)" using Suc.hyps(2) s1 by simp
  ultimately obtain s' where
    s': "accept_loop os s1 = Some (Inr s')"
      "\<forall>(d, b) \<in> set (drop (Suc ?k) cs). interest (ec_epollfd s) (trace s') d = Some (EPOLLIN OR EPOLLET, nat d)"
      "\<forall>g. g \<notin> fst ` set (drop (Suc ?k) cs) \<longrightarrow>
         interest (ec_epollfd s) (trace s') g = interest (ec_epollfd s) (trace s1) g"
    using Suc.hyps(1)[of s1] Suc.prems(1-3) s1(2-4) by auto
  show ?case using s1(1,5) s' fresh by (intro exI[of _ s']) (auto simp: dr)
qed

lemma sample_echo_simps [simp]:
  "ec_epollfd sample_echo = 3" "ec_listenfd sample_echo = 4"
  "trace sample_echo = [EvEpollCtl 3 EPOLL_CTL_ADD 5 (EPOLLIN OR EPOLLET) 5 None]"
  by (simp_all add: sample_echo_def)

section \<open>Properties\<close>



text \<open>The accept loop takes every waiting connection: it ends, and each connection of the queue
  is in the interest list, edge-triggered for reading; no other entry changes. Assumed are the
  contract of \<^verbatim>\<open>epoll_ctl\<close>, positive and distinct descriptors, and that \<^verbatim>\<open>accept\<close> reports
  EAGAIN when the queue is empty.\<close>

theorem accept_loop_drains:
  fixes s :: "'a echo_scheme"
  assumes "backlog os (ec_listenfd s) cs" and "distinct (map fst cs)"
    and "\<forall>(c, a) \<in> set cs. 0 < c \<and> ctl_works os (ec_epollfd s) c
      \<and> interest (ec_epollfd s) (trace s) c = None"
    and "accepted (ec_listenfd s) (trace s) = 0"
  shows "\<exists>s'. accept_loop os s = Some (Inr s')
    \<and> (\<forall>(c, a) \<in> set cs. interest (ec_epollfd s) (trace s') c = Some (EPOLLIN OR EPOLLET, nat c))
    \<and> (\<forall>g. g \<notin> fst ` set cs \<longrightarrow>
         interest (ec_epollfd s) (trace s') g = interest (ec_epollfd s) (trace s) g)"
  using accept_loop_all[OF assms(1,2)] assms(3,4) by (auto simp: case_prod_beta)

theorem accept_loop_drains_witness:
  "\<exists>s'. accept_loop ((sample_os 5 1)\<lparr>os_accept := \<lambda>tr f. if accepted f tr < 1
        then Inr ([(7, \<lparr>sin_family = AF_INET, sin_port = 1, s_addr = 2\<rparr>)] ! accepted f tr)
        else Inl EAGAIN\<rparr>) sample_echo = Some (Inr s')
    \<and> interest 3 (trace s') 7 = Some (EPOLLIN OR EPOLLET, 7)"
proof -
  let ?adr = "\<lparr>sin_family = AF_INET, sin_port = 1, s_addr = 2\<rparr>"
  let ?os = "(sample_os 5 1)\<lparr>os_accept := \<lambda>tr f. if accepted f tr < 1
    then Inr ([(7, ?adr)] ! accepted f tr) else Inl EAGAIN\<rparr>"
  have "backlog ?os (ec_listenfd sample_echo) [(7, ?adr)]" by (simp add: backlog_def)
  moreover have "ctl_works ?os 3 7" by (simp add: ctl_works_def sample_ctl_def)
  ultimately show ?thesis
    using accept_loop_drains[of ?os sample_echo "[(7, ?adr)]"]
    by (auto simp: interest_def accepted_def)
qed

text \<open>An interrupted wait: \<^verbatim>\<open>epoll_wait\<close> returns -1, the loop compares its unsigned counter with
  that and treats the whole array, and what follows it in memory, as events. The round never
  ends normally, and when the array happens to hold nothing of interest the program reads past
  its end.\<close>

theorem interrupted_wait:
  assumes w: "os_epoll_wait os (trace s) (ec_epollfd s) 100 100 = Inl e" and len: "length (stack (trace s)) = 100"
  shows "(\<forall>s'. serve_round os stack s \<noteq> Some (Inr (Inr s')))
    \<and> ((\<forall>(ev, p) \<in> set (stack (trace s)). ev = 0 \<and> int p \<noteq> ec_listenfd s) \<longrightarrow>
        serve_round os stack s = Some (Inl OutOfBounds))"
proof -
  let ?s1 = "record_call (EvEpollWait (ec_epollfd s) 100 100 (Inl e)) (Some e) s"
  have "serve_round os stack s = pass_all os (accept_loop os) (receive os) (- 1) (stack (trace s)) ?s1"
    using w by (simp add: serve_round_def sys_epoll_wait_def Let_def)
  with pass_all_negative[OF len, where s = ?s1] show ?thesis by simp
qed

theorem interrupted_wait_witness:
  "serve_round ((sample_os 5 1)\<lparr>os_epoll_wait := \<lambda>tr ep n t. Inl EINTR\<rparr>) (\<lambda>tr. replicate 100 (0, 0)) sample_echo
    = Some (Inl OutOfBounds)"
  using interrupted_wait[of "(sample_os 5 1)\<lparr>os_epoll_wait := \<lambda>tr ep n t. Inl EINTR\<rparr>" sample_echo EINTR
      "\<lambda>tr. replicate 100 (0, 0)"]
  by simp

text \<open>A receive that fills the buffer with bytes other than zero is printed as a string without
  an end: the buffer has 129 bytes and \<^verbatim>\<open>recv\<close> is allowed to fill all of them.\<close>

theorem recv_unterminated:
  assumes "os_recv os (trace s) f (MAXLEN + 1) = Inr d" and "length d = MAXLEN + 1" and "0 \<notin> set d"
  shows "receive os f s = Some (Inl OutOfBounds)"
  unfolding receive_def using assms
  by (subst recv_loop.simps) (auto simp: sys_recv_def Let_def)

theorem recv_unterminated_witness:
  "receive ((sample_os 5 1)\<lparr>os_recv := \<lambda>tr f n. Inr (replicate n 97)\<rparr>) 5 sample_echo
    = Some (Inl OutOfBounds)"
  by (rule recv_unterminated[where d = "replicate (MAXLEN + 1) 97"]) simp_all

end
