(* ===== verification/Myser2.thy ===== *)
theory Myser2
  imports Serv2
begin

unbundle bit_operations_syntax

text \<open>
  The pre-forking server of \<^verbatim>\<open>net/myser2\<close> (\<^verbatim>\<open>net.cpp\<close>, \<^verbatim>\<open>net.h\<close>, \<^verbatim>\<open>global.cpp\<close>, \<^verbatim>\<open>main.cpp\<close>):
  installing the signal handlers and the shared queues, setting up the listening socket,
  \<^verbatim>\<open>readn\<close>, accepting, and one round of the event loop, which parent and children run. The
  functions \<^verbatim>\<open>recv_from_cli\<close> and \<^verbatim>\<open>read_from_parent\<close> are called by the source but not
  defined in it, so they are parameters, and so are \<^verbatim>\<open>inet_aton\<close>, \<^verbatim>\<open>mmap\<close> and the results of
  \<^verbatim>\<open>fork\<close>.
\<close>

section \<open>State\<close>

text \<open>The shared queue of a child; \<open>None\<close> in \<open>dq_addr\<close> is \<^verbatim>\<open>MAP_FAILED\<close>.\<close>

record data_block_queue =
  dq_addr :: "ptr option"
  dq_maxlen :: int32_t

datatype sighandler = Sigterm_handler | Sigpipe_handler | Sighup_handler | Sigchild_handler

text \<open>The globals: the event array of \<^verbatim>\<open>einfo\<close>, the queue pointers of \<^verbatim>\<open>g_servers\<close> and the queues
  they point to, and the signal dispositions. \<^verbatim>\<open>einfo.epollfd\<close> and \<^verbatim>\<open>listenfd\<close> are the descriptors of
  \<open>echo\<close>.\<close>

record myser = echo +
  einfo_events :: "(events \<times> ptr) list"
  recv_qs :: "ptr option list"
  queues :: "ptr \<rightharpoonup> data_block_queue"
  handlers :: "int \<rightharpoonup> sighandler"
  unblocked :: "int set"

abbreviation SIGHUP :: int where "SIGHUP \<equiv> 1"
abbreviation SIGINT :: int where "SIGINT \<equiv> 2"
abbreviation SIGQUIT :: int where "SIGQUIT \<equiv> 3"
abbreviation SIGILL :: int where "SIGILL \<equiv> 4"
abbreviation SIGBUS :: int where "SIGBUS \<equiv> 7"
abbreviation SIGFPE :: int where "SIGFPE \<equiv> 8"
abbreviation SIGPIPE :: int where "SIGPIPE \<equiv> 13"
abbreviation SIGTERM :: int where "SIGTERM \<equiv> 15"
abbreviation SIGCHLD :: int where "SIGCHLD \<equiv> 17"

definition MAX_PID_CNT :: nat where
  "MAX_PID_CNT = 3"

text \<open>The globals at program start: everything is zero.\<close>

definition globals :: myser where
  "globals =
     \<lparr>trace = [], errno = 0, ec_epollfd = 0, ec_listenfd = 0, einfo_events = replicate 100 (0, 0),
      recv_qs = replicate MAX_PID_CNT None, queues = Map.empty, handlers = Map.empty,
      unblocked = {}\<rparr>"

section \<open>Start-up\<close>

definition create_stack ::
    "(int \<Rightarrow> ptr option) \<Rightarrow> ptr option \<Rightarrow> int \<Rightarrow> 'a myser_scheme \<Rightarrow> (int \<times> 'a myser_scheme) result" where
  "create_stack mmap pdbq len s =
     (case pdbq of
        None \<Rightarrow> Inl NullPointer
      | Some q \<Rightarrow>
          let a = mmap len in
          Inr (if a = None then - 1 else 0,
               s\<lparr>queues := (queues s)(q \<mapsto> \<lparr>dq_addr = a, dq_maxlen = of_int len\<rparr>)\<rparr>))"

fun create_stacks ::
    "(int \<Rightarrow> ptr option) \<Rightarrow> ptr option list \<Rightarrow> 'a myser_scheme \<Rightarrow> 'a myser_scheme result" where
  "create_stacks mmap [] s = Inr s"
| "create_stacks mmap (q # qs) s =
     rbind (create_stack mmap q (1024 * 1024) s) (\<lambda>(_, s1). create_stacks mmap qs s1)"

definition init_proc :: "(int \<Rightarrow> ptr option) \<Rightarrow> 'a myser_scheme \<Rightarrow> (int \<times> 'a myser_scheme) result" where
  "init_proc mmap s =
     rbind (create_stacks mmap (take MAX_PID_CNT (recv_qs s)) s) (\<lambda>s1.
       Inr (0, s1\<lparr>handlers := (handlers s1)(SIGINT \<mapsto> Sigterm_handler, SIGTERM \<mapsto> Sigterm_handler,
                    SIGQUIT \<mapsto> Sigterm_handler, SIGPIPE \<mapsto> Sigpipe_handler, SIGHUP \<mapsto> Sighup_handler,
                    SIGCHLD \<mapsto> Sigchild_handler),
                  unblocked := unblocked s1 \<union> {SIGBUS, SIGILL, SIGCHLD, SIGFPE}\<rparr>))"

definition init_net ::
    "os \<Rightarrow> byte_order \<Rightarrow> (string \<Rightarrow> int \<times> int32_t) \<Rightarrow> string \<Rightarrow> int \<Rightarrow> 'a echo_scheme \<Rightarrow>
     int \<times> 'a echo_scheme" where
  "init_net os ord inet_aton ip port s =
     (let (re, s1) = sys_epoll_create os s;
          s2 = s1\<lparr>ec_epollfd := (case re of Inl _ \<Rightarrow> - 1 | Inr f \<Rightarrow> f)\<rparr>;
          (rs, s3) = sys_socket os s2;
          lf = (case rs of Inl _ \<Rightarrow> - 1 | Inr f \<Rightarrow> f);
          s4 = s3\<lparr>ec_listenfd := lf\<rparr>
      in if lf = - 1 then (- 1, s4)
         else let (ro, s5) = sys_setsockopt os lf (set_nonblock os lf s4) in
         if ro \<noteq> None then (- 1, s5)
         else let (ra, adr) = inet_aton ip in
         if ra = - 1 then (- 1, s5)
         else let (rb, s6) = sys_bind os lf
                     \<lparr>sin_family = AF_INET, sin_port = htons ord (of_int port), s_addr = adr\<rparr> s5 in
         if rb \<noteq> None then (- 1, s6)
         else let (rl, s7) = sys_listen os lf 128 s6 in
         if rl \<noteq> None then (- 1, s7)
         else let (rc, s8) = sys_epoll_ctl os (ec_epollfd s7) EPOLL_CTL_ADD lf EPOLLIN (nat lf) s7 in
         if rc \<noteq> None then (- 1, s8) else (0, s8))"

definition exit_net :: "os \<Rightarrow> 'a echo_scheme \<Rightarrow> int \<times> 'a echo_scheme" where
  "exit_net os s = (let s1 = sys_close os (ec_epollfd s) s in (0, sys_close os (ec_listenfd s1) s1))"

section \<open>Reading and accepting\<close>

text \<open>\<^verbatim>\<open>readn\<close>: \<open>cnt\<close> is the local variable, \<open>d\<close> what has been stored at \<^verbatim>\<open>bp\<close> so far.\<close>

partial_function (option) readn_loop ::
    "os \<Rightarrow> fd \<Rightarrow> int \<Rightarrow> int \<Rightarrow> byte list \<Rightarrow> 'a sys_scheme \<Rightarrow> (int \<times> byte list \<times> 'a sys_scheme) option" where
  "readn_loop os f len cnt d s =
     (if 0 < cnt
      then (case sys_recv os f (nat cnt) s of
              (Inl e, s1) \<Rightarrow> if e = EINTR then readn_loop os f len cnt d s1 else Some (- 1, d, s1)
            | (Inr x, s1) \<Rightarrow>
                if x = [] then Some (len - cnt, d, s1)
                else readn_loop os f len (cnt - int (length x)) (d @ x) s1)
      else Some (len, d, s))"

definition readn ::
    "os \<Rightarrow> fd \<Rightarrow> nat \<Rightarrow> 'a sys_scheme \<Rightarrow> (int \<times> byte list \<times> 'a sys_scheme) option" where
  "readn os f len s = readn_loop os f (to_int32 (int len)) (to_int32 (int len)) [] s"

text \<open>\<^verbatim>\<open>recv_data(fd, data, len)\<close>: it reads the 8-byte header; with a whole header it ends without
  a return value (\<open>None\<close>).\<close>

definition recv_header ::
    "os \<Rightarrow> fd \<Rightarrow> 'a sys_scheme \<Rightarrow> (int option \<times> 'a sys_scheme) option" where
  "recv_header os f s =
     map_option (\<lambda>(rc, d, s1). (if rc \<noteq> 8 then Some (if rc < 0 then - 1 else 0) else None, s1))
       (readn os f 8 s)"

definition do_add_event :: "os \<Rightarrow> fd \<Rightarrow> 'a echo_scheme \<Rightarrow> int \<times> 'a echo_scheme" where
  "do_add_event os f s =
     (case sys_epoll_ctl os (ec_epollfd s) EPOLL_CTL_ADD f (EPOLLIN OR EPOLLET) (nat f) (set_nonblock os f s) of
        (Some _, s1) \<Rightarrow> (- 1, s1)
      | (None, s1) \<Rightarrow> (0, s1))"

definition do_accept :: "os \<Rightarrow> fd \<Rightarrow> 'a echo_scheme \<Rightarrow> int \<times> 'a echo_scheme" where
  "do_accept os lf s =
     (case sys_accept os lf s of
        (Inl _, s1) \<Rightarrow> (- 1, s1)
      | (Inr (c, a), s1) \<Rightarrow> do_add_event os c s1)"

text \<open>\<^verbatim>\<open>while (!do_accept(listenfd));\<close>\<close>

partial_function (option) accept_while :: "os \<Rightarrow> 'a echo_scheme \<Rightarrow> 'a echo_scheme option" where
  "accept_while os s =
     (case do_accept os (ec_listenfd s) s of
        (r, s1) \<Rightarrow> if r = 0 then accept_while os s1 else Some s1)"

section \<open>The event loop\<close>

text \<open>One call of \<^verbatim>\<open>net_loop\<close>: the return value and the state. The array is the global one.\<close>

definition net_loop ::
    "os \<Rightarrow> (fd \<Rightarrow> 'a myser_scheme \<Rightarrow> (bool \<times> 'a myser_scheme) result option) \<Rightarrow>
     (fd \<Rightarrow> 'a myser_scheme \<Rightarrow> (bool \<times> 'a myser_scheme) result option) \<Rightarrow> int \<Rightarrow> 'a myser_scheme \<Rightarrow>
     (int \<times> 'a myser_scheme) result option" where
  "net_loop os recv_from_cli read_from_parent parent s =
     (let (r, s1) = sys_epoll_wait os (ec_epollfd s) 100 100 s;
          go = (\<lambda>nfds arr s2.
            case pass_all os (\<lambda>s. map_option Inr (accept_while os s))
                   (if parent \<noteq> 0 then recv_from_cli else read_from_parent) nfds arr s2 of
              None \<Rightarrow> None
            | Some (Inl e) \<Rightarrow> Some (Inl e)
            | Some (Inr (Inl (code, s3))) \<Rightarrow> Some (Inr (code, s3))
            | Some (Inr (Inr s3)) \<Rightarrow> Some (Inr (0, s3)))
      in case r of
           Inl _ \<Rightarrow> go (- 1) (einfo_events s1) s1
         | Inr evs \<Rightarrow>
             (case store (einfo_events s1) 0 evs of
                Inl e \<Rightarrow> Some (Inl e)
              | Inr arr \<Rightarrow> go (int (length evs)) arr (s1\<lparr>einfo_events := arr\<rparr>)))"

partial_function (option) net_forever ::
    "os \<Rightarrow> (fd \<Rightarrow> 'a myser_scheme \<Rightarrow> (bool \<times> 'a myser_scheme) result option) \<Rightarrow>
     (fd \<Rightarrow> 'a myser_scheme \<Rightarrow> (bool \<times> 'a myser_scheme) result option) \<Rightarrow> int \<Rightarrow> 'a myser_scheme \<Rightarrow>
     int result option" where
  "net_forever os recv_from_cli read_from_parent parent s =
     Option.bind (net_loop os recv_from_cli read_from_parent parent s) (\<lambda>r.
       case r of
         Inl e \<Rightarrow> Some (Inl e)
       | Inr (_, s1) \<Rightarrow> net_forever os recv_from_cli read_from_parent parent s1)"

text \<open>What a process becomes in the fork loop of \<^verbatim>\<open>main\<close>; \<open>fork n\<close> is the result of the call in
  round \<open>n\<close>.\<close>

datatype role = Parent | Child | Exit int

fun fork_loop :: "(nat \<Rightarrow> int) \<Rightarrow> nat \<Rightarrow> nat \<Rightarrow> role" where
  "fork_loop fork 0 n = Parent"
| "fork_loop fork (Suc k) n =
     (if 0 < fork n then fork_loop fork k (Suc n) else if fork n = 0 then Child else Exit (- 1))"

definition myser2_main ::
    "os \<Rightarrow> byte_order \<Rightarrow> (string \<Rightarrow> int \<times> int32_t) \<Rightarrow> (int \<Rightarrow> ptr option) \<Rightarrow> (nat \<Rightarrow> int) \<Rightarrow>
     (fd \<Rightarrow> myser \<Rightarrow> (bool \<times> myser) result option) \<Rightarrow>
     (fd \<Rightarrow> myser \<Rightarrow> (bool \<times> myser) result option) \<Rightarrow> myser \<Rightarrow> int result option" where
  "myser2_main os ord inet_aton mmap fork recv_from_cli read_from_parent s =
     (case init_proc mmap s of
        Inl e \<Rightarrow> Some (Inl e)
      | Inr (r, s1) \<Rightarrow>
          if r \<noteq> 0 then Some (Inr (- 1))
          else let s2 = snd (init_net os ord inet_aton ''127.0.0.1'' 10000 s1) in
          case fork_loop fork MAX_PID_CNT 0 of
            Exit code \<Rightarrow> Some (Inr code)
          | Child \<Rightarrow> net_forever os recv_from_cli read_from_parent 0 (snd (exit_net os s2))
          | Parent \<Rightarrow> net_forever os recv_from_cli read_from_parent 1 s2)"

section \<open>Vocabulary of the properties\<close>

text \<open>How often a receive on a descriptor was interrupted, and the bytes it delivered, read off the
  trace.\<close>

definition interrupts :: "fd \<Rightarrow> sys_event list \<Rightarrow> nat" where
  "interrupts f tr = length (filter (\<lambda>ev. case ev of EvRecv g n (Inl e) \<Rightarrow> g = f \<and> e = EINTR | _ \<Rightarrow> False) tr)"

fun recv_by :: "fd \<Rightarrow> sys_event \<Rightarrow> byte list" where
  "recv_by f (EvRecv g n (Inr d)) = (if g = f then d else [])"
| "recv_by f _ = []"

definition recv_bytes :: "fd \<Rightarrow> sys_event list \<Rightarrow> byte list" where
  "recv_bytes f tr = concat (map (recv_by f) tr)"

text \<open>What \<^verbatim>\<open>recv\<close> promises: no more bytes than asked for, and only so many interruptions.\<close>

definition recv_contract :: "os \<Rightarrow> fd \<Rightarrow> nat \<Rightarrow> bool" where
  "recv_contract os f bound \<longleftrightarrow>
     (\<forall>tr n. (\<forall>d. os_recv os tr f n = Inr d \<longrightarrow> length d \<le> n)
        \<and> (os_recv os tr f n = Inl EINTR \<longrightarrow> interrupts f tr < bound))"

section \<open>Lemmas\<close>

lemma recv_bytes_snoc [simp]:
  "recv_bytes f (tr @ [EvRecv f n r]) = recv_bytes f tr @ (case r of Inl e \<Rightarrow> [] | Inr d \<Rightarrow> d)"
  by (auto simp: recv_bytes_def split: sum.splits)

lemma interrupts_snoc [simp]:
  "interrupts f (tr @ [EvRecv f n r]) = interrupts f tr + (if r = Inl EINTR then 1 else 0)"
  by (auto simp: interrupts_def split: sum.splits)

text \<open>One turn of the loop.\<close>

lemma readn_loop_recv:
  assumes "0 < cnt" and "os_recv os (trace s) f (nat cnt) = r"
  defines "s1 \<equiv> record_call (EvRecv f (nat cnt) r) (err_of r) s"
  shows "readn_loop os f len cnt d s =
    (case r of Inl e \<Rightarrow> if e = EINTR then readn_loop os f len cnt d s1 else Some (- 1, d, s1)
     | Inr x \<Rightarrow> if x = [] then Some (len - cnt, d, s1) else readn_loop os f len (cnt - int (length x)) (d @ x) s1)"
  using assms by (subst readn_loop.simps) (simp add: sys_recv_def Let_def split: sum.splits)

text \<open>The result when \<open>cnt\<close> bytes were wanted and \<open>x\<close> have come: all of them, the end of the stream, or an
  error.\<close>

definition readn_result :: "int \<Rightarrow> int \<Rightarrow> int \<Rightarrow> byte list \<Rightarrow> bool" where
  "readn_result len cnt r x \<longleftrightarrow> r = len \<and> int (length x) = cnt
     \<or> r = len - cnt + int (length x) \<and> int (length x) < cnt \<or> r = - 1 \<and> int (length x) < cnt"

lemma readn_loop_spec:
  fixes s :: "'a sys_scheme"
  assumes c: "recv_contract os f bound" and "0 \<le> cnt"
  shows "\<exists>r x s'. readn_loop os f len cnt d s = Some (r, d @ x, s')
    \<and> recv_bytes f (trace s') = recv_bytes f (trace s) @ x \<and> readn_result len cnt r x"
  using assms(2)
proof (induction "nat cnt + (bound - interrupts f (trace s))" arbitrary: cnt d s rule: less_induct)
  case less
  show ?case
  proof (cases "0 < cnt")
    case False
    with less.prems show ?thesis by (subst readn_loop.simps) (simp add: readn_result_def)
  next
    case pos: True
    let ?r = "os_recv os (trace s) f (nat cnt)"
    let ?s1 = "record_call (EvRecv f (nat cnt) ?r) (err_of ?r) s"
    note step = readn_loop_recv[OF pos refl, where os = os and s = s and f = f and len = len and d = d]
    consider (again) "?r = Inl EINTR" | (err) e where "?r = Inl e" "e \<noteq> EINTR" | (eof) "?r = Inr []"
      | (some) y where "?r = Inr y" "y \<noteq> []" by (cases ?r) auto
    then show ?thesis
    proof cases
      case again
      with c have "interrupts f (trace s) < bound" by (auto simp: recv_contract_def)
      with less.hyps[of cnt ?s1 d] less.prems again show ?thesis by (simp add: step)
    next
      case err
      with pos show ?thesis
        by (intro exI[of _ "- 1"] exI[of _ "[]"] exI[of _ ?s1]) (simp add: step readn_result_def)
    next
      case eof
      with pos show ?thesis
        by (intro exI[of _ "len - cnt"] exI[of _ "[]"] exI[of _ ?s1]) (simp add: step readn_result_def)
    next
      case some
      with c pos have y: "int (length y) \<le> cnt" by (fastforce simp: recv_contract_def)
      have "nat (cnt - int (length y)) < nat cnt" using some pos by (cases y) auto
      with less.hyps[of "cnt - int (length y)" ?s1 "d @ y"] y some(1) obtain r x s' where
        ih: "readn_loop os f len (cnt - int (length y)) (d @ y) ?s1 = Some (r, (d @ y) @ x, s')"
          "recv_bytes f (trace s') = recv_bytes f (trace s) @ y @ x"
          "readn_result len (cnt - int (length y)) r x"
        by auto
      with some show ?thesis
        by (intro exI[of _ r] exI[of _ "y @ x"] exI[of _ s']) (auto simp: step readn_result_def)
    qed
  qed
qed

lemma accept_loop_while:
  fixes s :: "'a echo_scheme"
  assumes "accept_loop os s = Some r"
  shows "(\<forall>tr a. os_accept os tr (ec_listenfd s) \<noteq> Inr (0, a)) \<longrightarrow>
    accept_while os s = Some (case r of Inl (_, s') \<Rightarrow> s' | Inr s' \<Rightarrow> s')"
  using assms
proof (rule accept_loop.raw_induct[rotated, where P = "\<lambda>os s r.
      (\<forall>tr a. os_accept os tr (ec_listenfd s) \<noteq> Inr (0, a)) \<longrightarrow>
      accept_while os s = Some (case r of Inl (_, s') \<Rightarrow> s' | Inr s' \<Rightarrow> s')"])
  fix al os r and s :: "'a echo_scheme"
  assume IH: "\<And>os s r. al os s = Some r \<Longrightarrow> (\<forall>tr a. os_accept os tr (ec_listenfd s) \<noteq> Inr (0, a)) \<longrightarrow>
      accept_while os s = Some (case r of Inl (_, s') \<Rightarrow> s' | Inr s' \<Rightarrow> s')"
    and body: "(case sys_accept os (ec_listenfd s) s of
        (Inl _, s1) \<Rightarrow> Some (Inr s1)
      | (Inr (c, a), s1) \<Rightarrow>
          (case sys_epoll_ctl os (ec_epollfd s) EPOLL_CTL_ADD c (EPOLLIN OR EPOLLET) (nat c)
                  (set_nonblock os c s1) of
             (Some _, s2) \<Rightarrow> Some (Inl (- 1, s2))
           | (None, s2) \<Rightarrow> if c \<noteq> 0 then al os s2 else Some (Inr s2))) = Some r"
  show "(\<forall>tr a. os_accept os tr (ec_listenfd s) \<noteq> Inr (0, a)) \<longrightarrow>
    accept_while os s = Some (case r of Inl (_, s') \<Rightarrow> s' | Inr s' \<Rightarrow> s')"
  proof
    assume nz: "\<forall>tr a. os_accept os tr (ec_listenfd s) \<noteq> Inr (0, a)"
    show "accept_while os s = Some (case r of Inl (_, s') \<Rightarrow> s' | Inr s' \<Rightarrow> s')"
      using body nz
      by (subst accept_while.simps)
        (auto simp: do_accept_def do_add_event_def sys_accept_def sys_epoll_ctl_def Let_def
          split: sum.splits option.splits if_splits prod.splits dest!: IH)
  qed
qed

lemma create_stacks_ok:
  "\<forall>q \<in> set qs. q \<noteq> None \<Longrightarrow>
   yields (create_stacks mmap qs s) (\<lambda>s'. handlers s' = handlers s \<and> unblocked s' = unblocked s
     \<and> (\<forall>q. Some q \<in> set qs \<longrightarrow> map_option dq_maxlen (queues s' q) = Some (1024 * 1024))
     \<and> (\<forall>q. Some q \<notin> set qs \<longrightarrow> queues s' q = queues s q))"
proof (induction qs arbitrary: s)
  case (Cons q qs)
  then obtain p where q: "q = Some p" by auto
  let ?s = "s\<lparr>queues := (queues s)(p \<mapsto> \<lparr>dq_addr = mmap (1024 * 1024), dq_maxlen = of_int (1024 * 1024)\<rparr>)\<rparr>"
  from Cons.IH[of ?s] Cons.prems obtain s' where s': "create_stacks mmap qs ?s = Inr s'"
      "handlers s' = handlers s" "unblocked s' = unblocked s"
      "\<forall>r. Some r \<in> set qs \<longrightarrow> map_option dq_maxlen (queues s' r) = Some (1024 * 1024)"
      "\<forall>r. Some r \<notin> set qs \<longrightarrow> queues s' r = queues ?s r"
    by (auto elim!: yieldsE simp del: map_option_eq_Some)
  have "map_option dq_maxlen (queues s' r) = Some (1024 * 1024)" if "Some r \<in> set (q # qs)" for r
  proof (cases "Some r \<in> set qs")
    case True
    with s'(4) show ?thesis by blast
  next
    case False
    with that q have "r = p" by simp
    moreover from False s'(5) have "queues s' r = queues ?s r" by blast
    ultimately show ?thesis by simp
  qed
  moreover have "queues s' r = queues s r" if "Some r \<notin> set (q # qs)" for r
    using s'(5) that q by simp
  moreover have "create_stacks mmap (q # qs) s = Inr s'"
    using s'(1) by (simp add: q create_stack_def Let_def)
  ultimately show ?case using s'(2,3) by simp
qed simp

lemma net_loop_interrupted:
  fixes s :: "'a myser_scheme"
  assumes w: "os_epoll_wait os (trace s) (ec_epollfd s) 100 100 = Inl e"
    and z: "einfo_events s = replicate 100 (0, 0)" "ec_listenfd s \<noteq> 0"
  shows "net_loop os recv_from_cli read_from_parent parent s = Some (Inl OutOfBounds)"
proof -
  let ?s1 = "record_call (EvEpollWait (ec_epollfd s) 100 100 (Inl e)) (Some e) s"
  have arr: "einfo_events ?s1 = replicate 100 (0, 0)" using z by (simp add: record_call_def)
  have "pass_all os acc rcv (- 1) (einfo_events ?s1) ?s1 = Some (Inl OutOfBounds)" for acc rcv
    by (rule pass_all_negative(2)) (use z in \<open>auto simp: arr\<close>)
  then show ?thesis
    using w by (simp add: net_loop_def sys_epoll_wait_def Let_def)
qed

section \<open>Properties\<close>



text \<open>C35. The accept loop of this server, \<^verbatim>\<open>while (!do_accept(listenfd));\<close>, and the one of
  \<^verbatim>\<open>serv2.cpp\<close> do the same on a queue of connections with positive descriptors: both end in the
  same state, with every connection in the interest list.\<close>

theorem accept_while_drains:
  fixes s :: "'a echo_scheme"
  assumes b: "backlog os (ec_listenfd s) cs" and d: "distinct (map fst cs)"
    and cs: "\<forall>(c, a) \<in> set cs. 0 < c \<and> ctl_works os (ec_epollfd s) c
      \<and> interest (ec_epollfd s) (trace s) c = None"
    and k: "accepted (ec_listenfd s) (trace s) = 0"
  shows "\<exists>s'. accept_while os s = Some s'
    \<and> accept_loop os s = Some (Inr s')
    \<and> (\<forall>(c, a) \<in> set cs. interest (ec_epollfd s) (trace s') c = Some (EPOLLIN OR EPOLLET, nat c))"
proof -
  have nz: "os_accept os tr (ec_listenfd s) \<noteq> Inr (0, a)" for tr a
  proof
    assume "os_accept os tr (ec_listenfd s) = Inr (0, a)"
    then have "(0, a) \<in> set cs" using b by (auto simp: backlog_def split: if_splits) (metis nth_mem)
    with cs show False by auto
  qed
  have pre: "\<forall>(c, a) \<in> set cs. 0 < c \<and> ctl_works os (ec_epollfd s) c"
    "\<forall>(c, a) \<in> set (drop (accepted (ec_listenfd s) (trace s)) cs). interest (ec_epollfd s) (trace s) c = None"
    using cs k by auto
  from accept_loop_all[OF b d pre] k obtain s' where s': "accept_loop os s = Some (Inr s')"
      "\<forall>(c, a) \<in> set cs. interest (ec_epollfd s) (trace s') c = Some (EPOLLIN OR EPOLLET, nat c)"
    by auto
  with accept_loop_while[OF s'(1)] nz show ?thesis by auto
qed

theorem accept_while_drains_witness:
  "\<exists>s'. accept_while ((sample_os 5 1)\<lparr>os_accept := \<lambda>tr f. if accepted f tr < 1
        then Inr ([(7, \<lparr>sin_family = AF_INET, sin_port = 1, s_addr = 2\<rparr>)] ! accepted f tr)
        else Inl EAGAIN\<rparr>) sample_echo = Some s'
    \<and> interest 3 (trace s') 7 = Some (EPOLLIN OR EPOLLET, 7)"
proof -
  let ?adr = "\<lparr>sin_family = AF_INET, sin_port = 1, s_addr = 2\<rparr>"
  let ?os = "(sample_os 5 1)\<lparr>os_accept := \<lambda>tr f. if accepted f tr < 1
    then Inr ([(7, ?adr)] ! accepted f tr) else Inl EAGAIN\<rparr>"
  have "backlog ?os (ec_listenfd sample_echo) [(7, ?adr)]" by (simp add: backlog_def)
  moreover have "ctl_works ?os 3 7" by (simp add: ctl_works_def sample_ctl_def)
  ultimately show ?thesis
    using accept_while_drains[of ?os sample_echo "[(7, ?adr)]"]
    by (auto simp: interest_def accepted_def)
qed

text \<open>The program faults at once: the queue pointers in \<^verbatim>\<open>g_servers\<close> are never set, and
  \<^verbatim>\<open>init_proc\<close> passes them to \<^verbatim>\<open>create_stack\<close>, which writes through the null pointer. With
  pointers that are set, \<^verbatim>\<open>init_proc\<close> creates the queues and installs the handlers.\<close>

theorem program_start_null:
  "myser2_main os ord inet_aton mmap fork recv_from_cli read_from_parent globals = Some (Inl NullPointer)
   \<and> (\<forall>s :: 'a myser_scheme. (\<forall>q \<in> set (take MAX_PID_CNT (recv_qs s)). q \<noteq> None) \<longrightarrow>
        yields (init_proc mmap s) (\<lambda>(ret, s'). ret = 0
          \<and> handlers s' SIGCHLD = Some Sigchild_handler \<and> handlers s' SIGPIPE = Some Sigpipe_handler
          \<and> handlers s' SIGHUP = Some Sighup_handler
          \<and> (\<forall>sig \<in> {SIGINT, SIGTERM, SIGQUIT}. handlers s' sig = Some Sigterm_handler)
          \<and> (\<forall>q. Some q \<in> set (take MAX_PID_CNT (recv_qs s)) \<longrightarrow>
               map_option dq_maxlen (queues s' q) = Some (1024 * 1024))))"
proof
  show "myser2_main os ord inet_aton mmap fork recv_from_cli read_from_parent globals = Some (Inl NullPointer)"
    by (simp add: myser2_main_def init_proc_def globals_def MAX_PID_CNT_def create_stack_def numeral_3_eq_3)
  show "\<forall>s :: 'a myser_scheme. (\<forall>q \<in> set (take MAX_PID_CNT (recv_qs s)). q \<noteq> None) \<longrightarrow>
        yields (init_proc mmap s) (\<lambda>(ret, s'). ret = 0
          \<and> handlers s' SIGCHLD = Some Sigchild_handler \<and> handlers s' SIGPIPE = Some Sigpipe_handler
          \<and> handlers s' SIGHUP = Some Sighup_handler
          \<and> (\<forall>sig \<in> {SIGINT, SIGTERM, SIGQUIT}. handlers s' sig = Some Sigterm_handler)
          \<and> (\<forall>q. Some q \<in> set (take MAX_PID_CNT (recv_qs s)) \<longrightarrow>
               map_option dq_maxlen (queues s' q) = Some (1024 * 1024)))"
  proof (intro allI impI)
    fix s :: "'a myser_scheme"
    assume "\<forall>q \<in> set (take MAX_PID_CNT (recv_qs s)). q \<noteq> None"
    from create_stacks_ok[OF this, of mmap s] show "yields (init_proc mmap s) (\<lambda>(ret, s'). ret = 0
          \<and> handlers s' SIGCHLD = Some Sigchild_handler \<and> handlers s' SIGPIPE = Some Sigpipe_handler
          \<and> handlers s' SIGHUP = Some Sighup_handler
          \<and> (\<forall>sig \<in> {SIGINT, SIGTERM, SIGQUIT}. handlers s' sig = Some Sigterm_handler)
          \<and> (\<forall>q. Some q \<in> set (take MAX_PID_CNT (recv_qs s)) \<longrightarrow>
               map_option dq_maxlen (queues s' q) = Some (1024 * 1024)))"
      by (auto simp: init_proc_def yields_rbind elim!: yields_mono)
  qed
qed

theorem program_start_null_witness:
  "yields (init_proc (\<lambda>len. Some 9) (globals\<lparr>recv_qs := [Some 4, Some 5, Some 6]\<rparr>))
     (\<lambda>(ret, s'). ret = 0 \<and> handlers s' SIGCHLD = Some Sigchild_handler
        \<and> map_option dq_maxlen (queues s' 5) = Some 1048576)"
proof -
  let ?s = "globals\<lparr>recv_qs := [Some 4, Some 5, Some 6]\<rparr>"
  have "\<forall>q \<in> set (take MAX_PID_CNT (recv_qs ?s)). q \<noteq> None" by (simp add: MAX_PID_CNT_def)
  with program_start_null[where mmap = "\<lambda>len. Some 9"]
  have "yields (init_proc (\<lambda>len. Some 9) ?s) (\<lambda>(ret, s'). ret = 0
      \<and> handlers s' SIGCHLD = Some Sigchild_handler \<and> handlers s' SIGPIPE = Some Sigpipe_handler
      \<and> handlers s' SIGHUP = Some Sighup_handler
      \<and> (\<forall>sig \<in> {SIGINT, SIGTERM, SIGQUIT}. handlers s' sig = Some Sigterm_handler)
      \<and> (\<forall>q. Some q \<in> set (take MAX_PID_CNT (recv_qs ?s)) \<longrightarrow>
           map_option dq_maxlen (queues s' q) = Some (1024 * 1024)))" by blast
  then show ?thesis
    by (rule yields_mono) (auto simp: MAX_PID_CNT_def simp del: map_option_eq_Some)
qed

text \<open>\<^verbatim>\<open>init_net\<close> does not notice a bad address: \<^verbatim>\<open>inet_aton\<close> reports it with 0, the code checks for
  -1, and goes on to bind and listen on the address 0.0.0.0.\<close>

theorem init_net_bad_address:
  fixes s :: "'a echo_scheme"
  assumes aton: "inet_aton ip = (0, 0)"
    and kernel: "\<And>tr. os_epoll_create os tr = Inr ep" "\<And>tr. os_socket os tr = Inr lf" "0 \<le> lf"
      "\<And>tr. os_setsockopt os tr lf = None" "\<And>tr a. os_bind os tr lf a = None"
      "\<And>tr. os_listen os tr lf 128 = None" "ctl_works os ep lf" "interest ep (trace s) lf = None"
  shows "\<exists>s'. init_net os ord inet_aton ip port s = (0, s')
    \<and> EvBind lf \<lparr>sin_family = AF_INET, sin_port = htons ord (of_int port), s_addr = 0\<rparr> None \<in> set (trace s')
    \<and> interest ep (trace s') lf = Some (EPOLLIN, nat lf)"
  using assms
  by (simp add: init_net_def Let_def sys_epoll_create_def sys_socket_def sys_setsockopt_def sys_bind_def
      sys_listen_def sys_epoll_ctl_def ctl_works_def interest_append)

theorem init_net_bad_address_witness:
  "\<exists>s'. init_net (sample_os 5 1) LittleEndian (\<lambda>ip. (0, 0)) ''nonsense'' 10000 sample_echo = (0, s')
    \<and> interest 3 (trace s') 4 = Some (EPOLLIN, 4)"
  using init_net_bad_address[of "\<lambda>ip. (0, 0)" "''nonsense''" "sample_os 5 1" 3 4 sample_echo LittleEndian 10000]
    sample_ctl_works[of 4 5 1 3]
  by (auto simp: interest_def)

text \<open>A child closes the epoll descriptor with \<^verbatim>\<open>exit_net\<close> and then polls it: \<^verbatim>\<open>epoll_wait\<close>
  returns -1, which the loop takes for 4294967295 events, and the child reads past the event
  array.\<close>

theorem child_loop_faults:
  fixes s :: "'a myser_scheme"
  assumes closed: "\<And>tr. os_epoll_wait os tr (ec_epollfd s) 100 100 = Inl EBADF"
    and z: "einfo_events s = replicate 100 (0, 0)" "ec_listenfd s \<noteq> 0"
  shows "net_forever os recv_from_cli read_from_parent 0 (snd (exit_net os s)) = Some (Inl OutOfBounds)"
proof -
  let ?s = "snd (exit_net os s)"
  have "ec_epollfd ?s = ec_epollfd s" "ec_listenfd ?s = ec_listenfd s" "einfo_events ?s = einfo_events s"
    by (simp_all add: exit_net_def sys_close_def record_call_def Let_def)
  with net_loop_interrupted[of os ?s EBADF recv_from_cli read_from_parent 0] closed z show ?thesis
    by (subst net_forever.simps) simp
qed

theorem child_loop_faults_witness:
  "net_forever ((sample_os 5 1)\<lparr>os_epoll_wait := \<lambda>tr ep n t. Inl EBADF\<rparr>)
     (\<lambda>f s. Some (Inr (True, s))) (\<lambda>f s. Some (Inr (True, s))) 0
     (snd (exit_net ((sample_os 5 1)\<lparr>os_epoll_wait := \<lambda>tr ep n t. Inl EBADF\<rparr>) (globals\<lparr>ec_listenfd := 4\<rparr>)))
   = Some (Inl OutOfBounds)"
  by (rule child_loop_faults) (simp_all add: globals_def)

end
