(* ===== verification/Block_Stack.thy ===== *)
theory Block_Stack
  imports Myser2
begin

unbundle bit_operations_syntax

text \<open>
  The shared stack of data blocks of \<^verbatim>\<open>net/myser2/net.h\<close>: \<^verbatim>\<open>push_stack\<close> and \<^verbatim>\<open>pop_stack\<close> on the
  mapping that \<^verbatim>\<open>create_stack\<close> makes. Pointers are 64-bit values and pointer arithmetic counts in
  units of \<^verbatim>\<open>sizeof(data_block_t)\<close>, as in C++. The layout is the one of the LP64 compilers
  that accept the flexible array in the middle of \<^verbatim>\<open>struct data_block\<close>: \<^verbatim>\<open>fd\<close> at 0, \<^verbatim>\<open>len\<close> at 4,
  \<^verbatim>\<open>data\<close>, of size 0, and \<^verbatim>\<open>self\<close> both at 8, 16 bytes in all. A block is the list of bytes
  from its address on, and the mapping the list of bytes from \<^verbatim>\<open>addr\<close> on.
\<close>

section \<open>State\<close>

record stack_queue = data_block_queue +
  dq_head :: size_t
  dq_tail :: size_t

definition sizeof_block :: nat where
  "sizeof_block = 16"

section \<open>Memory\<close>

text \<open>Reading and writing the mapping through a pointer.\<close>

definition map_load :: "stack_queue \<Rightarrow> byte list \<Rightarrow> size_t \<Rightarrow> nat \<Rightarrow> byte list result" where
  "map_load q m p n =
     (case dq_addr q of
        None \<Rightarrow> Inl OutOfBounds
      | Some a \<Rightarrow> if p < of_nat a then Inl OutOfBounds else load m (unat (p - of_nat a)) n)"

definition map_store :: "stack_queue \<Rightarrow> byte list \<Rightarrow> size_t \<Rightarrow> byte list \<Rightarrow> byte list result" where
  "map_store q m p d =
     (case dq_addr q of
        None \<Rightarrow> Inl OutOfBounds
      | Some a \<Rightarrow> if p < of_nat a then Inl OutOfBounds else store m (unat (p - of_nat a)) d)"

definition mem64 :: "byte_order \<Rightarrow> size_t \<Rightarrow> byte list" where
  "mem64 ord x = in_order ord (map (\<lambda>i. ucast (drop_bit (8 * (7 - i)) x)) [0..<8])"

section \<open>Operations\<close>

text \<open>The difference of two block pointers.\<close>

definition block_diff :: "size_t \<Rightarrow> size_t \<Rightarrow> size_t" where
  "block_diff p q = of_int (sint (p - q) div int sizeof_block)"

text \<open>\<^verbatim>\<open>push_stack\<close>: the return value, the queue, the caller's block (whose \<^verbatim>\<open>self\<close> is set) and the
  mapping.\<close>

definition push_stack ::
    "byte_order \<Rightarrow> stack_queue \<Rightarrow> byte list \<Rightarrow> byte list \<Rightarrow>
     (int \<times> stack_queue \<times> byte list \<times> byte list) result" where
  "push_stack ord q pdb m =
     rbind (load pdb 4 4) (\<lambda>l.
     let len = val32 ord l in
     if ucast (dq_maxlen q) \<le> block_diff (dq_head q) (dq_tail q) + of_nat sizeof_block + (ucast len :: size_t)
     then Inr (- 1, q, pdb, m)
     else rbind (load pdb 0 (sizeof_block + unat len)) (\<lambda>d.
          rbind (map_store q m (dq_tail q) d) (\<lambda>m1.
          rbind (store pdb 8 (mem64 ord (dq_tail q))) (\<lambda>pdb1.
          Inr (0, q\<lparr>dq_tail := dq_tail q + of_nat sizeof_block * (of_nat sizeof_block + ucast len)\<rparr>,
               pdb1, m1)))))"

text \<open>\<^verbatim>\<open>pop_stack\<close>: the return value, the queue and the caller's block.\<close>

definition pop_stack ::
    "byte_order \<Rightarrow> stack_queue \<Rightarrow> byte list \<Rightarrow> byte list \<Rightarrow>
     (int \<times> stack_queue \<times> byte list) result" where
  "pop_stack ord q pdb m =
     (if dq_head q = dq_tail q then Inr (- 1, q, pdb)
      else let cur = dq_head q - of_nat (4 * sizeof_block) in
        rbind (map_load q m (dq_head q + 4) 4) (\<lambda>l.
        rbind (map_load q m (dq_head q) (sizeof_block + unat (val32 ord l))) (\<lambda>d.
        rbind (store pdb 0 d) (\<lambda>pdb1.
        Inr (0, q\<lparr>dq_tail := cur\<rparr>, pdb1)))))"

section \<open>Vocabulary of the properties\<close>

text \<open>An empty stack on a mapping of \<open>maxlen\<close> bytes at \<open>a\<close>, with both pointers at its start
  (\<^verbatim>\<open>create_stack\<close> leaves them unset), well inside the address space.\<close>

definition fresh_stack :: "stack_queue \<Rightarrow> ptr \<Rightarrow> byte list \<Rightarrow> bool" where
  "fresh_stack q a m \<longleftrightarrow>
     dq_addr q = Some a \<and> dq_head q = of_nat a \<and> dq_tail q = of_nat a
     \<and> 64 \<le> a \<and> a < 2 ^ 47 \<and> length m = unat (dq_maxlen q)"

text \<open>A block with \<open>n\<close> bytes of payload (and the tail of the structure).\<close>

definition block_of :: "byte_order \<Rightarrow> byte list \<Rightarrow> nat \<Rightarrow> bool" where
  "block_of ord pdb n \<longleftrightarrow>
     sizeof_block + n \<le> length pdb \<and> unat (val32 ord (take 4 (drop 4 pdb))) = n"

text \<open>A stack with a mapping of the given size, and a block of zeros with the given length.\<close>

definition sample_stack :: "int32_t \<Rightarrow> stack_queue" where
  "sample_stack mx = \<lparr>dq_addr = Some 4096, dq_maxlen = mx, dq_head = 4096, dq_tail = 4096\<rparr>"

definition sample_block :: "nat \<Rightarrow> byte list" where
  "sample_block n = [7, 0, 0, 0, of_nat n, 0, 0, 0] @ replicate (8 + n) 0"

section \<open>Lemmas\<close>

lemma sample_stack_fresh: "fresh_stack (sample_stack 64) 4096 (replicate 64 0)"
  by (simp add: fresh_stack_def sample_stack_def)

lemma sample_block_of:
  "block_of LittleEndian (sample_block 4) 4" "block_of LittleEndian (sample_block 5) 5"
  by (simp_all add: block_of_def sample_block_def sizeof_block_def val32_def)

lemma block_len: "block_of ord pdb n \<Longrightarrow> load pdb 4 4 = Inr (take 4 (drop 4 pdb))"
  by (simp add: block_of_def load_def sizeof_block_def)

lemma sint_small: "- (2 ^ 63) \<le> k \<Longrightarrow> k < 2 ^ 63 \<Longrightarrow> sint (of_int k :: size_t) = k"
  by (simp add: signed_of_int signed_take_bit_int_eq_self)

lemma unat_small: "n < 2 ^ 64 \<Longrightarrow> unat (of_nat n :: size_t) = n"
  by (simp add: unat_of_nat take_bit_nat_eq_self)

lemma block_diff_neg:
  assumes "T < 2 ^ 58"
  shows "block_diff p (p + of_nat (sizeof_block * T)) = - of_nat T"
proof -
  have "(p - (p + of_nat (sizeof_block * T))) = (of_int (- (16 * int T)) :: size_t)"
    by (simp add: sizeof_block_def)
  moreover have "sint (of_int (- (16 * int T)) :: size_t) = - (16 * int T)"
    by (rule sint_small) (use assms in simp_all)
  moreover have "- (16 * int T) div 16 = - int T" by presburger
  ultimately show ?thesis by (simp add: block_diff_def sizeof_block_def)
qed

lemma block_diff_pop: "block_diff p (p - of_nat (4 * sizeof_block)) = 4"
  by (simp add: block_diff_def sizeof_block_def)

lemma unat_neg_nat:
  assumes "0 < k" and "k \<le> 2 ^ 64"
  shows "unat (- of_nat k :: size_t) = 2 ^ 64 - k"
proof -
  have "(of_nat (2 ^ 64) :: size_t) = 0" by simp
  then have "(- of_nat k :: size_t) = of_nat (2 ^ 64 - k)" using assms(2) by (simp only: of_nat_diff) simp
  moreover have "unat (of_nat (2 ^ 64 - k) :: size_t) = 2 ^ 64 - k"
    by (rule unat_small) (use assms(1) in simp)
  ultimately show ?thesis by simp
qed

text \<open>The test of \<^verbatim>\<open>push_stack\<close> when the tail is \<open>T\<close> blocks past the head.\<close>

lemma push_test:
  assumes tp: "tp = hp + of_nat (sizeof_block * T)" and T: "T < 2 ^ 58" and n: "unat (len :: int32_t) = n"
  shows "ucast (mx :: int32_t) \<le> block_diff hp tp + of_nat sizeof_block + (ucast len :: size_t) \<longleftrightarrow>
    \<not> (T \<le> 16 + n \<and> 16 + n - T < unat mx)"
proof -
  have bd: "block_diff hp tp = - of_nat T" using block_diff_neg[OF T, of hp] tp by simp
  have lt: "n < 2 ^ 32" "unat mx < 2 ^ 32" using n unsigned_less[of len, where ?'a = nat] unsigned_less[of mx, where ?'a = nat] by auto
  have un: "(ucast len :: size_t) = of_nat n" by (simp add: n[symmetric])
  have mx: "unat (ucast mx :: size_t) = unat mx" using unat_small[of "unat mx"] lt(2) by simp
  show ?thesis
  proof (cases "T \<le> 16 + n")
    case True
    then have "- of_nat T + of_nat sizeof_block + (ucast len :: size_t) = of_nat (16 + n - T)"
      by (simp add: un sizeof_block_def of_nat_diff)
    moreover have "unat (of_nat (16 + n - T) :: size_t) = 16 + n - T"
      by (rule unat_small) (use lt in simp)
    ultimately have "unat (- of_nat T + of_nat sizeof_block + (ucast len :: size_t)) = 16 + n - T"
      by (simp only:)
    then show ?thesis using True by (simp only: bd word_le_nat_alt mx) auto
  next
    case False
    then have "- of_nat T + of_nat sizeof_block + (ucast len :: size_t) = - of_nat (T - (16 + n))"
      by (simp add: un sizeof_block_def of_nat_diff)
    moreover have "unat (- of_nat (T - (16 + n)) :: size_t) = 2 ^ 64 - (T - (16 + n))"
      using T False by (intro unat_neg_nat) auto
    ultimately have "unat (- of_nat T + of_nat sizeof_block + (ucast len :: size_t)) = 2 ^ 64 - (T - (16 + n))"
      by (simp only:)
    then show ?thesis using False T lt by (simp only: bd word_le_nat_alt mx) simp
  qed
qed

text \<open>The two outcomes of the test.\<close>

lemma push_refused:
  assumes "dq_tail q = dq_head q + of_nat (sizeof_block * T)" and "T < 2 ^ 58" and b: "block_of ord pdb n"
    and "\<not> (T \<le> 16 + n \<and> 16 + n - T < unat (dq_maxlen q))"
  shows "push_stack ord q pdb m = Inr (- 1, q, pdb, m)"
proof -
  have "unat (val32 ord (take 4 (drop 4 pdb))) = n" using b by (simp add: block_of_def)
  note test = push_test[OF assms(1,2) this, of "dq_maxlen q"]
  show ?thesis
    unfolding push_stack_def block_len[OF b] rbind_simps Let_def test using assms(4) by simp
qed

lemma push_admitted:
  assumes "dq_tail q = dq_head q + of_nat (sizeof_block * T)" and "T < 2 ^ 58" and b: "block_of ord pdb n"
    and "T \<le> 16 + n" "16 + n - T < unat (dq_maxlen q)"
  shows "push_stack ord q pdb m =
    rbind (map_store q m (dq_tail q) (take (16 + n) pdb)) (\<lambda>m1.
    Inr (0, q\<lparr>dq_tail := dq_tail q + of_nat (sizeof_block * (16 + n))\<rparr>,
         take 8 pdb @ mem64 ord (dq_tail q) @ drop 16 pdb, m1))"
proof -
  let ?len = "val32 ord (take 4 (drop 4 pdb))"
  have n: "unat ?len = n" "16 + n \<le> length pdb" using b by (simp_all add: block_of_def sizeof_block_def)
  have l64: "length (mem64 ord p) = 8" for p by (simp add: mem64_def)
  have st: "store pdb 8 (mem64 ord (dq_tail q)) = Inr (take 8 pdb @ mem64 ord (dq_tail q) @ drop 16 pdb)"
    using n l64 by (simp add: store_def)
  have ld: "load pdb 0 (sizeof_block + n) = Inr (take (16 + n) pdb)" using n by (simp add: load_def sizeof_block_def)
  have un: "(of_nat sizeof_block * (of_nat sizeof_block + ucast ?len) :: size_t) = of_nat (sizeof_block * (16 + n))"
    using n(1)[symmetric] by (simp add: sizeof_block_def)
  note test = push_test[OF assms(1,2) n(1), of "dq_maxlen q"]
  show ?thesis
    unfolding push_stack_def block_len[OF b] rbind_simps Let_def test n(1) ld st un using assms(4,5) by simp
qed

lemma fresh_offset:
  assumes "fresh_stack q a m" and "T < 2 ^ 48"
  shows "\<not> of_nat a + of_nat T < (of_nat a :: size_t)" "unat (of_nat a + of_nat T - of_nat a :: size_t) = T"
proof -
  have "unat (of_nat (a + T) :: size_t) = a + T" "unat (of_nat a :: size_t) = a"
    using assms by (intro unat_small; simp add: fresh_stack_def)+
  then show "\<not> of_nat a + of_nat T < (of_nat a :: size_t)"
    unfolding of_nat_add[symmetric] word_less_nat_alt by simp
  show "unat (of_nat a + of_nat T - of_nat a :: size_t) = T"
    using unat_small[of T] assms(2) by simp
qed

lemma first_push:
  assumes F: "fresh_stack q a m" and b: "block_of ord pdb n" and fits: "16 + n < unat (dq_maxlen q)"
  shows "push_stack ord q pdb m = Inr (0, q\<lparr>dq_tail := of_nat a + of_nat (sizeof_block * (16 + n))\<rparr>,
    take 8 pdb @ mem64 ord (dq_tail q) @ drop 16 pdb, take (16 + n) pdb @ drop (16 + n) m)"
proof -
  have "16 + n \<le> length pdb" using b by (simp add: block_of_def sizeof_block_def)
  then have "map_store q m (dq_tail q) (take (16 + n) pdb) = Inr (take (16 + n) pdb @ drop (16 + n) m)"
    using F fits by (simp add: fresh_stack_def map_store_def store_def)
  then show ?thesis
    using push_admitted[of q 0 ord pdb n m] F b fits by (simp add: fresh_stack_def)
qed

lemma pop_stored:
  assumes q: "dq_addr q = Some a" "dq_head q = of_nat a" "dq_tail q \<noteq> of_nat a" "a < 2 ^ 47"
    and b: "block_of ord pdb n" and dest: "16 + n \<le> length dst"
  shows "pop_stack ord q dst (take (16 + n) pdb @ r)
    = Inr (0, q\<lparr>dq_tail := of_nat a - of_nat (4 * sizeof_block)\<rparr>, take (16 + n) pdb @ drop (16 + n) dst)"
proof -
  have B: "unat (val32 ord (take 4 (drop 4 pdb))) = n" "16 + n \<le> length pdb"
    using b by (simp_all add: block_of_def sizeof_block_def)
  have "unat (of_nat (a + 4) :: size_t) = a + 4" "unat (of_nat a :: size_t) = a"
    by (rule unat_small, use q(4) in simp)+
  then have "\<not> of_nat a + 4 < (of_nat a :: size_t)" by (simp add: word_less_nat_alt)
  moreover have "take 4 (drop 4 (take (16 + n) pdb @ r)) = take 4 (drop 4 pdb)"
    using B(2) by (auto simp: drop_take min_def)
  ultimately show ?thesis
    using q B dest by (simp add: pop_stack_def map_load_def load_def store_def sizeof_block_def)
qed

lemma push_below:
  assumes q: "dq_addr q = Some a" "dq_head q = of_nat a"
      "dq_tail q = of_nat a - of_nat (4 * sizeof_block)" "dq_tail q < of_nat a"
    and b: "block_of ord pdb n" and fits: "20 + n < unat (dq_maxlen q)"
  shows "push_stack ord q pdb m = Inl OutOfBounds"
proof -
  let ?len = "val32 ord (take 4 (drop 4 pdb))"
  have B: "unat ?len = n" "16 + n \<le> length pdb" using b by (simp_all add: block_of_def sizeof_block_def)
  have mx: "unat (ucast (dq_maxlen q) :: size_t) = unat (dq_maxlen q)"
    using unat_small[of "unat (dq_maxlen q)"] unsigned_less[of "dq_maxlen q", where ?'a = nat] by simp
  have "(4 + of_nat sizeof_block + ucast ?len :: size_t) = of_nat (20 + n)"
    using B(1)[symmetric] by (simp add: sizeof_block_def)
  moreover have "unat (of_nat (20 + n) :: size_t) = 20 + n"
    using fits unsigned_less[of "dq_maxlen q", where ?'a = nat] by (intro unat_small) simp
  ultimately have s: "unat (4 + of_nat sizeof_block + ucast ?len :: size_t) = 20 + n" by (simp only:)
  have bd: "block_diff (dq_head q) (dq_tail q) = 4" unfolding q(2,3) by (rule block_diff_pop)
  have test: "\<not> (ucast (dq_maxlen q) \<le> block_diff (dq_head q) (dq_tail q) + of_nat sizeof_block + (ucast ?len :: size_t))"
    unfolding bd word_le_nat_alt s mx using fits by simp
  have "map_store q m (dq_tail q) d = Inl OutOfBounds" for d using q by (simp add: map_store_def)
  moreover have "load pdb 0 (sizeof_block + n) = Inr (take (16 + n) pdb)"
    using B by (simp add: load_def sizeof_block_def)
  ultimately show ?thesis
    unfolding push_stack_def block_len[OF b] rbind_simps Let_def if_not_P[OF test] B(1) by simp
qed

section \<open>Properties\<close>



text \<open>\<^verbatim>\<open>pop_stack\<close> after a \<^verbatim>\<open>push_stack\<close> on an empty stack gives back the block that was pushed, but
  does not take it off: the tail is set to four blocks below the head, so that the stack is not
  empty, every further call gives the same block again, and the next block that passes the
  capacity test is written below the mapping.\<close>

theorem pop_repeats:
  assumes fresh: "fresh_stack q a m" and b: "block_of ord pdb n" "block_of ord pdb2 n2"
    and fits: "16 + n < unat (dq_maxlen q)" "20 + n2 < unat (dq_maxlen q)"
    and dest: "16 + n \<le> length dst" "16 + n \<le> length dst2"
  shows "\<exists>q1 pdb1 m1 q2. push_stack ord q pdb m = Inr (0, q1, pdb1, m1)
    \<and> pop_stack ord q1 dst m1 = Inr (0, q2, take (16 + n) pdb @ drop (16 + n) dst)
    \<and> pop_stack ord q2 dst2 m1 = Inr (0, q2, take (16 + n) pdb @ drop (16 + n) dst2)
    \<and> push_stack ord q2 pdb2 m1 = Inl OutOfBounds"
proof -
  note F = fresh[unfolded fresh_stack_def]
  let ?q1 = "q\<lparr>dq_tail := of_nat a + of_nat (sizeof_block * (16 + n))\<rparr>"
  let ?q2 = "q\<lparr>dq_tail := of_nat a - of_nat (4 * sizeof_block)\<rparr>"
  let ?m1 = "take (16 + n) pdb @ drop (16 + n) m"
  have n: "n < 2 ^ 32" using fits unsigned_less[of "dq_maxlen q", where ?'a = nat] by simp
  have a: "unat (of_nat a :: size_t) = a" by (rule unat_small) (use F in simp)
  have below: "(of_nat a - of_nat (4 * sizeof_block) :: size_t) < of_nat a"
  proof -
    have "unat (of_nat (a - 64) :: size_t) = a - 64"
      using F by (intro unat_small) (simp add: less_diff_conv2)
    moreover have "(of_nat (a - 64) :: size_t) = of_nat a - of_nat (4 * sizeof_block)"
      using F by (simp add: sizeof_block_def of_nat_diff)
    ultimately show ?thesis using a F by (simp add: word_less_nat_alt)
  qed
  have "dq_tail ?q1 \<noteq> of_nat a"
    using fresh_offset(2)[OF fresh, of "sizeof_block * (16 + n)"] n by (auto simp: sizeof_block_def)
  then have p1: "pop_stack ord ?q1 dst ?m1 = Inr (0, ?q2, take (16 + n) pdb @ drop (16 + n) dst)"
    using pop_stored[of ?q1 a ord pdb n dst] F b(1) dest(1) by simp
  have "dq_tail ?q2 \<noteq> of_nat a" using below by auto
  then have p2: "pop_stack ord ?q2 dst2 ?m1 = Inr (0, ?q2, take (16 + n) pdb @ drop (16 + n) dst2)"
    using pop_stored[of ?q2 a ord pdb n dst2] F b(1) dest(2) by simp
  have "push_stack ord ?q2 pdb2 ?m1 = Inl OutOfBounds"
    using push_below[of ?q2 a ord pdb2 n2] F b(2) fits(2) below by simp
  with first_push[OF fresh b(1) fits(1)] p1 p2 show ?thesis by blast
qed

theorem pop_repeats_witness:
  "\<exists>q1 pdb1 m1 q2. push_stack LittleEndian (sample_stack 64) (sample_block 5) (replicate 64 0) = Inr (0, q1, pdb1, m1)
    \<and> pop_stack LittleEndian q1 (replicate 21 0) m1 = Inr (0, q2, sample_block 5)
    \<and> pop_stack LittleEndian q2 (replicate 21 0) m1 = Inr (0, q2, sample_block 5)
    \<and> push_stack LittleEndian q2 (sample_block 4) m1 = Inl OutOfBounds"
proof -
  have "16 + 5 < unat (dq_maxlen (sample_stack 64))" "20 + 4 < unat (dq_maxlen (sample_stack 64))"
    by (simp_all add: sample_stack_def)
  from pop_repeats[OF sample_stack_fresh sample_block_of(2) sample_block_of(1) this,
      of "replicate 21 0" "replicate 21 0"]
  show ?thesis by (simp add: sample_block_def numeral_eq_Suc)
qed

end
