(* ===== verification/Reaping.thy ===== *)
theory Reaping
  imports Main "HOL-Library.Multiset"
begin

text \<open>
  The signal handlers of \<^verbatim>\<open>net/myser2/net.cpp\<close>. Those for \<^verbatim>\<open>SIGCHLD\<close> and \<^verbatim>\<open>SIGPIPE\<close> call \<^verbatim>\<open>waitpid\<close> for any
  child, without waiting, until it returns no child. Which children have ended by the time of
  a call, and which of them \<^verbatim>\<open>waitpid\<close> takes, is up to the kernel: the record \<open>reaper\<close> gives both
  as functions of the number of calls so far. Children may end while the handler runs.
\<close>

section \<open>State\<close>

text \<open>The children of the process by their ids: those that run, and those that have ended, with their
  status, and have not been waited for. Then the number of calls of \<^verbatim>\<open>waitpid\<close> and the lines
  on \<^verbatim>\<open>std::cerr\<close>.\<close>

datatype cerr_line =
    Own string int
  | Reaped string int int

record children =
  running :: "int list"
  zombies :: "(int \<times> int) list"
  waits :: nat
  cerr :: "cerr_line list"

record reaper =
  ends :: "nat \<Rightarrow> int \<Rightarrow> int option"
  pick :: "nat \<Rightarrow> nat"

section \<open>Operations\<close>

text \<open>The children that end before a call become zombies.\<close>

definition some_end :: "reaper \<Rightarrow> children \<Rightarrow> children" where
  "some_end k c =
     c\<lparr>running := filter (\<lambda>p. ends k (waits c) p = None) (running c),
       zombies := zombies c @ map (\<lambda>p. (p, the (ends k (waits c) p)))
         (filter (\<lambda>p. ends k (waits c) p \<noteq> None) (running c))\<rparr>"

definition without :: "nat \<Rightarrow> 'a list \<Rightarrow> 'a list" where
  "without i xs = take i xs @ drop (Suc i) xs"

lemma mset_without: "i < length xs \<Longrightarrow> add_mset (xs ! i) (mset (without i xs)) = mset xs"
  by (subst (3) id_take_nth_drop[of i xs]) (simp_all add: without_def)

text \<open>\<^verbatim>\<open>waitpid(-1, &status, WNOHANG)\<close>: the child that was waited for with its status, 0 when all children
  run, -1 when there are none.\<close>

definition waitpid :: "reaper \<Rightarrow> children \<Rightarrow> int \<times> int \<times> children" where
  "waitpid k c0 =
     (let c = (some_end k c0)\<lparr>waits := Suc (waits c0)\<rparr>;
          i = pick k (waits c0) mod length (zombies c)
      in if zombies c = [] then (if running c = [] then - 1 else 0, 0, c)
         else (fst (zombies c ! i), snd (zombies c ! i),
               c\<lparr>zombies := without i (zombies c)\<rparr>))"

definition left :: "children \<Rightarrow> nat" where
  "left c = length (running c) + length (zombies c)"

lemma some_end_frame [simp]: "waits (some_end k c) = waits c" "cerr (some_end k c) = cerr c"
  by (simp_all add: some_end_def)

lemma waitpid_none:
  "waitpid k c = (pid, st, c') \<Longrightarrow> pid \<le> 0 \<Longrightarrow> \<forall>z \<in> set (zombies (some_end k c)). 0 < fst z \<Longrightarrow>
    zombies c' = [] \<and> zombies (some_end k c) = [] \<and> running c' = running (some_end k c) \<and> cerr c' = cerr c"
  by (auto simp: waitpid_def Let_def not_less[symmetric] split: if_splits)

lemma waitpid_some:
  assumes "waitpid k c = (pid, st, c')" "0 < pid"
  shows "add_mset (pid, st) (mset (zombies c')) = mset (zombies (some_end k c))
    \<and> running c' = running (some_end k c) \<and> cerr c' = cerr c"
proof -
  let ?z = "zombies (some_end k c)"
  have z: "?z \<noteq> []" using assms by (auto simp: waitpid_def Let_def split: if_splits)
  then have i: "pick k (waits c) mod length ?z < length ?z" by simp
  have "(pid, st) = ?z ! (pick k (waits c) mod length ?z)"
    "zombies c' = without (pick k (waits c) mod length ?z) ?z"
    "running c' = running (some_end k c)" "cerr c' = cerr c"
    using assms z by (auto simp: waitpid_def Let_def)
  with mset_without[OF i] show ?thesis by simp
qed

lemma left_cerr [simp]: "left (c\<lparr>cerr := l\<rparr>) = left c"
  by (simp add: left_def)

lemma left_some_end: "left (some_end k c) = left c"
  using sum_length_filter_compl[of "\<lambda>p. ends k (waits c) p = None" "running c"]
  by (simp add: left_def some_end_def)

lemma waitpid_left: "waitpid k c = (pid, st, c') \<Longrightarrow> 0 < pid \<Longrightarrow> left c' < left c"
  using waitpid_some[of k c pid st c'] left_some_end[of k c]
  by (auto simp: left_def dest: arg_cong[where f = size])

text \<open>\<^verbatim>\<open>while((pid = waitpid(-1, &status, WNOHANG)) > 0)\<close>, for the handler of the given name.\<close>

function reap :: "string \<Rightarrow> reaper \<Rightarrow> children \<Rightarrow> children" where
  "reap who k c =
     (case waitpid k c of (pid, status, c') \<Rightarrow>
        if 0 < pid then reap who k (c'\<lparr>cerr := cerr c' @ [Reaped who pid status]\<rparr>) else c')"
  by pat_completeness auto
termination
  by (relation "measure (\<lambda>(who, k, c). left c)") (auto dest: waitpid_left[OF sym])

declare reap.simps [simp del]

definition sigchild_handler :: "reaper \<Rightarrow> children \<Rightarrow> children" where
  "sigchild_handler k c = reap ''sigchld_handler'' k c"

definition sigpipe_handler :: "reaper \<Rightarrow> children \<Rightarrow> children" where
  "sigpipe_handler k c = reap ''sigpipe_handler'' k c"

definition sigterm_handler :: "int \<Rightarrow> children \<Rightarrow> children" where
  "sigterm_handler self c = c\<lparr>cerr := cerr c @ [Own ''sigterm_handler'' self]\<rparr>"

definition sighup_handler :: "int \<Rightarrow> children \<Rightarrow> children" where
  "sighup_handler self c = c\<lparr>cerr := cerr c @ [Own ''sighup_handler'' self]\<rparr>"

definition busy_reaper :: reaper where
  "busy_reaper = \<lparr>ends = \<lambda>n p. if n = 1 \<and> p = 12 then Some 9 else None, pick = \<lambda>n. 3\<rparr>"

definition family :: children where
  "family = \<lparr>running = [12, 13], zombies = [(11, 0)], waits = 0, cerr = []\<rparr>"

section \<open>Lemmas\<close>

text \<open>What the kernel has promised about ids.\<close>

definition pids_ok :: "children \<Rightarrow> bool" where
  "pids_ok c \<longleftrightarrow> (\<forall>p \<in> set (running c). 0 < p) \<and> (\<forall>z \<in> set (zombies c). 0 < fst z)"

text \<open>All children that there are, by their ids, running or ended.\<close>

definition known :: "children \<Rightarrow> int multiset" where
  "known c = mset (running c) + mset (map fst (zombies c))"

lemma known_some_end: "known (some_end k c) = known c"
proof -
  have "mset (filter P xs) + mset (filter (\<lambda>p. \<not> P p) xs) = mset xs" for P :: "int \<Rightarrow> bool" and xs
    by (induction xs) auto
  from this[of "\<lambda>p. ends k (waits c) p = None" "running c"]
  show ?thesis by (simp add: known_def some_end_def comp_def add.commute add.left_commute)
qed

lemma some_end_status:
  "z \<in> set (zombies (some_end k c)) \<Longrightarrow> z \<in> set (zombies c) \<or> ends k (waits c) (fst z) = Some (snd z)"
  by (auto simp: some_end_def)

lemma pids_ok_some_end: "pids_ok c \<Longrightarrow> pids_ok (some_end k c)"
  by (auto simp: pids_ok_def some_end_def)

lemma reap_reports:
  assumes "pids_ok c"
  shows "\<exists>l. cerr (reap who k c) = cerr c @ map (\<lambda>(p, st). Reaped who p st) l
    \<and> zombies (reap who k c) = [] \<and> mset (map fst l) + mset (running (reap who k c)) = known c
    \<and> (\<forall>(p, st) \<in> set l. (p, st) \<in> set (zombies c) \<or> (\<exists>n \<ge> waits c. ends k n p = Some st))"
  using assms
proof (induction who k c rule: reap.induct)
  case (1 who k c)
  obtain pid st c1 where w: "waitpid k c = (pid, st, c1)" by (cases "waitpid k c") auto
  have ok: "pids_ok (some_end k c)" using "1.prems" by (rule pids_ok_some_end)
  have n: "waits c1 = Suc (waits c)" using w by (auto simp: waitpid_def Let_def split: if_splits)
  show ?case
  proof (cases "0 < pid")
    case True
    note s = waitpid_some[OF w True]
    let ?c2 = "c1\<lparr>cerr := cerr c1 @ [Reaped who pid st]\<rparr>"
    have z: "set (zombies (some_end k c)) = insert (pid, st) (set (zombies c1))"
      using arg_cong[OF s[THEN conjunct1], of set_mset] by simp
    have "pids_ok ?c2" using ok s z by (auto simp: pids_ok_def)
    with "1.IH"[OF w[symmetric] refl True] obtain l where
      l: "cerr (reap who k ?c2) = cerr ?c2 @ map (\<lambda>(p, st). Reaped who p st) l"
        "zombies (reap who k ?c2) = []" "mset (map fst l) + mset (running (reap who k ?c2)) = known ?c2"
        "\<forall>(p, st) \<in> set l. (p, st) \<in> set (zombies c1) \<or> (\<exists>n \<ge> waits c1. ends k n p = Some st)"
      by auto
    have "known c = add_mset pid (known ?c2)"
      using s known_some_end[of k c] by (simp add: known_def flip: s[THEN conjunct1])
    moreover have "\<forall>(p, st) \<in> set ((pid, st) # l).
        (p, st) \<in> set (zombies c) \<or> (\<exists>n \<ge> waits c. ends k n p = Some st)"
      using l(4) z n some_end_status[of _ k c] by (fastforce intro: Suc_leD)
    moreover have "reap who k c = reap who k ?c2" using True by (simp add: reap.simps[of who k c] w)
    ultimately show ?thesis using l(1-3) s by (intro exI[of _ "(pid, st) # l"]) simp
  next
    case False
    then have "reap who k c = c1" by (simp add: reap.simps[of who k c] w)
    moreover have "zombies c1 = [] \<and> zombies (some_end k c) = [] \<and> running c1 = running (some_end k c) \<and> cerr c1 = cerr c"
      using w False ok by (intro waitpid_none[where pid = pid and st = st]) (auto simp: pids_ok_def)
    ultimately show ?thesis using known_some_end[of k c] by (intro exI[of _ "[]"]) (simp add: known_def)
  qed
qed

section \<open>Properties\<close>

text \<open>C24. The handlers leave no zombie: they end, whichever children the kernel hands out and
  whichever end meanwhile; afterwards no child waits to be reaped, and every child still runs or has been
  reported once, with the status it ended with. The handler of \<^verbatim>\<open>SIGPIPE\<close> does the same as that of
  \<^verbatim>\<open>SIGCHLD\<close>.\<close>

theorem handlers_reap:
  fixes k :: reaper
  assumes "pids_ok c" and "handler = (''sigchld_handler'', sigchild_handler) \<or> handler = (''sigpipe_handler'', sigpipe_handler)"
  defines "c' \<equiv> snd handler k c"
  shows "\<exists>l. cerr c' = cerr c @ map (\<lambda>(p, st). Reaped (fst handler) p st) l \<and> zombies c' = []
    \<and> mset (map fst l) + mset (running c') = known c
    \<and> (\<forall>(p, st) \<in> set l. (p, st) \<in> set (zombies c) \<or> (\<exists>n \<ge> waits c. ends k n p = Some st))"
  using reap_reports[OF assms(1), of "fst handler" k] assms(2)
  by (auto simp: c'_def sigchild_handler_def sigpipe_handler_def)

theorem handlers_reap_witness:
  "zombies (sigchild_handler busy_reaper family) = []
   \<and> cerr (sigchild_handler busy_reaper family) = [Reaped ''sigchld_handler'' 11 0, Reaped ''sigchld_handler'' 12 9]"
proof -
  have "pids_ok family" by (simp add: pids_ok_def family_def)
  from handlers_reap[OF this, of "(''sigchld_handler'', sigchild_handler)" busy_reaper]
  have "zombies (sigchild_handler busy_reaper family) = []" by auto
  moreover have "cerr (sigchild_handler busy_reaper family) = [Reaped ''sigchld_handler'' 11 0, Reaped ''sigchld_handler'' 12 9]"
    by (simp add: sigchild_handler_def reap.simps waitpid_def some_end_def family_def busy_reaper_def
        without_def Let_def)
  ultimately show ?thesis by simp
qed

end
