(* ===== verification/Interleaving.thy ===== *)
theory Interleaving
  imports Main
begin

text \<open>
  Interleaved programs. The threads or processes of a program are a step relation on the common
  state; \<open>extra\<close> steps are those the environment takes without being asked, such as spurious
  wake-ups. The locale \<open>ranked_system\<close> is the interface between such a program and the argument
  that it ends: an invariant (over some ghost value) that all steps keep, and a rank that the
  program's own steps lower and that an extra step raises by at most \<open>cost\<close>.
\<close>

text \<open>A run with \<open>n\<close> steps of the program and \<open>k\<close> extra ones.\<close>

inductive runs :: "('s \<Rightarrow> 's \<Rightarrow> bool) \<Rightarrow> ('s \<Rightarrow> 's \<Rightarrow> bool) \<Rightarrow> nat \<Rightarrow> nat \<Rightarrow> 's \<Rightarrow> 's \<Rightarrow> bool"
  for step extra where
  runs_refl: "runs step extra 0 0 s s"
| runs_step: "step s s' \<Longrightarrow> runs step extra n k s' t \<Longrightarrow> runs step extra (Suc n) k s t"
| runs_extra: "extra s s' \<Longrightarrow> runs step extra n k s' t \<Longrightarrow> runs step extra n (Suc k) s t"

lemma runs_trans:
  "runs step extra n k s t \<Longrightarrow> runs step extra m l t u \<Longrightarrow> runs step extra (n + m) (k + l) s u"
  by (induction rule: runs.induct) (auto intro: runs_step runs_extra)

lemma runs_invariant:
  assumes "runs step extra n k s t" "I s"
    and "\<And>s s'. I s \<Longrightarrow> step s s' \<Longrightarrow> I s'" "\<And>s s'. I s \<Longrightarrow> extra s s' \<Longrightarrow> I s'"
  shows "I t"
  using assms(1,2) by (induction rule: runs.induct) (auto intro: assms(3,4))

locale ranked_system =
  fixes I :: "'c \<Rightarrow> 's \<Rightarrow> bool"
    and rnk :: "'c \<Rightarrow> 's \<Rightarrow> nat"
    and step :: "'s \<Rightarrow> 's \<Rightarrow> bool"
    and extra :: "'s \<Rightarrow> 's \<Rightarrow> bool"
    and cost :: nat
  assumes step: "I c s \<Longrightarrow> step s s' \<Longrightarrow> \<exists>c'. I c' s' \<and> rnk c' s' < rnk c s"
    and extra: "I c s \<Longrightarrow> extra s s' \<Longrightarrow> \<exists>c'. I c' s' \<and> rnk c' s' \<le> rnk c s + cost"
begin

lemma runs_rank:
  "runs step extra n k s t \<Longrightarrow> I c s \<Longrightarrow> \<exists>c'. I c' t \<and> n + rnk c' t \<le> rnk c s + cost * k"
proof (induction arbitrary: c rule: runs.induct)
  case (runs_refl s)
  then show ?case by auto
next
  case (runs_step s s' n k t)
  then obtain c1 where c1: "I c1 s'" "rnk c1 s' < rnk c s" using step by blast
  then obtain c2 where "I c2 t" "n + rnk c2 t \<le> rnk c1 s' + cost * k" using runs_step.IH by blast
  with c1 show ?case by (intro exI [of _ c2]) simp
next
  case (runs_extra s s' n k t)
  then obtain c1 where c1: "I c1 s'" "rnk c1 s' \<le> rnk c s + cost" using extra by blast
  then obtain c2 where "I c2 t" "n + rnk c2 t \<le> rnk c1 s' + cost * k" using runs_extra.IH by blast
  with c1 show ?case by (intro exI [of _ c2]) simp
qed

lemma runs_to_end: "I c s \<Longrightarrow> \<exists>n t. runs step extra n 0 s t \<and> (\<forall>t'. \<not> step t t')"
proof (induction "rnk c s" arbitrary: c s rule: less_induct)
  case less
  show ?case
  proof (cases "\<exists>s'. step s s'")
    case True
    then obtain s' where s': "step s s'" by blast
    then obtain c' where "I c' s'" "rnk c' s' < rnk c s" using step less.prems by blast
    then obtain n t where "runs step extra n 0 s' t" "\<forall>t'. \<not> step t t'" using less.hyps by blast
    with s' show ?thesis by (blast intro: runs_step)
  next
    case False
    then show ?thesis by (blast intro: runs_refl)
  qed
qed

end

end
