(* ===== verification/WorkQueue.thy ===== *)
theory WorkQueue
  imports Sys Interleaving "HOL-Library.Multiset"
begin

text \<open>
  The work queue of \<^verbatim>\<open>net/pthread/pthread_create.c\<close>: a linked list of heap-allocated
  messages behind a mutex and a condition variable, two worker threads in \<^verbatim>\<open>process_msg\<close> and a
  producer in \<^verbatim>\<open>main\<close>; and the reference-counted object \<^verbatim>\<open>foo\<close> of the same file.

  A thread is a program counter with one constructor per statement that touches shared state;
  \<open>process_msg\<close> and \<open>main_thread\<close> execute the statement at the counter and are \<^const>\<open>None\<close>
  while the thread is blocked. The relation \<open>step\<close> interleaves them in any order. The library
  is used as POSIX documents it: a mutex has one owner, \<^verbatim>\<open>pthread_cond_wait\<close> releases the
  mutex and blocks in one step and takes the mutex again when it is woken,
  \<^verbatim>\<open>pthread_cond_signal\<close> wakes a waiting thread if there is one, and a waiting thread may
  also wake up by itself (\<open>spurious\<close>). What the library chooses (addresses, error codes,
  the thread to wake, the content of fresh memory) is a record of type \<open>choice\<close>.
\<close>

section \<open>The reference-counted object\<close>

text \<open>\<^verbatim>\<open>f_count\<close> is an \<^verbatim>\<open>int\<close>; the mutex is only taken and released inside one function, so that
  each function is one step on the object.\<close>

record foo =
  f_count :: int32_t

text \<open>\<open>p\<close> is what \<^verbatim>\<open>malloc\<close> returned (0 is \<^verbatim>\<open>NULL\<close>) and \<open>err\<close> what \<^verbatim>\<open>pthread_mutex_init\<close>
  returned.\<close>

definition foo_alloc :: "ptr \<Rightarrow> int \<Rightarrow> (ptr \<rightharpoonup> foo) \<Rightarrow> ptr \<times> (ptr \<rightharpoonup> foo)" where
  "foo_alloc p err h =
     (if p \<noteq> 0 then
        let h = h(p \<mapsto> \<lparr>f_count = 1\<rparr>)
        in if err \<noteq> 0 then (0, h(p := None)) else (p, h)
      else (p, h))"

definition deref :: "(ptr \<rightharpoonup> 'a) \<Rightarrow> ptr \<Rightarrow> 'a result" where
  "deref h p =
     (case h p of Some x \<Rightarrow> Inr x | None \<Rightarrow> Inl (if p = 0 then NullPointer else UseAfterFree))"

definition foo_hold :: "ptr \<Rightarrow> (ptr \<rightharpoonup> foo) \<Rightarrow> (ptr \<rightharpoonup> foo) result" where
  "foo_hold p h = rbind (deref h p) (\<lambda>fp. Inr (h(p \<mapsto> fp\<lparr>f_count := f_count fp + 1\<rparr>)))"

definition foo_rele :: "ptr \<Rightarrow> (ptr \<rightharpoonup> foo) \<Rightarrow> (ptr \<rightharpoonup> foo) result" where
  "foo_rele p h =
     rbind (deref h p) (\<lambda>fp.
       let fp = fp\<lparr>f_count := f_count fp - 1\<rparr>
       in if f_count fp = 0 then Inr (h(p := None)) else Inr (h(p \<mapsto> fp)))"

section \<open>State\<close>

record msg =
  m_next :: ptr
  data :: string

text \<open>Where a worker is in \<^verbatim>\<open>process_msg\<close>; the local variable \<^verbatim>\<open>mp\<close> is the argument.\<close>

datatype pc =
    PIdle         \<comment> \<open>not created yet\<close>
  | PLock         \<comment> \<open>line 19\<close>
  | PTest         \<comment> \<open>line 20\<close>
  | PWait         \<comment> \<open>line 21, at the call\<close>
  | PWaiting      \<comment> \<open>line 21, blocked on the condition\<close>
  | PWoken        \<comment> \<open>line 21, taking the mutex again\<close>
  | PTake         \<comment> \<open>line 22\<close>
  | PNext ptr     \<comment> \<open>line 23\<close>
  | PUnlock ptr   \<comment> \<open>line 24\<close>
  | PPrint ptr    \<comment> \<open>line 25\<close>
  | PFree ptr     \<comment> \<open>line 26\<close>

text \<open>Where the main thread is in \<^verbatim>\<open>main\<close> and, from \<open>MLock\<close> to \<open>MSignal\<close>, in \<^verbatim>\<open>enqueue_msg\<close>.\<close>

datatype main_pc =
    MAlloc          \<comment> \<open>line 133\<close>
  | MCreate1        \<comment> \<open>line 138\<close>
  | MCreate2        \<comment> \<open>line 142\<close>
  | MLoop           \<comment> \<open>lines 147 and 148\<close>
  | MData ptr       \<comment> \<open>line 149\<close>
  | MLock ptr       \<comment> \<open>line 34\<close>
  | MLink ptr       \<comment> \<open>line 35\<close>
  | MHead ptr       \<comment> \<open>line 36\<close>
  | MUnlock         \<comment> \<open>line 37\<close>
  | MSignal         \<comment> \<open>line 38\<close>
  | MJoin           \<comment> \<open>line 154\<close>
  | MExit           \<comment> \<open>lines 140 and 144\<close>

record wq =
  heap :: "ptr \<rightharpoonup> msg"
  foos :: "ptr \<rightharpoonup> foo"
  workq :: ptr
  qlock :: "int option"
  wpc :: "int \<Rightarrow> pc"
  mpc :: main_pc
  loop_no :: nat
  printed :: "(int \<times> string) list"

record choice =
  c_malloc :: ptr
  c_junk :: msg
  c_err :: int
  c_wake :: int

definition messages :: "string list" where
  "messages = [''1111'', ''2222'', ''3333'', ''4444'', ''5555'', ''6666'', ''7777'', ''8888'',
     ''9999'', ''000'']"

definition init :: wq where
  "init = \<lparr>heap = Map.empty, foos = Map.empty, workq = 0, qlock = None, wpc = \<lambda>t. PIdle,
     mpc = MAlloc, loop_no = 0, printed = []\<rparr>"

section \<open>Threads\<close>

definition goto :: "int \<Rightarrow> pc \<Rightarrow> wq \<Rightarrow> wq" where
  "goto t c s = s\<lparr>wpc := (wpc s)(t := c)\<rparr>"

text \<open>\<^verbatim>\<open>pthread_mutex_lock\<close>: blocked while the mutex is owned.\<close>

definition lock :: "int \<Rightarrow> wq \<Rightarrow> wq option" where
  "lock t s = (if qlock s = None then Some (s\<lparr>qlock := Some t\<rparr>) else None)"

definition unlock :: "wq \<Rightarrow> wq" where
  "unlock s = s\<lparr>qlock := None\<rparr>"

definition process_msg :: "int \<Rightarrow> wq \<Rightarrow> wq result option" where
  "process_msg t s = (case wpc s t of
      PIdle \<Rightarrow> None
    | PLock \<Rightarrow> map_option (\<lambda>s. Inr (goto t PTest s)) (lock t s)
    | PTest \<Rightarrow> Some (Inr (goto t (if workq s = 0 then PWait else PTake) s))
    | PWait \<Rightarrow> Some (Inr (goto t PWaiting (unlock s)))
    | PWaiting \<Rightarrow> None
    | PWoken \<Rightarrow> map_option (\<lambda>s. Inr (goto t PTest s)) (lock t s)
    | PTake \<Rightarrow> Some (Inr (goto t (PNext (workq s)) s))
    | PNext mp \<Rightarrow> Some (rbind (deref (heap s) mp) (\<lambda>m.
        Inr (goto t (PUnlock mp) (s\<lparr>workq := m_next m\<rparr>))))
    | PUnlock mp \<Rightarrow> Some (Inr (goto t (PPrint mp) (unlock s)))
    | PPrint mp \<Rightarrow> Some (rbind (deref (heap s) mp) (\<lambda>m.
        Inr (goto t (PFree mp) (s\<lparr>printed := printed s @ [(t, data m)]\<rparr>))))
    | PFree mp \<Rightarrow> Some (rbind (deref (heap s) mp) (\<lambda>m.
        Inr (goto t PLock (s\<lparr>heap := (heap s)(mp := None)\<rparr>)))))"

text \<open>\<^verbatim>\<open>pthread_cond_signal\<close>: the chosen thread is woken if it is waiting.\<close>

definition signal :: "int \<Rightarrow> wq \<Rightarrow> wq" where
  "signal t s = (if wpc s t = PWaiting then goto t PWoken s else s)"

text \<open>\<^verbatim>\<open>enqueue_msg\<close> at one of its five statements; \<^const>\<open>None\<close> also when the counter is outside.\<close>

definition enqueue_msg :: "choice \<Rightarrow> wq \<Rightarrow> wq result option" where
  "enqueue_msg c s = (case mpc s of
      MLock mp \<Rightarrow> map_option (\<lambda>s. Inr (s\<lparr>mpc := MLink mp\<rparr>)) (lock 0 s)
    | MLink mp \<Rightarrow> Some (rbind (deref (heap s) mp) (\<lambda>m.
        Inr (s\<lparr>heap := (heap s)(mp \<mapsto> m\<lparr>m_next := workq s\<rparr>), mpc := MHead mp\<rparr>)))
    | MHead mp \<Rightarrow> Some (Inr (s\<lparr>workq := mp, mpc := MUnlock\<rparr>))
    | MUnlock \<Rightarrow> Some (Inr ((unlock s)\<lparr>mpc := MSignal\<rparr>))
    | MSignal \<Rightarrow> Some (Inr ((signal (c_wake c) s)\<lparr>mpc := MLoop, loop_no := loop_no s + 1\<rparr>))
    | _ \<Rightarrow> None)"

text \<open>What a new thread does before it touches shared state is to print its ids (its cleanup handler
  is popped without being run); then it is at the start of \<^verbatim>\<open>process_msg\<close>, with its number.\<close>

definition thr_func1 :: "wq \<Rightarrow> wq" where
  "thr_func1 s = goto 1 PLock s"

definition thr_func2 :: "wq \<Rightarrow> wq" where
  "thr_func2 s = goto 2 PLock s"

text \<open>
  \<^verbatim>\<open>main\<close>. A thread function calls \<^verbatim>\<open>process_msg\<close>, which never returns, so that
  \<^verbatim>\<open>pthread_join\<close> blocks for ever.
\<close>

definition main_thread :: "choice \<Rightarrow> wq \<Rightarrow> wq result option" where
  "main_thread c s = (case mpc s of
      MAlloc \<Rightarrow> Some (Inr (s\<lparr>foos := snd (foo_alloc (c_malloc c) (c_err c) (foos s)), mpc := MCreate1\<rparr>))
    | MCreate1 \<Rightarrow> Some (Inr (if c_err c \<noteq> 0 then s\<lparr>mpc := MExit\<rparr> else thr_func1 (s\<lparr>mpc := MCreate2\<rparr>)))
    | MCreate2 \<Rightarrow> Some (Inr (if c_err c \<noteq> 0 then s\<lparr>mpc := MExit\<rparr> else thr_func2 (s\<lparr>mpc := MLoop\<rparr>)))
    | MLoop \<Rightarrow>
        Some (Inr (if loop_no s < 10
          then (if c_malloc c = 0 then s else s\<lparr>heap := (heap s)(c_malloc c \<mapsto> c_junk c)\<rparr>)\<lparr>mpc := MData (c_malloc c)\<rparr>
          else s\<lparr>mpc := MJoin\<rparr>))
    | MData f \<Rightarrow> Some (rbind (deref (heap s) f) (\<lambda>m.
        Inr (s\<lparr>heap := (heap s)(f \<mapsto> m\<lparr>data := messages ! loop_no s\<rparr>), mpc := MLock f\<rparr>)))
    | MJoin \<Rightarrow> None
    | MExit \<Rightarrow> None
    | _ \<Rightarrow> enqueue_msg c s)"

text \<open>What \<^verbatim>\<open>malloc\<close> and \<^verbatim>\<open>pthread_cond_signal\<close> promise: a block is fresh or the null pointer, and
  a waiting thread is woken if there is one.\<close>

definition allowed :: "choice \<Rightarrow> wq \<Rightarrow> bool" where
  "allowed c s \<longleftrightarrow>
     (c_malloc c \<noteq> 0 \<longrightarrow> heap s (c_malloc c) = None \<and> foos s (c_malloc c) = None)
     \<and> (wpc s 1 = PWaiting \<or> wpc s 2 = PWaiting \<longrightarrow> c_wake c \<in> {1, 2} \<and> wpc s (c_wake c) = PWaiting)"

inductive step :: "wq \<Rightarrow> wq result \<Rightarrow> bool" where
  step_main: "allowed c s \<Longrightarrow> main_thread c s = Some r \<Longrightarrow> step s r"
| step_worker: "t \<in> {1, 2} \<Longrightarrow> mpc s \<noteq> MExit \<Longrightarrow> process_msg t s = Some r \<Longrightarrow> step s r"

inductive spurious :: "wq \<Rightarrow> wq \<Rightarrow> bool" where
  spurious_wakeup: "t \<in> {1, 2} \<Longrightarrow> wpc s t = PWaiting \<Longrightarrow> spurious s (goto t PWoken s)"

text \<open>A run with \<open>n\<close> ordinary steps and \<open>k\<close> spurious wake-ups.\<close>

abbreviation run :: "nat \<Rightarrow> nat \<Rightarrow> wq \<Rightarrow> wq \<Rightarrow> bool" where
  "run \<equiv> runs (\<lambda>s s'. step s (Inr s')) spurious"

definition reachable :: "wq \<Rightarrow> bool" where
  "reachable s \<longleftrightarrow> (\<exists>n k. run n k init s)"

inductive_cases stepE: "step s r"
inductive_cases spuriousE: "spurious s s'"

section \<open>Invariant\<close>

text \<open>The linked list from a pointer: \<open>qs\<close> are its nodes in order.\<close>

primrec is_list :: "(ptr \<rightharpoonup> msg) \<Rightarrow> ptr \<Rightarrow> ptr list \<Rightarrow> bool" where
  "is_list h p [] \<longleftrightarrow> p = 0"
| "is_list h p (q # qs) \<longleftrightarrow>
     p = q \<and> q \<noteq> 0 \<and> (case h q of None \<Rightarrow> False | Some m \<Rightarrow> is_list h (m_next m) qs)"

text \<open>The nodes a thread owns, and those of them whose message is not printed yet.\<close>

fun own :: "pc \<Rightarrow> ptr list" where
  "own (PUnlock p) = [p]"
| "own (PPrint p) = [p]"
| "own (PFree p) = [p]"
| "own _ = []"

fun unprinted :: "pc \<Rightarrow> ptr list" where
  "unprinted (PUnlock p) = [p]"
| "unprinted (PPrint p) = [p]"
| "unprinted _ = []"

fun main_own :: "main_pc \<Rightarrow> ptr list" where
  "main_own (MData p) = (if p = 0 then [] else [p])"
| "main_own (MLock p) = [p]"
| "main_own (MLink p) = [p]"
| "main_own (MHead p) = [p]"
| "main_own _ = []"

text \<open>The statements between taking and releasing the mutex.\<close>

fun critical :: "pc \<Rightarrow> bool" where
  "critical PTest = True"
| "critical PWait = True"
| "critical PTake = True"
| "critical (PNext p) = True"
| "critical (PUnlock p) = True"
| "critical _ = False"

fun main_critical :: "main_pc \<Rightarrow> bool" where
  "main_critical (MLink p) = True"
| "main_critical (MHead p) = True"
| "main_critical MUnlock = True"
| "main_critical _ = False"

definition lock_inv :: "wq \<Rightarrow> bool" where
  "lock_inv s \<longleftrightarrow>
     (\<forall>t. critical (wpc s t) \<longleftrightarrow> qlock s = Some t \<and> t \<noteq> 0) \<and> (main_critical (mpc s) \<longleftrightarrow> qlock s = Some 0)
     \<and> (\<forall>t. t \<noteq> 1 \<and> t \<noteq> 2 \<longrightarrow> wpc s t = PIdle)"

text \<open>Every allocated node is in the list or owned by exactly one thread.\<close>

definition nodes :: "ptr list \<Rightarrow> wq \<Rightarrow> ptr multiset" where
  "nodes qs s = mset qs + mset (own (wpc s 1)) + mset (own (wpc s 2)) + mset (main_own (mpc s))"

definition heap_inv :: "ptr list \<Rightarrow> wq \<Rightarrow> bool" where
  "heap_inv qs s \<longleftrightarrow>
     is_list (heap s) (workq s) qs \<and> finite (dom (heap s)) \<and> nodes qs s = mset_set (dom (heap s))
     \<and> heap s 0 = None"

fun pc_inv :: "pc \<Rightarrow> ptr \<Rightarrow> bool" where
  "pc_inv PTake q \<longleftrightarrow> q \<noteq> 0"
| "pc_inv PWait q \<longleftrightarrow> q = 0"
| "pc_inv (PNext p) q \<longleftrightarrow> p = q \<and> q \<noteq> 0"
| "pc_inv _ q \<longleftrightarrow> True"

definition idle :: "wq \<Rightarrow> int \<Rightarrow> bool" where
  "idle s t \<longleftrightarrow> wpc s t = PIdle"

text \<open>What holds at each statement of the main thread; \<open>linked\<close> counts the messages it has put
  into the list.\<close>

definition main_inv :: "wq \<Rightarrow> bool" where
  "main_inv s = (case mpc s of
      MAlloc \<Rightarrow> loop_no s = 0 \<and> idle s 1 \<and> idle s 2
    | MCreate1 \<Rightarrow> loop_no s = 0 \<and> idle s 1 \<and> idle s 2
    | MCreate2 \<Rightarrow> loop_no s = 0 \<and> \<not> idle s 1 \<and> idle s 2
    | MLoop \<Rightarrow> loop_no s \<le> 10 \<and> \<not> idle s 1 \<and> \<not> idle s 2
    | MData p \<Rightarrow> loop_no s < 10 \<and> \<not> idle s 1 \<and> \<not> idle s 2
    | MLock p \<Rightarrow> loop_no s < 10 \<and> \<not> idle s 1 \<and> \<not> idle s 2 \<and> p \<noteq> 0
        \<and> map_option data (heap s p) = Some (messages ! loop_no s)
    | MLink p \<Rightarrow> loop_no s < 10 \<and> \<not> idle s 1 \<and> \<not> idle s 2 \<and> p \<noteq> 0
        \<and> map_option data (heap s p) = Some (messages ! loop_no s)
    | MHead p \<Rightarrow> loop_no s < 10 \<and> \<not> idle s 1 \<and> \<not> idle s 2 \<and> p \<noteq> 0
        \<and> heap s p = Some \<lparr>m_next = workq s, data = messages ! loop_no s\<rparr>
    | MUnlock \<Rightarrow> loop_no s < 10 \<and> \<not> idle s 1 \<and> \<not> idle s 2
    | MSignal \<Rightarrow> loop_no s < 10 \<and> \<not> idle s 1 \<and> \<not> idle s 2
    | MJoin \<Rightarrow> loop_no s = 10 \<and> \<not> idle s 1 \<and> \<not> idle s 2
    | MExit \<Rightarrow> loop_no s = 0)"

definition linked :: "wq \<Rightarrow> nat" where
  "linked s = (if mpc s = MUnlock \<or> mpc s = MSignal then loop_no s + 1 else loop_no s)"

definition datum :: "wq \<Rightarrow> ptr \<Rightarrow> string" where
  "datum s p = (case heap s p of None \<Rightarrow> [] | Some m \<Rightarrow> data m)"

text \<open>Every message put into the list is printed, in the hands of one worker, or in the list.\<close>

definition to_print :: "ptr list \<Rightarrow> wq \<Rightarrow> ptr multiset" where
  "to_print qs s = mset qs + mset (unprinted (wpc s 1)) + mset (unprinted (wpc s 2))"

definition count_inv :: "ptr list \<Rightarrow> wq \<Rightarrow> bool" where
  "count_inv qs s \<longleftrightarrow>
     mset (map snd (printed s)) + image_mset (datum s) (to_print qs s) = mset (take (linked s) messages)"

text \<open>No wake-up is lost: while there are messages and both workers wait, a signal is to come.\<close>

definition wake_inv :: "wq \<Rightarrow> bool" where
  "wake_inv s \<longleftrightarrow>
     (workq s \<noteq> 0 \<and> wpc s 1 = PWaiting \<and> wpc s 2 = PWaiting \<longrightarrow> mpc s = MUnlock \<or> mpc s = MSignal)"

definition inv :: "ptr list \<Rightarrow> wq \<Rightarrow> bool" where
  "inv qs s \<longleftrightarrow> lock_inv s \<and> heap_inv qs s \<and> (\<forall>t. pc_inv (wpc s t) (workq s))
     \<and> main_inv s \<and> count_inv qs s \<and> wake_inv s"

section \<open>Potential, runs and schedules\<close>

fun after :: "pc \<Rightarrow> ptr list \<Rightarrow> ptr list" where
  "after (PNext p) qs = tl qs"
| "after _ qs = qs"

fun main_after :: "main_pc \<Rightarrow> ptr list \<Rightarrow> ptr list" where
  "main_after (MHead p) qs = p # qs"
| "main_after _ qs = qs"

text \<open>A potential that every step but a spurious wake-up lowers.\<close>

fun worker_rank :: "pc \<Rightarrow> nat" where
  "worker_rank PIdle = 0"
| "worker_rank PLock = 5"
| "worker_rank PTest = 4"
| "worker_rank PWait = 3"
| "worker_rank PWaiting = 0"
| "worker_rank PWoken = 5"
| "worker_rank PTake = 3"
| "worker_rank (PNext p) = 2"
| "worker_rank (PUnlock p) = 8"
| "worker_rank (PPrint p) = 7"
| "worker_rank (PFree p) = 6"

fun main_rank :: "main_pc \<Rightarrow> nat \<Rightarrow> nat" where
  "main_rank MAlloc n = 74"
| "main_rank MCreate1 n = 73"
| "main_rank MCreate2 n = 72"
| "main_rank MLoop n = 7 * (10 - n) + 1"
| "main_rank (MData p) n = 7 * (10 - n)"
| "main_rank (MLock p) n = 7 * (10 - n) - 1"
| "main_rank (MLink p) n = 7 * (10 - n) - 2"
| "main_rank (MHead p) n = 7 * (10 - n) - 3"
| "main_rank MUnlock n = 7 * (10 - n) - 4"
| "main_rank MSignal n = 7 * (10 - n) - 5"
| "main_rank MJoin n = 0"
| "main_rank MExit n = 0"

definition rank :: "ptr list \<Rightarrow> wq \<Rightarrow> nat" where
  "rank qs s = 20 * main_rank (mpc s) (loop_no s) + 10 * length qs
     + worker_rank (wpc s 1) + worker_rank (wpc s 2)"

text \<open>A schedule names the threads that run, with what the library chooses for the main thread.\<close>

datatype label = Main choice | Worker int | Wake int

fun exec :: "label list \<Rightarrow> wq \<Rightarrow> wq option" where
  "exec [] s = Some s"
| "exec (Main c # ls) s =
     (if allowed c s then (case main_thread c s of Some (Inr s') \<Rightarrow> exec ls s' | _ \<Rightarrow> None) else None)"
| "exec (Worker t # ls) s =
     (if (t = 1 \<or> t = 2) \<and> mpc s \<noteq> MExit
      then (case process_msg t s of Some (Inr s') \<Rightarrow> exec ls s' | _ \<Rightarrow> None) else None)"
| "exec (Wake t # ls) s =
     (if (t = 1 \<or> t = 2) \<and> wpc s t = PWaiting then exec ls (goto t PWoken s) else None)"

definition pick :: "ptr \<Rightarrow> int \<Rightarrow> choice" where
  "pick p t = \<lparr>c_malloc = p, c_junk = \<lparr>m_next = 99, data = ''?''\<rparr>, c_err = 0, c_wake = t\<rparr>"

text \<open>The main thread puts all ten messages into the list before the workers run.\<close>

definition enqueue_all :: "label list" where
  "enqueue_all = concat (map (\<lambda>i. Main (pick (i + 2) 1) # replicate 6 (Main (pick 0 1))) [0..<10])"

definition sample_schedule :: "label list" where
  "sample_schedule = Main (pick 50 1) # replicate 2 (Main (pick 0 1)) @ enqueue_all @ [Main (pick 0 1)]
     @ concat (replicate 10 (replicate 7 (Worker 1))) @ replicate 3 (Worker 1) @ replicate 3 (Worker 2)"

text \<open>Sequences of calls on one object, and the counter they implement: the object is gone when
  the count is zero, and any further call uses freed memory.\<close>

datatype foo_op = Hold | Rele

fun foo_run :: "ptr \<Rightarrow> foo_op list \<Rightarrow> (ptr \<rightharpoonup> foo) \<Rightarrow> (ptr \<rightharpoonup> foo) result" where
  "foo_run p [] h = Inr h"
| "foo_run p (Hold # ops) h = rbind (foo_hold p h) (foo_run p ops)"
| "foo_run p (Rele # ops) h = rbind (foo_rele p h) (foo_run p ops)"

fun count_run :: "foo_op list \<Rightarrow> nat \<Rightarrow> nat result" where
  "count_run [] n = Inr n"
| "count_run (_ # ops) 0 = Inl UseAfterFree"
| "count_run (Hold # ops) n = count_run ops (n + 1)"
| "count_run (Rele # ops) n = count_run ops (n - 1)"

definition with_count :: "ptr \<Rightarrow> (ptr \<rightharpoonup> foo) \<Rightarrow> nat \<Rightarrow> (ptr \<rightharpoonup> foo)" where
  "with_count p h n = (if n = 0 then h else h(p \<mapsto> \<lparr>f_count = of_nat n\<rparr>))"

section \<open>Lemmas\<close>

lemma is_list_0 [simp]: "is_list h 0 qs \<longleftrightarrow> qs = []"
  by (cases qs) auto

lemma is_list_upd [simp]: "p \<notin> set qs \<Longrightarrow> is_list (h(p := v)) q qs \<longleftrightarrow> is_list h q qs"
  by (induction qs arbitrary: q) (auto split: option.splits)

lemma is_list_pos: "q \<noteq> 0 \<Longrightarrow> is_list h q qs \<longleftrightarrow>
   (\<exists>m rs. qs = q # rs \<and> h q = Some m \<and> is_list h (m_next m) rs)"
  by (cases qs) (auto split: option.splits)

lemma pc_inv_outside: "\<not> critical c \<Longrightarrow> pc_inv c q"
  by (cases c) auto

lemma init_inv: "inv [] init"
  by (simp add: inv_def lock_inv_def heap_inv_def main_inv_def count_inv_def wake_inv_def init_def
      idle_def linked_def nodes_def to_print_def)

lemmas step_defs = process_msg_def goto_def lock_def unlock_def deref_def

text \<open>Where a node moves when a worker goes on.\<close>

lemma nodes_goto:
  "t \<in> {1, 2} \<Longrightarrow> nodes qs (goto t c s) + mset (own (wpc s t)) = nodes qs s + mset (own c)"
  by (auto simp: nodes_def goto_def)

lemma to_print_goto:
  "t \<in> {1, 2} \<Longrightarrow> to_print qs (goto t c s) + mset (unprinted (wpc s t)) = to_print qs s + mset (unprinted c)"
  by (auto simp: to_print_def goto_def)

lemma nodes_stay: "t \<in> {1, 2} \<Longrightarrow> own c = own (wpc s t) \<Longrightarrow> nodes qs (goto t c s) = nodes qs s"
  using nodes_goto [of t qs c s] by simp

lemma to_print_stay:
  "t \<in> {1, 2} \<Longrightarrow> unprinted c = unprinted (wpc s t) \<Longrightarrow> to_print qs (goto t c s) = to_print qs s"
  using to_print_goto [of t qs c s] by simp

lemma nodes_Cons: "nodes (p # qs) s = add_mset p (nodes qs s)"
  by (simp add: nodes_def)

lemma to_print_Cons: "to_print (p # qs) s = add_mset p (to_print qs s)"
  by (simp add: to_print_def)

lemma heap_inv_once: "heap_inv qs s \<Longrightarrow> count (nodes qs s) p \<le> 1"
  by (auto simp: heap_inv_def count_mset_set')

lemma heap_inv_distinct: "heap_inv qs s \<Longrightarrow> distinct qs"
proof -
  assume h: "heap_inv qs s"
  have "count (mset qs) p \<le> 1" for p
    using heap_inv_once [OF h, of p] by (simp add: nodes_def)
  then show ?thesis by (metis distinct_count_atmost_1 count_mset_0_iff le_antisym nat_le_linear
      One_nat_def Suc_leI count_mset_gt_0)
qed

lemma goto_simps [simp]:
  "heap (goto t c s) = heap s" "workq (goto t c s) = workq s" "qlock (goto t c s) = qlock s"
  "mpc (goto t c s) = mpc s" "loop_no (goto t c s) = loop_no s" "printed (goto t c s) = printed s"
  "wpc (goto t c s) u = (if u = t then c else wpc s u)"
  by (simp_all add: goto_def)

lemma process_msg_InrE:
  assumes "process_msg t s = Some (Inr s')"
  obtains (Lock) "wpc s t = PLock \<or> wpc s t = PWoken" "qlock s = None" "s' = goto t PTest (s\<lparr>qlock := Some t\<rparr>)"
  | (Test_empty) "wpc s t = PTest" "workq s = 0" "s' = goto t PWait s"
  | (Test_some) "wpc s t = PTest" "workq s \<noteq> 0" "s' = goto t PTake s"
  | (Wait) "wpc s t = PWait" "s' = goto t PWaiting (s\<lparr>qlock := None\<rparr>)"
  | (Take) "wpc s t = PTake" "s' = goto t (PNext (workq s)) s"
  | (Next) p m where "wpc s t = PNext p" "heap s p = Some m" "s' = goto t (PUnlock p) (s\<lparr>workq := m_next m\<rparr>)"
  | (Unlock) p where "wpc s t = PUnlock p" "s' = goto t (PPrint p) (s\<lparr>qlock := None\<rparr>)"
  | (Print) p m where "wpc s t = PPrint p" "heap s p = Some m"
      "s' = goto t (PFree p) (s\<lparr>printed := printed s @ [(t, data m)]\<rparr>)"
  | (Free) p where "wpc s t = PFree p" "heap s p \<noteq> None" "s' = goto t PLock (s\<lparr>heap := (heap s)(p := None)\<rparr>)"
  using assms
  by (cases "wpc s t"; cases "qlock s"; simp add: process_msg_def lock_def unlock_def deref_def split: if_splits option.splits)

lemma process_msg_total:
  assumes "process_msg t s = Some r" "\<And>p. wpc s t \<in> {PNext p, PPrint p, PFree p} \<Longrightarrow> heap s p \<noteq> None"
  shows "\<exists>s'. r = Inr s'"
  using assms
  by (cases "wpc s t") (auto simp: process_msg_def lock_def unlock_def deref_def split: if_splits option.splits)

lemma worker_lock_inv:
  assumes l: "lock_inv s" and s: "process_msg t s = Some (Inr s')"
  shows "lock_inv s'"
proof -
  have t: "critical (wpc s t) \<longleftrightarrow> qlock s = Some t \<and> t \<noteq> 0" using l by (simp add: lock_inv_def)
  have "wpc s t \<noteq> PIdle" using s by (auto simp: process_msg_def)
  then have "t = 1 \<or> t = 2" using l by (auto simp: lock_inv_def)
  with s l t show ?thesis
    by (cases rule: process_msg_InrE) (auto simp: lock_inv_def)
qed

lemma worker_pc_inv:
  assumes l: "lock_inv s" and i: "\<forall>t. pc_inv (wpc s t) (workq s)" and s: "process_msg t s = Some (Inr s')"
  shows "\<forall>t. pc_inv (wpc s' t) (workq s')"
proof -
  have t: "pc_inv (wpc s t) (workq s)" using i by simp
  have u: "\<not> critical (wpc s u)" if "critical (wpc s t)" "u \<noteq> t" for u
    using that l by (simp add: lock_inv_def)
  from s i t show ?thesis
    by (cases rule: process_msg_InrE) (simp_all add: u pc_inv_outside)
qed

lemma worker_wake_inv:
  assumes i: "\<forall>t. pc_inv (wpc s t) (workq s)" and w: "wake_inv s" and s: "process_msg t s = Some (Inr s')"
  shows "wake_inv s'"
proof -
  have t: "pc_inv (wpc s t) (workq s)" using i by simp
  from s t w show ?thesis
    by (cases rule: process_msg_InrE) (auto simp: wake_inv_def)
qed

lemma worker_heap:
  assumes h: "heap_inv qs s" and i: "pc_inv (wpc s t) (workq s)" and t: "t \<in> {1, 2}"
    and p: "wpc s t \<in> {PNext p, PPrint p, PFree p}"
  shows "heap s p \<noteq> None"
proof (cases "wpc s t = PNext p")
  case True
  with h i show ?thesis by (auto simp: heap_inv_def is_list_pos)
next
  case False
  with p have "p \<in># mset (own (wpc s t))" by auto
  with t have "p \<in># nodes qs s" by (auto simp: nodes_def)
  with h show ?thesis by (auto simp: heap_inv_def)
qed

lemma nodes_fields [simp]:
  "nodes qs (s\<lparr>qlock := x\<rparr>) = nodes qs s" "nodes qs (s\<lparr>workq := w\<rparr>) = nodes qs s"
  "nodes qs (s\<lparr>printed := pr\<rparr>) = nodes qs s" "nodes qs (s\<lparr>heap := h\<rparr>) = nodes qs s"
  "to_print qs (s\<lparr>qlock := x\<rparr>) = to_print qs s" "to_print qs (s\<lparr>workq := w\<rparr>) = to_print qs s"
  "to_print qs (s\<lparr>printed := pr\<rparr>) = to_print qs s" "to_print qs (s\<lparr>heap := h\<rparr>) = to_print qs s"
  by (simp_all add: nodes_def to_print_def)

lemma worker_heap_inv:
  assumes h: "heap_inv qs s" and i: "pc_inv (wpc s t) (workq s)" and t: "t \<in> {1, 2}"
    and s: "process_msg t s = Some (Inr s')"
  shows "heap_inv (after (wpc s t) qs) s'"
  using s
proof (cases rule: process_msg_InrE)
  case (Next p m)
  with i h obtain rs where "qs = p # rs" "is_list (heap s) (m_next m) rs" by (auto simp: heap_inv_def is_list_pos)
  with Next h nodes_goto [OF t, of rs "PUnlock p" "s\<lparr>workq := m_next m\<rparr>"] show ?thesis
    by (simp add: heap_inv_def nodes_Cons)
next
  case (Free p)
  note n = nodes_goto [OF t, of qs PLock "s\<lparr>heap := (heap s)(p := None)\<rparr>"]
  have "p \<notin># mset qs"
  proof
    assume "p \<in># mset qs"
    moreover have "nodes qs s = mset qs + (nodes qs s - mset qs)" by (simp add: nodes_def)
    moreover have "p \<in># nodes qs s - mset qs" using t Free by (auto simp: nodes_def)
    ultimately have "count (nodes qs s) p \<ge> 2" 
      by (metis Suc_leI add_mono count_greater_zero_iff count_union one_add_one One_nat_def)
    with heap_inv_once [OF h, of p] show False by simp
  qed
  moreover have "mset_set (dom (heap s)) = add_mset p (mset_set (dom (heap s) - {p}))"
    using Free h by (intro mset_set.remove) (auto simp: heap_inv_def)
  moreover have "p \<noteq> 0" using Free h by (cases "p = 0") (simp_all add: heap_inv_def)
  ultimately show ?thesis using Free h n by (simp add: heap_inv_def)
qed (use h in \<open>auto simp: heap_inv_def nodes_stay [OF t]\<close>)

lemma datum_fields [simp]:
  "datum (s\<lparr>qlock := x\<rparr>) = datum s" "datum (s\<lparr>workq := w\<rparr>) = datum s"
  "datum (s\<lparr>printed := pr\<rparr>) = datum s" "datum (goto t c s) = datum s"
  by (simp_all add: datum_def fun_eq_iff)

lemma linked_fields [simp]:
  "linked (s\<lparr>qlock := x\<rparr>) = linked s" "linked (s\<lparr>workq := w\<rparr>) = linked s"
  "linked (s\<lparr>printed := pr\<rparr>) = linked s" "linked (s\<lparr>heap := h\<rparr>) = linked s" "linked (goto t c s) = linked s"
  by (simp_all add: linked_def)

lemma to_print_nodes: "to_print qs s \<subseteq># nodes qs s"
proof -
  have "mset (unprinted c) \<subseteq># mset (own c)" for c by (cases c) auto
  then show ?thesis by (simp add: to_print_def nodes_def subset_mset.add_mono add.assoc subset_mset.add_increasing2)
qed

lemma worker_count_inv:
  assumes h: "heap_inv qs s" "heap_inv (after (wpc s t) qs) s'" and c: "count_inv qs s"
    and i: "pc_inv (wpc s t) (workq s)" and t: "t \<in> {1, 2}" and s: "process_msg t s = Some (Inr s')"
  shows "count_inv (after (wpc s t) qs) s'"
  using s
proof (cases rule: process_msg_InrE)
  case (Next p m)
  with i h obtain rs where "qs = p # rs" by (auto simp: heap_inv_def is_list_pos)
  with Next c to_print_goto [OF t, of rs "PUnlock p" "s\<lparr>workq := m_next m\<rparr>"] show ?thesis
    by (simp add: count_inv_def to_print_Cons)
next
  case (Print p m)
  then have "datum s p = data m" by (simp add: datum_def)
  moreover have "to_print qs s = add_mset p (to_print qs s')"
    using Print to_print_goto [OF t, of qs "PFree p" "s\<lparr>printed := printed s @ [(t, data m)]\<rparr>"] by simp
  ultimately show ?thesis using Print c by (simp add: count_inv_def)
next
  case (Free p)
  have "to_print qs s' = to_print qs s"
    using Free to_print_goto [OF t, of qs PLock "s\<lparr>heap := (heap s)(p := None)\<rparr>"] by simp
  moreover have "datum s' q = datum s q" if "q \<in># to_print qs s'" for q
  proof -
    have "q \<in># nodes qs s'" using that to_print_nodes by (rule mset_subset_eqD [rotated])
    then have "heap s' q \<noteq> None" using h(2) Free by (auto simp: heap_inv_def)
    then show ?thesis using Free by (auto simp: datum_def)
  qed
  ultimately have "image_mset (datum s') (to_print qs s') = image_mset (datum s) (to_print qs s)"
    by (metis image_mset_cong)
  then show ?thesis using Free c by (simp add: count_inv_def)
qed (use c in \<open>auto simp: count_inv_def to_print_stay [OF t]\<close>)

text \<open>What the main thread needs of the workers: its own node stays as it is.\<close>

lemma worker_main_inv:
  assumes l: "lock_inv s" and h: "heap_inv qs s" and m: "main_inv s" and t: "t \<in> {1, 2}"
    and s: "process_msg t s = Some (Inr s')"
  shows "main_inv s'"
proof -
  have f: "mpc s' = mpc s" "loop_no s' = loop_no s" "idle s' u = idle s u" for u
    using s by (cases rule: process_msg_InrE; auto simp: idle_def)+
  have "heap s' p = heap s p" if "p \<in> set (main_own (mpc s))" for p
  proof (cases "wpc s t = PFree p")
    case True
    then have "count (nodes qs s) p \<ge> 2" using t that by (auto simp: nodes_def count_mset_gt_0 Suc_le_eq)
    with heap_inv_once [OF h, of p] show ?thesis by simp
  next
    case False
    show ?thesis using s False by (cases rule: process_msg_InrE) auto
  qed
  moreover have "workq s' = workq s" if "main_critical (mpc s)"
  proof -
    have "\<not> critical (wpc s t)" using that l t by (auto simp: lock_inv_def)
    with s show ?thesis by (cases rule: process_msg_InrE) auto
  qed
  ultimately show ?thesis using m f by (simp add: main_inv_def split: main_pc.splits)
qed

lemma worker_inv:
  assumes i: "inv qs s" and t: "t \<in> {1, 2}" and s: "process_msg t s = Some r"
  shows "\<exists>s'. r = Inr s' \<and> inv (after (wpc s t) qs) s'"
proof -
  have "heap s p \<noteq> None" if "wpc s t \<in> {PNext p, PPrint p, PFree p}" for p
    using worker_heap [OF _ _ t that] i by (auto simp: inv_def)
  then obtain s' where s': "r = Inr s'" using process_msg_total [OF s] by blast
  have h: "heap_inv (after (wpc s t) qs) s'" using worker_heap_inv [OF _ _ t] i s s' by (simp add: inv_def)
  have "lock_inv s'" using worker_lock_inv [of s t s'] i s s' by (simp add: inv_def)
  moreover have "\<forall>t. pc_inv (wpc s' t) (workq s')" using worker_pc_inv [of s t s'] i s s' by (simp add: inv_def)
  moreover have "wake_inv s'" using worker_wake_inv [of s t s'] i s s' by (simp add: inv_def)
  moreover have "main_inv s'" using worker_main_inv [OF _ _ _ t] i s s' unfolding inv_def by blast
  moreover have "count_inv (after (wpc s t) qs) s'"
    using worker_count_inv [OF _ h _ _ t] i s s' by (simp add: inv_def)
  ultimately show ?thesis using s' h by (simp add: inv_def)
qed

lemma main_threadE:
  assumes "main_thread c s = Some r"
  obtains (Alloc) "mpc s = MAlloc"
      "r = Inr (s\<lparr>foos := snd (foo_alloc (c_malloc c) (c_err c) (foos s)), mpc := MCreate1\<rparr>)"
  | (Fail) "mpc s = MCreate1 \<or> mpc s = MCreate2" "r = Inr (s\<lparr>mpc := MExit\<rparr>)"
  | (Create1) "mpc s = MCreate1" "r = Inr (goto 1 PLock (s\<lparr>mpc := MCreate2\<rparr>))"
  | (Create2) "mpc s = MCreate2" "r = Inr (goto 2 PLock (s\<lparr>mpc := MLoop\<rparr>))"
  | (Null) "mpc s = MLoop" "loop_no s < 10" "c_malloc c = 0" "r = Inr (s\<lparr>mpc := MData 0\<rparr>)"
  | (Malloc) "mpc s = MLoop" "loop_no s < 10" "c_malloc c \<noteq> 0"
      "r = Inr (s\<lparr>heap := (heap s)(c_malloc c \<mapsto> c_junk c), mpc := MData (c_malloc c)\<rparr>)"
  | (Done) "mpc s = MLoop" "\<not> loop_no s < 10" "r = Inr (s\<lparr>mpc := MJoin\<rparr>)"
  | (Data) p m where "mpc s = MData p" "heap s p = Some m"
      "r = Inr (s\<lparr>heap := (heap s)(p \<mapsto> m\<lparr>data := messages ! loop_no s\<rparr>), mpc := MLock p\<rparr>)"
  | (Lock) p where "mpc s = MLock p" "qlock s = None" "r = Inr (s\<lparr>qlock := Some 0, mpc := MLink p\<rparr>)"
  | (Link) p m where "mpc s = MLink p" "heap s p = Some m"
      "r = Inr (s\<lparr>heap := (heap s)(p \<mapsto> m\<lparr>m_next := workq s\<rparr>), mpc := MHead p\<rparr>)"
  | (Head) p where "mpc s = MHead p" "r = Inr (s\<lparr>workq := p, mpc := MUnlock\<rparr>)"
  | (Unlock) "mpc s = MUnlock" "r = Inr (s\<lparr>qlock := None, mpc := MSignal\<rparr>)"
  | (Signal) "mpc s = MSignal" "r = Inr ((signal (c_wake c) s)\<lparr>mpc := MLoop, loop_no := loop_no s + 1\<rparr>)"
  | (Fault) p where "mpc s = MData p \<or> mpc s = MLink p" "heap s p = None"
      "r = Inl (if p = 0 then NullPointer else UseAfterFree)"
proof -
  note d = main_thread_def thr_func1_def thr_func2_def enqueue_msg_def lock_def unlock_def deref_def
  show ?thesis
  proof (cases "mpc s")
    case MAlloc then show ?thesis using assms that(1) by (simp add: d)
  next
    case MCreate1 then show ?thesis using assms that(2,3) by (simp add: d split: if_splits)
  next
    case MCreate2 then show ?thesis using assms that(2,4) by (simp add: d split: if_splits)
  next
    case MLoop then show ?thesis using assms that(5-7) by (simp add: d split: if_splits)
  next
    case (MData p) then show ?thesis using assms that(8,14) by (simp add: d split: option.splits)
  next
    case (MLock p) then show ?thesis using assms that(9) by (simp add: d split: if_splits)
  next
    case (MLink p) then show ?thesis using assms that(10,14) by (simp add: d split: option.splits)
  next
    case (MHead p) then show ?thesis using assms that(11) by (simp add: d)
  next
    case MUnlock then show ?thesis using assms that(12) by (simp add: d)
  next
    case MSignal then show ?thesis using assms that(13) by (simp add: d)
  qed (use assms in \<open>simp_all add: main_thread_def\<close>)
qed

text \<open>A waiting thread may be woken at any time.\<close>

lemma wake_inv_all:
  assumes i: "inv qs s" and w: "wpc s t = PWaiting"
  shows "inv qs (goto t PWoken s)"
proof -
  have t: "t \<in> {1, 2}" using i w by (force simp: inv_def lock_inv_def)
  have "\<not> critical (wpc s t)" using w by simp
  then have "lock_inv (goto t PWoken s)" using i t by (auto simp: inv_def lock_inv_def)
  moreover have "heap_inv qs (goto t PWoken s)" using i w by (simp add: inv_def heap_inv_def nodes_stay [OF t])
  moreover have "count_inv qs (goto t PWoken s)" using i w by (simp add: inv_def count_inv_def to_print_stay [OF t])
  moreover have "main_inv (goto t PWoken s)"
    using i w by (auto simp: inv_def main_inv_def idle_def split: main_pc.splits)
  ultimately show ?thesis using i by (simp add: inv_def wake_inv_def)
qed

lemma signal_inv: "inv qs s \<Longrightarrow> inv qs (signal t s)"
  by (simp add: signal_def wake_inv_all)

lemma main_fields [simp]:
  "to_print qs (s\<lparr>mpc := x\<rparr>) = to_print qs s" "to_print qs (s\<lparr>loop_no := n\<rparr>) = to_print qs s"
  "to_print qs (s\<lparr>foos := fs\<rparr>) = to_print qs s"
  "datum (s\<lparr>mpc := x\<rparr>) = datum s" "datum (s\<lparr>loop_no := n\<rparr>) = datum s" "datum (s\<lparr>foos := fs\<rparr>) = datum s"
  by (simp_all add: to_print_def datum_def fun_eq_iff)

lemma main_lock_inv:
  assumes l: "lock_inv s" and s: "main_thread c s = Some (Inr s')" and m: "main_inv s" "mpc s \<noteq> MSignal"
  shows "lock_inv s'"
proof -
  have "critical (wpc s 1) \<longleftrightarrow> qlock s = Some 1" "critical (wpc s 2) \<longleftrightarrow> qlock s = Some 2"
    using l by (simp_all add: lock_inv_def)
  with s l m show ?thesis by (cases rule: main_threadE) (auto simp: lock_inv_def main_inv_def idle_def)
qed

lemma main_pc_inv:
  assumes l: "lock_inv s" and i: "\<forall>t. pc_inv (wpc s t) (workq s)" and s: "main_thread c s = Some (Inr s')" and m: "mpc s \<noteq> MSignal"
  shows "\<forall>t. pc_inv (wpc s' t) (workq s')"
proof -
  have u: "\<not> critical (wpc s u)" if "main_critical (mpc s)" for u
    using that l by (simp add: lock_inv_def)
  from s i m show ?thesis
    by (cases rule: main_threadE) (auto simp: u pc_inv_outside)
qed

lemma main_wake_inv:
  assumes w: "wake_inv s" and s: "main_thread c s = Some (Inr s')" and m: "mpc s \<noteq> MSignal"
  shows "wake_inv s'"
  using s w m by (cases rule: main_threadE) (auto simp: wake_inv_def)

lemma in_nodes_alloc: "heap_inv qs s \<Longrightarrow> p \<in># nodes qs s \<Longrightarrow> heap s p \<noteq> None"
  by (auto simp: heap_inv_def)

lemma main_own_alloc:
  "heap_inv qs s \<Longrightarrow> p \<in> set (main_own (mpc s)) \<Longrightarrow> heap s p \<noteq> None \<and> p \<notin> set qs"
proof -
  assume h: "heap_inv qs s" and p: "p \<in> set (main_own (mpc s))"
  have "p \<in># nodes qs s" using p by (simp add: nodes_def)
  then have a: "heap s p \<noteq> None" using h by (auto simp: heap_inv_def)
  have "p \<notin> set qs"
  proof
    assume "p \<in> set qs"
    then have "0 < count (mset qs) p" "0 < count (mset (main_own (mpc s))) p"
      using p by (simp_all add: count_mset_gt_0)
    with heap_inv_once [OF h, of p] show False by (simp add: nodes_def)
  qed
  with a show ?thesis by simp
qed

lemma main_heap_inv:
  assumes h: "heap_inv qs s" and a: "allowed c s" and m: "main_inv s" "mpc s \<noteq> MSignal"
    and s: "main_thread c s = Some (Inr s')"
  shows "heap_inv (main_after (mpc s) qs) s'"
  using s
proof (cases rule: main_threadE)
  case Malloc
  then have "c_malloc c \<notin> dom (heap s)" using a by (simp add: allowed_def domIff)
  moreover from this have "c_malloc c \<notin> set qs" using in_nodes_alloc [OF h, of "c_malloc c"] by (auto simp: nodes_def)
  ultimately show ?thesis using Malloc h
    by (simp add: heap_inv_def nodes_def)
next
  case (Data p m)
  then have "p \<noteq> 0" using h by (cases "p = 0") (simp_all add: heap_inv_def)
  moreover have "p \<notin> set qs" using main_own_alloc [OF h, of p] Data calculation by simp
  moreover have "insert p (dom (heap s)) = dom (heap s)" using Data by auto
  ultimately show ?thesis using Data h by (simp add: heap_inv_def nodes_def)
next
  case (Link p m)
  then have "p \<noteq> 0" using h by (cases "p = 0") (simp_all add: heap_inv_def)
  moreover have "p \<notin> set qs" using main_own_alloc [OF h, of p] Link by simp
  moreover have "insert p (dom (heap s)) = dom (heap s)" using Link by auto
  ultimately show ?thesis using Link h by (simp add: heap_inv_def nodes_def)
next
  case (Head p)
  then show ?thesis using m h by (simp add: heap_inv_def nodes_def main_inv_def)
qed (use h m in \<open>auto simp: heap_inv_def nodes_def main_inv_def idle_def\<close>)

lemma main_own_not_to_print:
  assumes h: "heap_inv qs s" and p: "p \<in> set (main_own (mpc s))"
  shows "p \<notin># to_print qs s"
proof
  assume "p \<in># to_print qs s"
  then have "0 < count (to_print qs s) p" by simp
  moreover have "0 < count (mset (main_own (mpc s))) p" using p by (simp add: count_mset_gt_0)
  moreover have "to_print qs s + mset (main_own (mpc s)) \<subseteq># nodes qs s"
  proof -
    have "mset (unprinted c) \<subseteq># mset (own c)" for c by (cases c) auto
    then show ?thesis by (simp add: to_print_def nodes_def subset_mset.add_mono)
  qed
  then have "count (to_print qs s) p + count (mset (main_own (mpc s))) p \<le> count (nodes qs s) p"
    by (metis count_union mset_subset_eq_count)
  ultimately show False using heap_inv_once [OF h, of p] by linarith
qed

lemma datum_upd:
  "p \<notin># M \<Longrightarrow> image_mset (datum (s\<lparr>heap := (heap s)(p := v)\<rparr>)) M = image_mset (datum s) M"
  by (rule image_mset_cong) (auto simp: datum_def)

lemma main_count_inv:
  assumes h: "heap_inv qs s" and c: "count_inv qs s" and a: "allowed c s" and m: "main_inv s" "mpc s \<noteq> MSignal"
    and s: "main_thread c s = Some (Inr s')"
  shows "count_inv (main_after (mpc s) qs) s'"
  using s
proof (cases rule: main_threadE)
  case Malloc
  then have "heap s (c_malloc c) = None" using a by (simp add: allowed_def)
  then have "c_malloc c \<notin># to_print qs s"
    using in_nodes_alloc [OF h] mset_subset_eqD [OF to_print_nodes] by blast
  then show ?thesis using Malloc c by (simp add: count_inv_def linked_def datum_upd)
next
  case (Data p m)
  then have "p \<noteq> 0" using h by (cases "p = 0") (simp_all add: heap_inv_def)
  then have "p \<notin># to_print qs s" using main_own_not_to_print [OF h, of p] Data by simp
  then show ?thesis using Data c by (simp add: count_inv_def linked_def datum_upd)
next
  case (Link p m)
  then have "p \<notin># to_print qs s" using main_own_not_to_print [OF h, of p] by simp
  then show ?thesis using Link c by (simp add: count_inv_def linked_def datum_upd)
next
  case (Head p)
  then have "datum s p = messages ! loop_no s" "loop_no s < length messages"
    using m by (simp_all add: main_inv_def datum_def messages_def)
  then show ?thesis using Head c
    by (simp add: count_inv_def linked_def to_print_Cons take_Suc_conv_app_nth)
qed (use c m in \<open>auto simp: count_inv_def linked_def to_print_def main_inv_def idle_def\<close>)

lemma main_main_inv:
  assumes h: "heap_inv qs s" and m: "main_inv s" "mpc s \<noteq> MSignal" and s: "main_thread c s = Some (Inr s')"
  shows "main_inv s'"
  using s
proof (cases rule: main_threadE)
  case (Data p m)
  then have "p \<noteq> 0" using h by (cases "p = 0") (simp_all add: heap_inv_def)
  with Data m show ?thesis by (simp add: main_inv_def idle_def)
next
  case (Link p m)
  then show ?thesis using \<open>main_inv s\<close> by (cases m) (simp add: main_inv_def idle_def)
qed (use m in \<open>auto simp: main_inv_def idle_def\<close>)

lemma main_signal_inv:
  assumes i: "inv qs s" and a: "allowed c s" and m: "mpc s = MSignal" and s: "main_thread c s = Some r"
  shows "\<exists>s'. r = Inr s' \<and> inv qs s'"
proof -
  let ?w = "signal (c_wake c) s"
  have r: "r = Inr (?w\<lparr>mpc := MLoop, loop_no := loop_no s + 1\<rparr>)"
    using s m by (simp add: main_thread_def enqueue_msg_def)
  have f: "mpc ?w = MSignal" "loop_no ?w = loop_no s" using m by (simp_all add: signal_def)
  have one: "wpc ?w 1 \<noteq> PWaiting \<or> wpc ?w 2 \<noteq> PWaiting"
    using a by (auto simp: allowed_def signal_def)
  have "inv qs ?w" using i by (rule signal_inv)
  then have "inv qs (?w\<lparr>mpc := MLoop, loop_no := loop_no s + 1\<rparr>)"
    using f one by (auto simp: inv_def lock_inv_def heap_inv_def nodes_def main_inv_def idle_def
        count_inv_def linked_def wake_inv_def)
  with r show ?thesis by blast
qed

text \<open>The main thread keeps the invariant, and its only fault is the null pointer of a failed
  \<^verbatim>\<open>malloc\<close>.\<close>

lemma main_thread_inv:
  assumes i: "inv qs s" and a: "allowed c s" and s: "main_thread c s = Some r"
  shows "r = Inl NullPointer \<and> mpc s = MData 0 \<or> (\<exists>s'. r = Inr s' \<and> inv (main_after (mpc s) qs) s')"
proof (cases "mpc s = MSignal")
  case True
  then show ?thesis using main_signal_inv [OF i a _ s] by simp
next
  case False
  show ?thesis
  proof (cases r)
    case (Inl e)
    from s show ?thesis
    proof (cases rule: main_threadE)
      case (Fault p)
      then have "p = 0" using i main_own_alloc [of qs s p] by (auto simp: inv_def split: if_splits)
      moreover from this have "mpc s \<noteq> MLink p" using i by (auto simp: inv_def main_inv_def)
      ultimately show ?thesis using Fault by auto
    qed (use Inl in simp_all)
  next
    case (Inr s')
    note s' = s [unfolded Inr]
    have "inv (main_after (mpc s) qs) s'"
      using i main_lock_inv [OF _ s' _ False] main_heap_inv [OF _ a _ False s'] main_pc_inv [OF _ _ s' False]
        main_main_inv [OF _ _ False s'] main_count_inv [OF _ _ a _ False s'] main_wake_inv [OF _ s' False]
      unfolding inv_def by blast
    with Inr show ?thesis by blast
  qed
qed

section \<open>Progress\<close>

lemma rank_goto: "t \<in> {1, 2} \<Longrightarrow>
  rank qs (goto t c s) + worker_rank (wpc s t) = rank qs s + worker_rank c"
  by (auto simp: rank_def)

lemma rank_fields [simp]:
  "rank qs (s\<lparr>qlock := x\<rparr>) = rank qs s" "rank qs (s\<lparr>workq := w\<rparr>) = rank qs s"
  "rank qs (s\<lparr>printed := pr\<rparr>) = rank qs s" "rank qs (s\<lparr>heap := h\<rparr>) = rank qs s"
  by (simp_all add: rank_def)

lemma worker_rank_less:
  assumes i: "inv qs s" and t: "t \<in> {1, 2}" and s: "process_msg t s = Some (Inr s')"
  shows "rank (after (wpc s t) qs) s' < rank qs s"
  using s
proof (cases rule: process_msg_InrE)
  case (Next p m)
  have "pc_inv (wpc s t) (workq s)" using i by (simp add: inv_def)
  with Next i obtain rs where "qs = p # rs" by (auto simp: inv_def heap_inv_def is_list_pos)
  moreover from this have "rank qs s = rank rs s + 10" by (simp add: rank_def)
  ultimately show ?thesis
    using Next rank_goto [OF t, of rs "PUnlock p" "s\<lparr>workq := m_next m\<rparr>"] by simp
next
  case Lock
  then show ?thesis using rank_goto [OF t, of qs PTest "s\<lparr>qlock := Some t\<rparr>"] by auto
next
  case Test_empty
  then show ?thesis using rank_goto [OF t, of qs PWait s] by simp
next
  case Test_some
  then show ?thesis using rank_goto [OF t, of qs PTake s] by simp
next
  case Wait
  then show ?thesis using rank_goto [OF t, of qs PWaiting "s\<lparr>qlock := None\<rparr>"] by simp
next
  case Take
  then show ?thesis using rank_goto [OF t, of qs "PNext (workq s)" s] by simp
next
  case (Unlock p)
  then show ?thesis using rank_goto [OF t, of qs "PPrint p" "s\<lparr>qlock := None\<rparr>"] by simp
next
  case (Print p m)
  then show ?thesis using rank_goto [OF t, of qs "PFree p" "s\<lparr>printed := printed s @ [(t, data m)]\<rparr>"] by simp
next
  case (Free p)
  then show ?thesis using rank_goto [OF t, of qs PLock "s\<lparr>heap := (heap s)(p := None)\<rparr>"] by simp
qed

lemma main_rank_less:
  assumes i: "inv qs s" and s: "main_thread c s = Some (Inr s')"
  shows "rank (main_after (mpc s) qs) s' < rank qs s"
proof -
  have m: "main_inv s" and l: "\<And>t. t \<noteq> 1 \<and> t \<noteq> 2 \<longrightarrow> wpc s t = PIdle"
    using i by (simp_all add: inv_def lock_inv_def)
  from s show ?thesis
  proof (cases rule: main_threadE)
    case Signal
    have "worker_rank (wpc (signal (c_wake c) s) 1) + worker_rank (wpc (signal (c_wake c) s) 2)
        \<le> worker_rank (wpc s 1) + worker_rank (wpc s 2) + 5"
      by (simp add: signal_def)
    moreover have "mpc (signal (c_wake c) s) = MSignal" "loop_no (signal (c_wake c) s) = loop_no s"
      using Signal by (simp_all add: signal_def)
    moreover have "10 - loop_no s = Suc (9 - loop_no s)" using Signal m by (auto simp: main_inv_def)
    ultimately show ?thesis using Signal by (simp add: rank_def)
  qed (use m in \<open>auto simp: rank_def main_inv_def idle_def\<close>)
qed

lemma step_inv_rank:
  assumes i: "inv qs s" and s: "step s (Inr s')"
  shows "\<exists>qs'. inv qs' s' \<and> rank qs' s' < rank qs s"
  using s
proof cases
  case (step_main c)
  then show ?thesis using main_thread_inv [OF i] main_rank_less [OF i] by blast
next
  case (step_worker t)
  then show ?thesis using worker_inv [OF i] worker_rank_less [OF i] by blast
qed

lemma spurious_inv_rank:
  assumes i: "inv qs s" and s: "spurious s s'"
  shows "inv qs s' \<and> rank qs s' \<le> rank qs s + 5"
  using s
proof cases
  case (spurious_wakeup t)
  then show ?thesis using wake_inv_all [OF i] rank_goto [of t qs PWoken s] by simp
qed

interpretation ranked: ranked_system inv rank "\<lambda>s s'. step s (Inr s')" spurious 5
  by unfold_locales (blast dest: step_inv_rank, blast dest: spurious_inv_rank)

lemma reachable_inv: "reachable s \<Longrightarrow> \<exists>qs. inv qs s"
  unfolding reachable_def using ranked.runs_rank [OF _ init_inv] by blast

text \<open>When a thread can go on.\<close>

lemma worker_enabled:
  assumes i: "inv qs s" and t: "t \<in> {1, 2}" and m: "mpc s \<noteq> MExit"
    and c: "wpc s t \<noteq> PIdle" "wpc s t \<noteq> PWaiting" "critical (wpc s t) \<or> qlock s = None"
  shows "\<exists>s'. step s (Inr s')"
proof -
  obtain r where r: "process_msg t s = Some r"
    using c by (cases "wpc s t") (auto simp: process_msg_def lock_def)
  then obtain s' where "r = Inr s'" using worker_inv [OF i t] by blast
  with r show ?thesis using step_worker [OF t m] by blast
qed

lemma main_enabled:
  assumes i: "inv qs s" and m: "mpc s \<notin> {MExit, MJoin, MData 0}"
    and q: "main_critical (mpc s) \<or> qlock s = None"
  shows "\<exists>s'. step s (Inr s')"
proof -
  let ?c = "\<lparr>c_malloc = 0, c_junk = \<lparr>m_next = 0, data = []\<rparr>, c_err = 0, c_wake = if wpc s 1 = PWaiting then 1 else 2\<rparr>"
  have a: "allowed ?c s" by (simp add: allowed_def)
  obtain r where r: "main_thread ?c s = Some r"
    using m q by (cases "mpc s") (auto simp: main_thread_def enqueue_msg_def lock_def)
  then obtain s' where "r = Inr s'" using main_thread_inv [OF i a] m by blast
  with r show ?thesis using step_main [OF a] by blast
qed

text \<open>A state from which no step leads on: the process has exited, is about to crash on the null
  pointer, or everything is done and the workers wait for more.\<close>

lemma no_step:
  assumes i: "inv qs s" and n: "\<And>s'. \<not> step s (Inr s')"
  shows "mpc s = MExit \<or> mpc s = MData 0 \<or> mpc s = MJoin \<and> wpc s 1 = PWaiting \<and> wpc s 2 = PWaiting
    \<and> workq s = 0 \<and> heap s = Map.empty \<and> mset (map snd (printed s)) = mset messages"
proof (cases "mpc s = MExit \<or> mpc s = MData 0")
  case False
  have l: "lock_inv s" using i by (simp add: inv_def)
  have free: "qlock s = None"
  proof (rule ccontr)
    assume "qlock s \<noteq> None"
    then obtain t where t: "qlock s = Some t" by auto
    show False
    proof (cases "t = 0")
      case True
      then have "main_critical (mpc s)" using t l by (simp add: lock_inv_def)
      with main_enabled [OF i] n show False by (cases "mpc s") auto
    next
      case f: False
      then have "critical (wpc s t)" using t l by (simp add: lock_inv_def)
      moreover have "t \<in> {1, 2}" using calculation l by (cases "t \<in> {1, 2}") (auto simp: lock_inv_def)
      ultimately show False using worker_enabled [OF i, of t] n False by (cases "wpc s t") auto
    qed
  qed
  then have w: "wpc s t = PIdle \<or> wpc s t = PWaiting" if "t \<in> {1, 2}" for t
    using worker_enabled [OF i that] n False by blast
  have j: "mpc s = MJoin" using main_enabled [OF i] free n False by blast
  then have p: "wpc s 1 = PWaiting" "wpc s 2 = PWaiting" "loop_no s = 10"
    using w [of 1] w [of 2] i by (auto simp: inv_def main_inv_def idle_def)
  then have q: "workq s = 0" using i j by (auto simp: inv_def wake_inv_def)
  then have "qs = []" using i by (simp add: inv_def heap_inv_def)
  moreover from this have "heap s = Map.empty"
    using i p j by (auto simp: inv_def heap_inv_def nodes_def mset_set_empty_iff)
  moreover have "mset (map snd (printed s)) = mset messages"
    using i p j \<open>qs = []\<close> by (simp add: inv_def count_inv_def to_print_def linked_def messages_def)
  ultimately show ?thesis using j p q by simp
qed auto

lemma exec_run:
  "exec ls s = Some t \<Longrightarrow>
     run (length (filter (\<lambda>l. case l of Wake _ \<Rightarrow> False | _ \<Rightarrow> True) ls))
       (length (filter (\<lambda>l. case l of Wake _ \<Rightarrow> True | _ \<Rightarrow> False) ls)) s t"
  by (induction ls s rule: exec.induct)
    (auto split: if_splits option.splits sum.splits intro: runs_refl runs_step runs_extra step_main step_worker spurious_wakeup)

lemma sample_run: "map_option (\<lambda>s. (map snd (printed s), mpc s, wpc s 1, wpc s 2)) (exec sample_schedule init)
  = Some (rev messages, MJoin, PWaiting, PWaiting)"
  by code_simp

lemma hold_count: "0 < n \<Longrightarrow> foo_hold p (with_count p h n) = Inr (with_count p h (Suc n))"
  by (auto simp: with_count_def foo_hold_def deref_def add.commute)

lemma rele_count:
  assumes "h p = None" "n < 2 ^ 31"
  shows "foo_rele p (with_count p h (Suc n)) = Inr (with_count p h n)"
proof -
  have "unat (of_nat n :: int32_t) = n" using assms by (simp add: unat_of_nat take_bit_nat_eq_self)
  then have "(of_nat n :: int32_t) = 0 \<longleftrightarrow> n = 0" by (metis unsigned_eq_0_iff)
  then show ?thesis using assms
    by (auto simp: with_count_def foo_rele_def deref_def fun_upd_idem)
qed

lemma gone_count: "h p = None \<Longrightarrow> p \<noteq> 0 \<Longrightarrow>
  foo_hold p (with_count p h 0) = Inl UseAfterFree \<and> foo_rele p (with_count p h 0) = Inl UseAfterFree"
  by (simp add: with_count_def foo_hold_def foo_rele_def deref_def)

lemma foo_run_count:
  assumes "p \<noteq> 0" "h p = None"
  shows "n + length ops < 2 ^ 31 \<Longrightarrow>
    foo_run p ops (with_count p h n) = map_sum id (with_count p h) (count_run ops n)"
proof (induction ops n rule: count_run.induct)
  case (2 op ops)
  then show ?case using gone_count [of h p] assms by (cases op) simp_all
next
  case (3 ops n)
  then show ?case by (simp add: hold_count)
next
  case (4 ops n)
  then show ?case using rele_count [of h p n] assms by simp
qed simp

section \<open>Properties\<close>

text \<open>C8. The work queue is safe under every interleaving and every choice of the library: at most one
  thread is between taking and releasing the mutex; the queue is a proper linked list; every
  message that was put in is printed, in the hands of one worker or in the list, so that none is
  lost and none is printed twice; and no thread ever uses freed memory or a null pointer, but for
  one case: \<^verbatim>\<open>main\<close> does not check what \<^verbatim>\<open>malloc\<close> returns and writes through the null pointer.\<close>

theorem workq_safe:
  assumes "reachable s"
  shows "(\<forall>e. step s (Inl e) \<longrightarrow> e = NullPointer \<and> mpc s = MData 0)
    \<and> \<not> (critical (wpc s 1) \<and> critical (wpc s 2)) \<and> (\<forall>t. critical (wpc s t) \<longrightarrow> \<not> main_critical (mpc s))
    \<and> (\<exists>qs. is_list (heap s) (workq s) qs \<and> distinct qs
         \<and> mset (map snd (printed s)) + image_mset (datum s) (to_print qs s) = mset (take (linked s) messages))"
proof -
  obtain qs where i: "inv qs s" using reachable_inv [OF assms] by blast
  have "e = NullPointer \<and> mpc s = MData 0" if "step s (Inl e)" for e
    using that
  proof cases
    case (step_main c)
    then show ?thesis using main_thread_inv [OF i] by blast
  next
    case (step_worker t)
    then show ?thesis using worker_inv [OF i] by blast
  qed
  moreover have "distinct qs" using i by (auto simp: inv_def intro: heap_inv_distinct)
  ultimately show ?thesis using i by (auto simp: inv_def lock_inv_def heap_inv_def count_inv_def)
qed

theorem workq_safe_witness:
  "\<exists>s. exec sample_schedule init = Some s
    \<and> (\<forall>e. step s (Inl e) \<longrightarrow> e = NullPointer \<and> mpc s = MData 0)
    \<and> (\<exists>qs. is_list (heap s) (workq s) qs \<and> distinct qs
         \<and> mset (map snd (printed s)) + image_mset (datum s) (to_print qs s) = mset (take (linked s) messages))"
proof -
  obtain s where s: "exec sample_schedule init = Some s" using sample_run by auto
  then have "reachable s" using exec_run [OF s] by (auto simp: reachable_def)
  from workq_safe [OF this] s show ?thesis by blast
qed

text \<open>C11. Every message is delivered: a run with \<open>k\<close> spurious wake-ups has at most \<open>1480 + 5 k\<close> other
  steps, whatever the scheduler does, can always be continued to its end, and at its end the
  process has exited because a thread could not be created, stands before the null pointer of a
  failed \<^verbatim>\<open>malloc\<close>, or has printed every message exactly once and freed all of them, with
  both workers waiting (no wake-up is lost) and \<^verbatim>\<open>main\<close> blocked in \<^verbatim>\<open>pthread_join\<close> for ever.\<close>

theorem workq_drains:
  assumes "run n k init t"
  shows "n \<le> 1480 + 5 * k
    \<and> (\<exists>m u. run m 0 t u \<and> (\<forall>u'. \<not> step u (Inr u')))
    \<and> ((\<forall>t'. \<not> step t (Inr t')) \<longrightarrow> mpc t = MExit \<or> mpc t = MData 0
         \<or> mpc t = MJoin \<and> wpc t 1 = PWaiting \<and> wpc t 2 = PWaiting \<and> workq t = 0
           \<and> heap t = Map.empty \<and> mset (map snd (printed t)) = mset messages)"
proof -
  have "rank [] init = 1480" by (simp add: rank_def init_def)
  with ranked.runs_rank [OF assms init_inv] obtain qs where i: "inv qs t" and "n \<le> 1480 + 5 * k" by auto
  then show ?thesis using ranked.runs_to_end [OF i] no_step [OF i] by blast
qed

theorem workq_drains_witness:
  "\<exists>t. exec sample_schedule init = Some t \<and> mset (map snd (printed t)) = mset messages
    \<and> heap t = Map.empty"
proof -
  obtain t where t: "exec sample_schedule init = Some t"
      and f: "mpc t = MJoin" "wpc t 1 = PWaiting" "wpc t 2 = PWaiting"
    using sample_run by auto
  have "\<not> step t (Inr t')" for t'
    using f by (auto simp: main_thread_def process_msg_def elim!: stepE)
  then show ?thesis using workq_drains [OF exec_run [OF t]] t f by auto
qed

text \<open>C36. The reference count: \<^verbatim>\<open>foo_alloc\<close> returns an object with one reference, or a null pointer with
  nothing left allocated when \<^verbatim>\<open>malloc\<close> or \<^verbatim>\<open>pthread_mutex_init\<close> fails; and any sequence of
  \<^verbatim>\<open>foo_hold\<close> and \<^verbatim>\<open>foo_rele\<close> calls is a counter: the object is freed exactly when the count reaches
  zero, every other object is left alone, and a call after that uses freed memory.\<close>

theorem foo_refines_counter:
  assumes "p \<noteq> 0" and "h p = None" and "length ops < 2 ^ 31 - 1"
  shows "foo_alloc p 0 h = (p, with_count p h 1)
    \<and> (err \<noteq> 0 \<longrightarrow> foo_alloc p err h = (0, h)) \<and> foo_alloc 0 err h = (0, h)
    \<and> foo_run p ops (with_count p h 1) = map_sum id (with_count p h) (count_run ops 1)"
  using foo_run_count [of p h 1 ops] assms
  by (auto simp: foo_alloc_def with_count_def fun_upd_idem)

theorem foo_refines_counter_witness:
  "foo_run 2 [Hold, Rele, Rele] (with_count 2 Map.empty 1) = Inr Map.empty
   \<and> foo_run 2 [Rele, Hold] (with_count 2 Map.empty 1) = Inl UseAfterFree"
  using foo_refines_counter [of 2 Map.empty "[Hold, Rele, Rele]"] foo_refines_counter [of 2 Map.empty "[Rele, Hold]"]
  by (simp add: with_count_def)

end
