(* ===== verification/Semaphore.thy ===== *)
theory Semaphore
  imports Sys Interleaving
begin

text \<open>
  \<^verbatim>\<open>net/semaphore/a.c\<close>: a parent and a child process that take turns with a POSIX semaphore in shared
  memory. Each process is a program counter; \<open>proc_step\<close> executes the statement at the counter
  and is \<^const>\<open>None\<close> while the process is blocked or has ended. Printing is modelled for the
  counting loops only. Using a semaphore that has been destroyed is the fault
  \<^const>\<open>UseAfterFree\<close> (its effect is undefined).
\<close>

section \<open>State\<close>

datatype proc = Child | Parent

datatype sem_pc =
    Post1       \<comment> \<open>line 33, child only\<close>
  | Wait        \<comment> \<open>lines 37 and 61\<close>
  | Count nat   \<comment> \<open>lines 40 to 44 and 63 to 66, with the value of \<open>count\<close>\<close>
  | Post2       \<comment> \<open>lines 46 and 68\<close>
  | Destroy     \<comment> \<open>line 71\<close>
  | Done

record sem =
  sem_value :: nat
  destroyed :: bool
  at :: "proc \<Rightarrow> sem_pc"
  out :: "(proc \<times> nat) list"

section \<open>Operations\<close>

definition go :: "proc \<Rightarrow> sem_pc \<Rightarrow> sem \<Rightarrow> sem" where
  "go p c s = s\<lparr>at := (at s)(p := c)\<rparr>"

definition sem_post :: "sem \<Rightarrow> sem result" where
  "sem_post s = (if destroyed s then Inl UseAfterFree else Inr (s\<lparr>sem_value := sem_value s + 1\<rparr>))"

definition sem_wait :: "sem \<Rightarrow> sem result option" where
  "sem_wait s =
     (if destroyed s then Some (Inl UseAfterFree)
      else if sem_value s = 0 then None
      else Some (Inr (s\<lparr>sem_value := sem_value s - 1\<rparr>)))"

definition sem_destroy :: "sem \<Rightarrow> sem result" where
  "sem_destroy s = (if destroyed s then Inl UseAfterFree else Inr (s\<lparr>destroyed := True\<rparr>))"

definition proc_step :: "proc \<Rightarrow> sem \<Rightarrow> sem result option" where
  "proc_step p s = (case at s p of
      Post1 \<Rightarrow> Some (rbind (sem_post s) (\<lambda>s. Inr (go p Wait s)))
    | Wait \<Rightarrow> map_option (\<lambda>r. rbind r (\<lambda>s. Inr (go p (Count 0) s))) (sem_wait s)
    | Count n \<Rightarrow>
        Some (Inr (if n < 10 then go p (Count (n + 1)) (s\<lparr>out := out s @ [(p, n)]\<rparr>) else go p Post2 s))
    | Post2 \<Rightarrow> Some (rbind (sem_post s) (\<lambda>s. Inr (go p Destroy s)))
    | Destroy \<Rightarrow> Some (rbind (sem_destroy s) (\<lambda>s. Inr (go p Done s)))
    | Done \<Rightarrow> None)"

text \<open>\<^verbatim>\<open>main\<close> up to the two branches: what it returns when there is no shared memory or no child, or the
  state in which parent and child start; \<open>pid\<close> is what \<^verbatim>\<open>fork\<close> returned.\<close>

definition sem_start :: sem where
  "sem_start = \<lparr>sem_value = 0, destroyed = False,
     at = (\<lambda>p. case p of Child \<Rightarrow> Post1 | Parent \<Rightarrow> Wait), out = []\<rparr>"

definition sem_main :: "bool \<Rightarrow> int \<Rightarrow> int + sem" where
  "sem_main mapped pid =
     (if \<not> mapped then Inl (- 1) else if pid \<ge> 0 then Inr sem_start else Inl 0)"

inductive sem_step :: "sem \<Rightarrow> sem result \<Rightarrow> bool" where
  sem_stepI: "proc_step p s = Some r \<Longrightarrow> sem_step s r"

inductive_cases sem_stepE: "sem_step s r"

abbreviation sem_runs :: "nat \<Rightarrow> sem \<Rightarrow> sem \<Rightarrow> bool" where
  "sem_runs n \<equiv> runs (\<lambda>s s'. sem_step s (Inr s')) (\<lambda>s s'. False) n 0"

section \<open>Invariant\<close>

text \<open>A process holds the semaphore from its \<^verbatim>\<open>sem_wait\<close> to its second \<^verbatim>\<open>sem_post\<close>.\<close>

fun holds :: "sem_pc \<Rightarrow> bool" where
  "holds (Count n) = True"
| "holds Post2 = True"
| "holds _ = False"

fun counted :: "sem_pc \<Rightarrow> nat" where
  "counted (Count n) = n"
| "counted Post1 = 0"
| "counted Wait = 0"
| "counted _ = 10"

fun pc_rank :: "sem_pc \<Rightarrow> nat" where
  "pc_rank Post1 = 15"
| "pc_rank Wait = 14"
| "pc_rank (Count n) = 13 - n"
| "pc_rank Post2 = 2"
| "pc_rank Destroy = 1"
| "pc_rank Done = 0"

definition sem_rank :: "sem \<Rightarrow> nat" where
  "sem_rank s = pc_rank (at s Child) + pc_rank (at s Parent)"

definition lines_of :: "proc \<Rightarrow> sem \<Rightarrow> (proc \<times> nat) list" where
  "lines_of p s = map (Pair p) [0..<counted (at s p)]"

text \<open>The lines of one process come before those of the other.\<close>

definition in_turn :: "proc \<Rightarrow> proc \<Rightarrow> sem \<Rightarrow> bool" where
  "in_turn p q s \<longleftrightarrow> out s = lines_of p s @ lines_of q s
     \<and> (holds (at s q) \<or> 0 < counted (at s q) \<longrightarrow> at s p = Destroy \<or> at s p = Done)"

definition turn_inv :: "sem \<Rightarrow> bool" where
  "turn_inv s \<longleftrightarrow> in_turn Child Parent s \<or> in_turn Parent Child s"

text \<open>The value and the processes that hold the semaphore add up to one, once the child has posted.\<close>

definition value_inv :: "sem \<Rightarrow> bool" where
  "value_inv s \<longleftrightarrow>
     (if at s Child = Post1 then sem_value s = 0 \<and> at s Parent = Wait
      else sem_value s + of_bool (holds (at s Child)) + of_bool (holds (at s Parent)) = 1)
     \<and> at s Parent \<noteq> Post1"

text \<open>The process that ends first destroys the semaphore, and the other one never ends.\<close>

definition end_inv :: "sem \<Rightarrow> bool" where
  "end_inv s \<longleftrightarrow> (destroyed s \<longleftrightarrow> at s Child = Done \<or> at s Parent = Done)
     \<and> \<not> (at s Child = Done \<and> at s Parent = Done)"

definition sem_inv :: "sem \<Rightarrow> bool" where
  "sem_inv s \<longleftrightarrow> value_inv s \<and> end_inv s \<and> turn_inv s \<and> (\<forall>p n. at s p = Count n \<longrightarrow> n \<le> 10)"

text \<open>A schedule names the processes that run.\<close>

fun sem_exec :: "proc list \<Rightarrow> sem \<Rightarrow> sem option" where
  "sem_exec [] s = Some s"
| "sem_exec (p # ps) s = (case proc_step p s of Some (Inr s') \<Rightarrow> sem_exec ps s' | _ \<Rightarrow> None)"

definition sem_schedule :: "proc list" where
  "sem_schedule = replicate 14 Child @ replicate 13 Parent @ [Child]"

section \<open>Lemmas\<close>

lemma go_simps [simp]:
  "sem_value (go p c s) = sem_value s" "destroyed (go p c s) = destroyed s" "out (go p c s) = out s"
  "at (go p c s) q = (if q = p then c else at s q)"
  by (simp_all add: go_def)

lemma sem_start_inv: "sem_inv sem_start"
  by (simp add: sem_inv_def value_inv_def end_inv_def turn_inv_def sem_start_def in_turn_def lines_of_def
      split: proc.splits)

lemma proc_step_InrE:
  assumes "proc_step p s = Some (Inr s')"
  obtains (Post1) "at s p = Post1" "\<not> destroyed s" "s' = go p Wait (s\<lparr>sem_value := sem_value s + 1\<rparr>)"
  | (Wait) "at s p = Wait" "\<not> destroyed s" "0 < sem_value s"
      "s' = go p (Count 0) (s\<lparr>sem_value := sem_value s - 1\<rparr>)"
  | (Count) n where "at s p = Count n" "n < 10" "s' = go p (Count (Suc n)) (s\<lparr>out := out s @ [(p, n)]\<rparr>)"
  | (Last) n where "at s p = Count n" "\<not> n < 10" "s' = go p Post2 s"
  | (Post2) "at s p = Post2" "\<not> destroyed s" "s' = go p Destroy (s\<lparr>sem_value := sem_value s + 1\<rparr>)"
  | (Destroy) "at s p = Destroy" "\<not> destroyed s" "s' = go p Done (s\<lparr>destroyed := True\<rparr>)"
  using assms
  by (cases "at s p") (auto simp: proc_step_def sem_post_def sem_wait_def sem_destroy_def split: if_splits)

lemma value_inv_step: "value_inv s \<Longrightarrow> proc_step p s = Some (Inr s') \<Longrightarrow> value_inv s'"
  by (cases p) (erule proc_step_InrE; simp add: value_inv_def of_bool_def split: if_splits)+

lemma end_inv_step: "end_inv s \<Longrightarrow> proc_step p s = Some (Inr s') \<Longrightarrow> end_inv s'"
  by (cases p) (erule proc_step_InrE; simp add: end_inv_def; auto)+

lemma bound_step: "\<forall>p n. at s p = Count n \<longrightarrow> n \<le> 10 \<Longrightarrow> proc_step q s = Some (Inr s') \<Longrightarrow>
  \<forall>p n. at s' p = Count n \<longrightarrow> n \<le> 10"
  by (erule proc_step_InrE) auto

lemma rank_step:
  "\<forall>p n. at s p = Count n \<longrightarrow> n \<le> 10 \<Longrightarrow> proc_step p s = Some (Inr s') \<Longrightarrow> sem_rank s' < sem_rank s"
  by (cases p) (erule proc_step_InrE; simp add: sem_rank_def; force)+

text \<open>The turns: a process that is counting is the last that was let in.\<close>

lemma in_turn_step:
  assumes i: "in_turn p q s" "p \<noteq> q" "value_inv s" "\<forall>p n. at s p = Count n \<longrightarrow> n \<le> 10"
    and s: "proc_step r s = Some (Inr s')" and r: "r = p \<or> r = q"
  shows "in_turn p q s' \<or> in_turn q p s'"
  using s
proof (cases rule: proc_step_InrE)
  case Wait
  have n: "\<not> holds (at s p)" using Wait i(2,3) r
    by (cases p; cases q) (auto simp: value_inv_def of_bool_def split: if_splits)
  consider "r = p" | "r = q" "at s p = Destroy \<or> at s p = Done" | "r = q" "counted (at s p) = 0"
    using r n by (cases "at s p") auto
  then show ?thesis by cases (use Wait i n in \<open>auto simp: in_turn_def lines_of_def\<close>)
next
  case (Last n)
  then have "n = 10" using i(4) by force
  with Last i r show ?thesis by (auto simp: in_turn_def lines_of_def)
qed (use i r in \<open>auto simp: in_turn_def lines_of_def\<close>)

lemma sem_inv_step:
  assumes i: "sem_inv s" and s: "sem_step s (Inr s')"
  shows "sem_inv s' \<and> sem_rank s' < sem_rank s"
  using s
proof cases
  case (sem_stepI p)
  have "turn_inv s'"
    using i sem_stepI in_turn_step [of Child Parent s p s'] in_turn_step [of Parent Child s p s']
    by (cases p) (auto simp: sem_inv_def turn_inv_def)
  then show ?thesis
    using i sem_stepI value_inv_step [of s p s'] end_inv_step [of s p s'] bound_step [of s p s'] rank_step [of s p s']
    by (simp add: sem_inv_def)
qed

interpretation sem_ranked: ranked_system "\<lambda>_ :: unit. sem_inv" "\<lambda>_. sem_rank"
    "\<lambda>s s'. sem_step s (Inr s')" "\<lambda>s s'. False" 0
  by unfold_locales (simp_all add: sem_inv_step)

text \<open>When nothing else is left, what remains is the use of the destroyed semaphore.\<close>

lemma enabled:
  assumes i: "sem_inv s" and n: "\<And>s'. \<not> sem_step s (Inr s')"
  shows "sem_step s (Inl UseAfterFree)"
proof -
  have no: "\<forall>s'. proc_step p s \<noteq> Some (Inr s')" for p using n sem_stepI by blast
  have c: "\<forall>n. at s p \<noteq> Count n" for p using no [of p] by (auto simp: proc_step_def)
  have "destroyed s"
  proof (rule ccontr)
    assume d: "\<not> destroyed s"
    then have "at s p = Wait \<and> sem_value s = 0" for p
      using no [of p] c [of p] i
      by (cases "at s p") (auto simp: proc_step_def sem_post_def sem_wait_def sem_destroy_def sem_inv_def end_inv_def
          split: if_splits, (cases p; simp)+)
    then show False using i by (simp add: sem_inv_def value_inv_def)
  qed
  moreover obtain p where "at s p \<noteq> Done" using i by (auto simp: sem_inv_def end_inv_def)
  ultimately have "proc_step p s = Some (Inl UseAfterFree)"
    using c [of p] by (cases "at s p") (simp_all add: proc_step_def sem_post_def sem_wait_def sem_destroy_def)
  then show ?thesis by (rule sem_stepI)
qed

lemma sem_exec_runs: "sem_exec ps s = Some t \<Longrightarrow> sem_runs (length ps) s t"
  by (induction ps s rule: sem_exec.induct)
    (auto split: option.splits sum.splits intro: runs_refl runs_step sem_stepI)

lemma sem_schedule_end:
  "map_option (\<lambda>s. (out s, at s Child, at s Parent, destroyed s)) (sem_exec sem_schedule sem_start)
     = Some (map (Pair Child) [0..<10] @ map (Pair Parent) [0..<10], Done, Destroy, True)"
  by code_simp

section \<open>Properties\<close>

text \<open>C37. The semaphore lets one process count at a time: in every state that parent and child can reach,
  at most one of them is between \<^verbatim>\<open>sem_wait\<close> and its second \<^verbatim>\<open>sem_post\<close>, and the lines of the one come
  before those of the other. There is no deadlock, and after at most 29 steps the program is at
  its end; but each process destroys the semaphore when it is done, whichever comes
  second uses it after that, so that no run ends without undefined behaviour.\<close>

theorem turns_and_destroy:
  assumes "sem_main True pid = Inr s0" and "sem_runs n s0 s"
  shows "\<not> (holds (at s Child) \<and> holds (at s Parent))
    \<and> (in_turn Child Parent s \<or> in_turn Parent Child s)
    \<and> n \<le> 29 \<and> \<not> (at s Child = Done \<and> at s Parent = Done)
    \<and> ((\<forall>s'. \<not> sem_step s (Inr s')) \<longrightarrow> sem_step s (Inl UseAfterFree))"
proof -
  have s0: "s0 = sem_start" using assms(1) by (simp add: sem_main_def split: if_splits)
  then have "sem_rank s0 = 29" by (simp add: sem_rank_def sem_start_def)
  with sem_ranked.runs_rank [OF assms(2)] s0 sem_start_inv
  have i: "sem_inv s" "n \<le> 29" by fastforce+
  then show ?thesis using enabled [of s]
    by (auto simp: sem_inv_def value_inv_def end_inv_def turn_inv_def split: if_splits)
qed

theorem turns_and_destroy_witness:
  "\<exists>s. sem_exec sem_schedule sem_start = Some s \<and> sem_step s (Inl UseAfterFree)
    \<and> out s = map (Pair Child) [0..<10] @ map (Pair Parent) [0..<10]"
proof -
  obtain s where s: "sem_exec sem_schedule sem_start = Some s"
      and f: "out s = map (Pair Child) [0..<10] @ map (Pair Parent) [0..<10]"
        "at s Child = Done" "at s Parent = Destroy" "destroyed s"
    using sem_schedule_end by auto
  have "proc_step p s \<noteq> Some (Inr s')" for p s'
    using f by (cases p) (simp_all add: proc_step_def sem_destroy_def)
  then have "\<not> sem_step s (Inr s')" for s' by (auto elim: sem_stepE)
  moreover have "sem_main True 1 = Inr sem_start" by (simp add: sem_main_def)
  ultimately show ?thesis using turns_and_destroy [OF _ sem_exec_runs [OF s]] s f by blast
qed

end
