(* ===== verification/SysvSem.thy ===== *)
theory SysvSem
  imports Sys Interleaving
begin

text \<open>
  \<^verbatim>\<open>net/semaphores/main.c\<close>: any number of processes that share a System V semaphore set with one
  semaphore, found by its key. The first one creates and initialises the set; the others wait
  until \<^verbatim>\<open>sem_otime\<close> shows that it has been used, for \<^verbatim>\<open>max_tries\<close> attempts, and initialise it
  themselves if it has not. Each process takes the semaphore, works, gives it back and removes
  the set.

  Each process is a program counter with the identifier \<^verbatim>\<open>semid\<close> it works with; \<open>process\<close> executes the
  statement at the counter and is \<^const>\<open>None\<close> while the process is blocked in \<^verbatim>\<open>semop\<close> or has
  ended. The calls behave as documented: an identifier is never used again after its set was
  removed, a new set has the value 0 and no operation time, and a call on a removed set
  fails. A call that only prints information is not modelled. A process that ends normally has
  given back what it took, so that \<^verbatim>\<open>SEM_UNDO\<close> has nothing to undo.
\<close>

section \<open>State\<close>

record sem_set =
  semval :: nat
  otime :: bool

datatype sysv_pc =
    Get             \<comment> \<open>line 19\<close>
  | Get_existing    \<comment> \<open>line 29\<close>
  | Poll int nat    \<comment> \<open>lines 32 to 41, with the value of \<open>i\<close>\<close>
  | Late_init int   \<comment> \<open>lines 47 and 48\<close>
  | First_init int  \<comment> \<open>lines 55 and 56\<close>
  | Ask int         \<comment> \<open>line 85\<close>
  | Work int        \<comment> \<open>line 88\<close>
  | Give int        \<comment> \<open>line 96\<close>
  | Remove int      \<comment> \<open>line 100\<close>
  | Ended

record sysv =
  sets :: "int \<rightharpoonup> sem_set"
  by_key :: "int option"
  next_id :: int
  pcs :: "nat \<Rightarrow> sysv_pc"

definition max_tries :: nat where
  "max_tries = 3"

definition sysv_init :: sysv where
  "sysv_init = \<lparr>sets = Map.empty, by_key = None, next_id = 0, pcs = \<lambda>p. Get\<rparr>"

section \<open>Calls\<close>

definition create :: "sysv \<Rightarrow> int \<times> sysv" where
  "create s = (next_id s, s\<lparr>sets := (sets s)(next_id s \<mapsto> \<lparr>semval = 0, otime = False\<rparr>),
     by_key := Some (next_id s), next_id := next_id s + 1\<rparr>)"

text \<open>\<^verbatim>\<open>semget\<close> with \<^verbatim>\<open>IPC_CREAT | IPC_EXCL\<close> and with \<^verbatim>\<open>IPC_CREAT\<close>; \<open>fails\<close> is an error other than
  \<^verbatim>\<open>EEXIST\<close>, for which the identifier is -1.\<close>

definition semget_excl :: "bool \<Rightarrow> sysv \<Rightarrow> (int + int) \<times> sysv" where
  "semget_excl fails s =
     (if fails then (Inl ENOMEM, s) else case by_key s of
        None \<Rightarrow> apfst Inr (create s)
      | Some i \<Rightarrow> (Inl EEXIST, s))"

definition semget :: "bool \<Rightarrow> sysv \<Rightarrow> int \<times> sysv" where
  "semget fails s =
     (if fails then (- 1, s) else case by_key s of None \<Rightarrow> create s | Some i \<Rightarrow> (i, s))"

definition setval :: "int \<Rightarrow> nat \<Rightarrow> sysv \<Rightarrow> sysv" where
  "setval i v s = (case sets s i of None \<Rightarrow> s | Some e \<Rightarrow> s\<lparr>sets := (sets s)(i \<mapsto> e\<lparr>semval := v\<rparr>)\<rparr>)"

text \<open>\<^verbatim>\<open>semop\<close> with -1: it fails on a removed set (and the caller goes on), and blocks at 0.\<close>

definition semop_take :: "int \<Rightarrow> sysv \<Rightarrow> sysv option" where
  "semop_take i s = (case sets s i of
      None \<Rightarrow> Some s
    | Some e \<Rightarrow>
        if semval e = 0 then None
        else Some (s\<lparr>sets := (sets s)(i \<mapsto> \<lparr>semval = semval e - 1, otime = True\<rparr>)\<rparr>))"

definition semop_give :: "int \<Rightarrow> sysv \<Rightarrow> sysv" where
  "semop_give i s = (case sets s i of
      None \<Rightarrow> s
    | Some e \<Rightarrow> s\<lparr>sets := (sets s)(i \<mapsto> \<lparr>semval = semval e + 1, otime = True\<rparr>)\<rparr>)"

definition rmid :: "int \<Rightarrow> sysv \<Rightarrow> sysv" where
  "rmid i s = s\<lparr>sets := (sets s)(i := None), by_key := (if by_key s = Some i then None else by_key s)\<rparr>"

section \<open>A process\<close>

definition at_pc :: "nat \<Rightarrow> sysv_pc \<Rightarrow> sysv \<Rightarrow> sysv" where
  "at_pc p c s = s\<lparr>pcs := (pcs s)(p := c)\<rparr>"

text \<open>Up to line 58: finding or creating the set and initialising it.\<close>

definition acquire_set :: "bool \<Rightarrow> nat \<Rightarrow> sysv \<Rightarrow> sysv option" where
  "acquire_set fails p s = (case pcs s p of
      Get \<Rightarrow> (case semget_excl fails s of
          (Inr i, s) \<Rightarrow> Some (at_pc p (First_init i) s)
        | (Inl e, s) \<Rightarrow> Some (at_pc p (if e = EEXIST then Get_existing else Ended) s))
    | Get_existing \<Rightarrow> (case semget fails s of (i, s) \<Rightarrow> Some (at_pc p (Poll i 0) s))
    | Poll i n \<Rightarrow>
        if n < max_tries then (case sets s i of
            None \<Rightarrow> Some (at_pc p (Late_init i) s)
          | Some e \<Rightarrow> Some (at_pc p (if otime e then Ask i else Poll i (n + 1)) s))
        else Some (at_pc p (Late_init i) s)
    | Late_init i \<Rightarrow> Some (at_pc p (Ask i) (setval i 1 s))
    | First_init i \<Rightarrow> Some (at_pc p (Ask i) (setval i 1 s))
    | _ \<Rightarrow> None)"

text \<open>From line 80: taking the semaphore, giving it back and removing the set.\<close>

definition use_set :: "nat \<Rightarrow> sysv \<Rightarrow> sysv option" where
  "use_set p s = (case pcs s p of
      Ask i \<Rightarrow> map_option (at_pc p (Work i)) (semop_take i s)
    | Work i \<Rightarrow> Some (at_pc p (Give i) s)
    | Give i \<Rightarrow> Some (at_pc p (Remove i) (semop_give i s))
    | Remove i \<Rightarrow> Some (at_pc p Ended (rmid i s))
    | _ \<Rightarrow> None)"

fun has_set :: "sysv_pc \<Rightarrow> bool" where
  "has_set (Ask i) = True"
| "has_set (Work i) = True"
| "has_set (Give i) = True"
| "has_set (Remove i) = True"
| "has_set _ = False"

definition process :: "bool \<Rightarrow> nat \<Rightarrow> sysv \<Rightarrow> sysv option" where
  "process fails p s = (if has_set (pcs s p) then use_set p s else acquire_set fails p s)"

inductive sysv_step :: "sysv \<Rightarrow> sysv \<Rightarrow> bool" where
  sysv_stepI: "process fails p s = Some s' \<Longrightarrow> sysv_step s s'"

text \<open>The steps of an execution in which no process initialises late and none removes the set.\<close>

fun late_or_remove :: "sysv_pc \<Rightarrow> bool" where
  "late_or_remove (Late_init i) = True"
| "late_or_remove (Remove i) = True"
| "late_or_remove _ = False"

inductive timely :: "sysv \<Rightarrow> sysv \<Rightarrow> bool" where
  timelyI: "process fails p s = Some s' \<Longrightarrow> \<not> late_or_remove (pcs s p) \<Longrightarrow> timely s s'"

inductive_cases timelyE: "timely s s'"

abbreviation sysv_runs :: "nat \<Rightarrow> sysv \<Rightarrow> sysv \<Rightarrow> bool" where
  "sysv_runs n \<equiv> runs sysv_step (\<lambda>s s'. False) n 0"

text \<open>A schedule names the processes that run.\<close>

fun sysv_exec :: "nat list \<Rightarrow> sysv \<Rightarrow> sysv option" where
  "sysv_exec [] s = Some s"
| "sysv_exec (p # ps) s = Option.bind (process False p s) (sysv_exec ps)"

fun timely_exec :: "nat list \<Rightarrow> sysv \<Rightarrow> sysv option" where
  "timely_exec [] s = Some s"
| "timely_exec (p # ps) s =
     (if late_or_remove (pcs s p) then None else Option.bind (process False p s) (timely_exec ps))"

section \<open>Invariant\<close>

fun holding :: "sysv_pc \<Rightarrow> bool" where
  "holding (Work i) = True"
| "holding (Give i) = True"
| "holding _ = False"

text \<open>Before it has taken part in the protocol.\<close>

fun early :: "sysv_pc \<Rightarrow> bool" where
  "early Get = True"
| "early Get_existing = True"
| "early (Poll i n) = True"
| "early (Late_init i) = True"
| "early Ended = True"
| "early _ = False"

fun id_ok :: "int \<Rightarrow> sysv_pc \<Rightarrow> bool" where
  "id_ok i (Poll j n) \<longleftrightarrow> j = i \<or> j = - 1"
| "id_ok i (Late_init j) \<longleftrightarrow> j = i \<or> j = - 1"
| "id_ok i (First_init j) \<longleftrightarrow> j = i"
| "id_ok i (Ask j) \<longleftrightarrow> j = i"
| "id_ok i (Work j) \<longleftrightarrow> j = i"
| "id_ok i (Give j) \<longleftrightarrow> j = i"
| "id_ok i (Remove j) \<longleftrightarrow> j = i"
| "id_ok i _ \<longleftrightarrow> True"

definition holders :: "sysv \<Rightarrow> nat set" where
  "holders s = {p. holding (pcs s p)}"

text \<open>Until the first process has set the value, all others are early; then the value and the
  number of holders add up to one.\<close>

definition starting :: "int \<Rightarrow> sem_set \<Rightarrow> sysv \<Rightarrow> bool" where
  "starting i e s \<longleftrightarrow> e = \<lparr>semval = 0, otime = False\<rparr>
     \<and> (\<exists>c. pcs s c = First_init i \<and> (\<forall>p. p \<noteq> c \<longrightarrow> early (pcs s p)))"

definition working :: "sem_set \<Rightarrow> sysv \<Rightarrow> bool" where
  "working e s \<longleftrightarrow> (\<forall>p i. pcs s p \<noteq> First_init i)
     \<and> (semval e = 1 \<and> holders s = {} \<or> semval e = 0 \<and> (\<exists>h. holders s = {h}))"

definition sysv_inv :: "sysv \<Rightarrow> bool" where
  "sysv_inv s \<longleftrightarrow> 0 \<le> next_id s \<and> (case by_key s of
      None \<Rightarrow> sets s = Map.empty \<and> (\<forall>p. pcs s p = Get \<or> pcs s p = Ended)
    | Some i \<Rightarrow> 0 \<le> i \<and> (\<exists>e. sets s = [i \<mapsto> e] \<and> (\<forall>p. id_ok i (pcs s p)) \<and> (starting i e s \<or> working e s)))"

section \<open>Lemmas\<close>

lemmas process_defs = process_def acquire_set_def use_set_def

lemma at_pc_simps [simp]:
  "sets (at_pc p c s) = sets s" "by_key (at_pc p c s) = by_key s" "next_id (at_pc p c s) = next_id s"
  "pcs (at_pc p c s) q = (if q = p then c else pcs s q)"
  by (simp_all add: at_pc_def)

lemma sysv_init_inv: "sysv_inv sysv_init"
  by (simp add: sysv_inv_def sysv_init_def)

lemma holders_at_pc: "holders (at_pc p c s) = (if holding c then insert p (holders s) else holders s - {p})"
  by (auto simp: holders_def)

lemma early_idle: "early c \<Longrightarrow> \<not> holding c \<and> c \<noteq> First_init i"
  by (cases c) auto

lemma starting_no_holder:
  assumes "starting i e s"
  shows "\<not> holding (pcs s p)"
proof -
  obtain d where "pcs s d = First_init i" "\<forall>p. p \<noteq> d \<longrightarrow> early (pcs s p)"
    using assms by (auto simp: starting_def)
  then show ?thesis using early_idle by (cases "p = d") auto
qed

lemma starting_pc: "starting i e s \<Longrightarrow> early (pcs s p) \<or> pcs s p = First_init i"
  unfolding starting_def by metis

text \<open>Without a set.\<close>

lemma timely_none:
  assumes i: "sysv_inv s" "by_key s = None" and s: "process fails p s = Some s'"
  shows "sysv_inv s'"
proof -
  have g: "pcs s p = Get" using i s by (cases "pcs s p = Get") (auto simp: sysv_inv_def process_defs)
  show ?thesis
  proof (cases fails)
    case True
    with i s g show ?thesis by (auto simp: sysv_inv_def process_defs semget_excl_def)
  next
    case False
    with i s g have "s' = at_pc p (First_init (next_id s)) (snd (create s))"
      by (simp add: process_defs semget_excl_def create_def)
    moreover have "early (pcs s q)" for q using i by (cases "pcs s q = Get") (auto simp: sysv_inv_def)
    moreover have "id_ok j (pcs s q)" for j q using i by (cases "pcs s q = Get") (auto simp: sysv_inv_def)
    ultimately show ?thesis using i
      by (auto simp: sysv_inv_def create_def starting_def intro!: exI [of _ p])
  qed
qed

text \<open>Steps that leave the set and the role of the process alone.\<close>

lemma move_starting:
  assumes "starting i e s" "early (pcs s p)" "early c"
  shows "starting i e (at_pc p c s)"
proof -
  obtain d where d: "pcs s d = First_init i" "\<forall>p. p \<noteq> d \<longrightarrow> early (pcs s p)"
    using assms(1) by (auto simp: starting_def)
  then have "d \<noteq> p" using assms(2) by auto
  with d assms show ?thesis by (auto simp: starting_def)
qed

lemma move_working:
  assumes "working e s" "holding c = holding (pcs s p)" "\<forall>i. c \<noteq> First_init i"
  shows "working e (at_pc p c s)"
proof -
  have "holders (at_pc p c s) = holders s" using assms(2) by (auto simp: holders_at_pc) (auto simp: holders_def)
  with assms show ?thesis by (simp add: working_def)
qed

text \<open>With a set: the invariant over the id \<open>i\<close> and the set \<open>e\<close>.\<close>

definition one_set :: "int \<Rightarrow> sem_set \<Rightarrow> sysv \<Rightarrow> bool" where
  "one_set i e s \<longleftrightarrow> 0 \<le> next_id s \<and> by_key s = Some i \<and> 0 \<le> i \<and> sets s = [i \<mapsto> e]
     \<and> (\<forall>p. id_ok i (pcs s p)) \<and> (starting i e s \<or> working e s)"

lemma one_setD:
  assumes "one_set i e s"
  shows "0 \<le> next_id s" "by_key s = Some i" "0 \<le> i" "sets s = [i \<mapsto> e]" "\<forall>p. id_ok i (pcs s p)"
    "starting i e s \<or> working e s"
  using assms unfolding one_set_def by blast+

lemma sysv_inv_set: "one_set i e s \<Longrightarrow> sysv_inv s"
  by (auto simp: one_set_def sysv_inv_def)

lemma one_set_move:
  assumes "one_set i e s" and "id_ok i c" "holding c = holding (pcs s p)" "\<forall>i. c \<noteq> First_init i"
    and "starting i e s \<longrightarrow> early (pcs s p) \<and> early c"
  shows "sysv_inv (at_pc p c s)"
  using one_setD [OF assms(1)] assms(2-) move_starting [of i e s p c] move_working [of e s c p]
  by (auto simp: sysv_inv_def)

lemma one_set_upd:
  assumes "one_set i e s" and "id_ok i c" "working e' (at_pc p c (s\<lparr>sets := [i \<mapsto> e']\<rparr>))"
  shows "sysv_inv (at_pc p c (s\<lparr>sets := [i \<mapsto> e']\<rparr>))"
  using one_setD [OF assms(1)] assms(2-) by (auto simp: sysv_inv_def)

text \<open>Up to its first use of the semaphore a process looks for the set and waits until it is initialised.\<close>

lemma timely_prepares:
  assumes i: "one_set i e s" and s: "process fails p s = Some s'" "\<not> late_or_remove (pcs s p)"
    and at: "\<not> (\<exists>j. pcs s p \<in> {Ask j, Work j, Give j})"
  shows "sysv_inv s'"
proof -
  note set = i and i = one_setD [OF i]
  have id: "id_ok i (pcs s p)" using i by simp
  note move = one_set_move [OF set, where p = p]
  show ?thesis
  proof (cases "pcs s p")
    case Get
    then have "s' = at_pc p (if fails then Ended else Get_existing) s"
      using s i by (simp add: process_defs semget_excl_def split: if_splits)
    with Get show ?thesis using move [of Ended] move [of Get_existing] by simp
  next
    case Get_existing
    then have "s' = at_pc p (Poll (if fails then - 1 else i) 0) s"
      using s i by (simp add: process_defs semget_def split: if_splits)
    with Get_existing show ?thesis using move [of "Poll i 0"] move [of "Poll (- 1) 0"] by simp
  next
    case (Poll j n)
    with id have j: "j = i \<or> j = - 1" by simp
    consider "s' = at_pc p (Late_init j) s" | "s' = at_pc p (Poll j (n + 1)) s"
      | "s' = at_pc p (Ask i) s" "otime e"
      using s Poll i j by (auto simp: process_defs split: if_splits option.splits)
    then show ?thesis
    proof cases
      case 3
      then have "\<not> starting i e s" by (auto simp: starting_def)
      with 3 Poll show ?thesis using move [of "Ask i"] by simp
    qed (use Poll j move [of "Late_init j"] move [of "Poll j (n + 1)"] in simp_all)
  next
    case (First_init j)
    then have st: "starting i e s" using i by (auto simp: working_def)
    then obtain d where d: "pcs s d = First_init i" "\<forall>p. p \<noteq> d \<longrightarrow> early (pcs s p)" by (auto simp: starting_def)
    then have "d = p" using First_init by (metis early.simps(6))
    then have "holders s = {}" "\<forall>q j. q \<noteq> p \<longrightarrow> pcs s q \<noteq> First_init j"
      using d starting_no_holder [OF st] early_idle by (auto simp: holders_def)
    moreover have "s' = at_pc p (Ask i) (s\<lparr>sets := [i \<mapsto> e\<lparr>semval := 1\<rparr>]\<rparr>)"
      using s i First_init id by (simp add: process_defs setval_def)
    ultimately show ?thesis
      using one_set_upd [OF set, of "Ask i" "e\<lparr>semval := 1\<rparr>" p] by (auto simp: working_def holders_at_pc) (auto simp: holders_def)
  qed (use s at in \<open>simp_all add: process_defs\<close>)
qed

lemma timely_works:
  assumes i: "one_set i e s" and s: "process fails p s = Some s'" "\<not> late_or_remove (pcs s p)"
    and at: "pcs s p \<in> {Ask j, Work j, Give j}"
  shows "sysv_inv s'"
proof -
  note one = i and i = one_setD [OF i]
  have id: "id_ok i (pcs s p)" using i by simp
  note move = one_set_move [OF one, where p = p] and set = one_set_upd [OF one, where p = p]
  from at consider (Ask) "pcs s p = Ask j" | (Work) "pcs s p = Work j" | (Give) "pcs s p = Give j" by blast
  then show ?thesis
  proof cases
    case Ask
    then have w: "working e s" using i starting_pc [of i e s p] by auto
    have "semval e \<noteq> 0" "s' = at_pc p (Work i) (s\<lparr>sets := [i \<mapsto> \<lparr>semval = semval e - 1, otime = True\<rparr>]\<rparr>)"
      using s i Ask id by (auto simp: process_defs semop_take_def split: if_splits)
    then show ?thesis
      using set [of "Work i" "\<lparr>semval = semval e - 1, otime = True\<rparr>"] w
      by (auto simp: working_def holders_at_pc) (auto simp: holders_def)
  next
    case Work
    then have "\<not> starting i e s" using starting_pc [of i e s p] by auto
    with Work id s show ?thesis using move [of "Give i"] by (simp add: process_defs)
  next
    case Give
    then have w: "working e s" using i starting_pc [of i e s p] by auto
    have h: "p \<in> holders s" using Give by (simp add: holders_def)
    have "s' = at_pc p (Remove i) (s\<lparr>sets := [i \<mapsto> \<lparr>semval = semval e + 1, otime = True\<rparr>]\<rparr>)"
      using s i Give id by (simp add: process_defs semop_give_def)
    then show ?thesis
      using set [of "Remove i" "\<lparr>semval = semval e + 1, otime = True\<rparr>"] w h
      by (auto simp: working_def holders_at_pc) (auto simp: holders_def)
  qed
qed

lemma timely_some:
  assumes i: "one_set i e s" and s: "process fails p s = Some s'" "\<not> late_or_remove (pcs s p)"
  shows "sysv_inv s'"
  using timely_prepares [OF i s] timely_works [OF i s] by blast

lemma timely_inv:
  assumes i: "sysv_inv s" and s: "timely s s'"
  shows "sysv_inv s'"
  using s
proof cases
  case (timelyI fails p)
  show ?thesis
  proof (cases "by_key s")
    case None
    then show ?thesis using timely_none [OF i _ timelyI(1)] by simp
  next
    case (Some k)
    then show ?thesis using i timely_some [OF _ timelyI] by (auto simp: sysv_inv_def one_set_def)
  qed
qed

text \<open>The step of a process that is not blocked.\<close>

lemma sysv_runs_Cons: "process fails p s = Some s' \<Longrightarrow> sysv_runs n s' t \<Longrightarrow> sysv_runs (Suc n) s t"
  by (blast intro: runs_step sysv_stepI)

lemma sysv_exec_runs: "sysv_exec ps s = Some t \<Longrightarrow> sysv_runs (length ps) s t"
  by (induction ps s rule: sysv_exec.induct) (auto simp: bind_eq_Some_conv intro: runs_refl sysv_runs_Cons)

lemma timely_exec_runs: "timely_exec ps s = Some t \<Longrightarrow> runs timely (\<lambda>s s'. False) (length ps) 0 s t"
  by (induction ps s rule: timely_exec.induct)
    (auto simp: bind_eq_Some_conv split: if_splits intro: runs_refl runs_step timelyI)

text \<open>A process goes on after a failed \<^verbatim>\<open>semop\<close>.\<close>

lemma removed_breaks:
  assumes "pcs s p = Work i" "pcs s q = Ask i" "pcs s r = Remove i"
  shows "\<exists>n t. sysv_runs n s t \<and> pcs t p = Work i \<and> pcs t q = Work i"
proof -
  have d: "p \<noteq> q" "p \<noteq> r" "q \<noteq> r" using assms by auto
  define s1 where "s1 = at_pc r Ended (rmid i s)"
  have "process False r s = Some s1" using assms by (simp add: process_defs s1_def)
  moreover have "process False q s1 = Some (at_pc q (Work i) s1)"
    using assms d by (simp add: process_defs s1_def semop_take_def rmid_def)
  ultimately have "sysv_runs (Suc (Suc 0)) s (at_pc q (Work i) s1)"
    by (blast intro: sysv_runs_Cons runs_refl)
  moreover have "pcs (at_pc q (Work i) s1) p = Work i" using assms d by (simp add: s1_def rmid_def)
  ultimately show ?thesis by (metis at_pc_simps(4))
qed

lemma late_init_breaks:
  assumes "pcs s p = First_init i" "pcs s q = Late_init i" "sets s i = Some e"
  shows "\<exists>n t. sysv_runs n s t \<and> pcs t p = Work i \<and> pcs t q = Work i"
proof -
  have d: "p \<noteq> q" using assms by auto
  define s1 where "s1 = at_pc q (Ask i) (setval i 1 s)"
  define s2 where "s2 = at_pc q (Work i) (s1\<lparr>sets := (sets s1)(i \<mapsto> \<lparr>semval = 0, otime = True\<rparr>)\<rparr>)"
  define s3 where "s3 = at_pc p (Ask i) (setval i 1 s2)"
  define s4 where "s4 = at_pc p (Work i) (s3\<lparr>sets := (sets s3)(i \<mapsto> \<lparr>semval = 0, otime = True\<rparr>)\<rparr>)"
  note defs = process_defs semop_take_def setval_def s1_def s2_def s3_def s4_def at_pc_def
  have "process False q s = Some s1" using assms by (simp add: process_defs s1_def)
  moreover have "process False q s1 = Some s2" using assms by (simp add: defs)
  moreover have "process False p s2 = Some s3" using assms d by (simp add: defs)
  moreover have "process False p s3 = Some s4" using assms d by (simp add: defs)
  ultimately have "sysv_runs (Suc (Suc (Suc (Suc 0)))) s s4" by (blast intro: sysv_runs_Cons runs_refl)
  moreover have "pcs s4 p = Work i" "pcs s4 q = Work i" using assms d by (simp_all add: defs)
  ultimately show ?thesis by blast
qed

section \<open>Properties\<close>



text \<open>C38. What the restrictions are for. A process whose \<^verbatim>\<open>semop\<close> fails goes on as if it had the semaphore:
  when a process that is done removes the set while another one works and a third one asks, the
  third one works at the same time. And when the first process is slower than the
  attempts of another, both initialise the value, and both work at the same time.\<close>

theorem sysv_mutex_breaks:
  assumes "pcs s p = Work i \<and> pcs s q = Ask i \<and> pcs s r = Remove i
    \<or> pcs s p = First_init i \<and> pcs s q = Late_init i \<and> sets s i = Some e"
  shows "\<exists>n t. sysv_runs n s t \<and> pcs t p = Work i \<and> pcs t q = Work i"
  using assms removed_breaks late_init_breaks by blast

theorem sysv_mutex_breaks_witness:
  "\<exists>s n t. sysv_exec ([0, 1, 1, 2, 2, 0, 0, 1, 2] @ [0, 0, 1]) sysv_init = Some s \<and> pcs s 2 = Ask 0
    \<and> sysv_runs n s t \<and> pcs t 1 = Work 0 \<and> pcs t 2 = Work 0"
proof -
  have "map_option (\<lambda>s. (pcs s 0, pcs s 1, pcs s 2))
      (sysv_exec ([0, 1, 1, 2, 2, 0, 0, 1, 2] @ [0, 0, 1]) sysv_init) = Some (Remove 0, Work 0, Ask 0)"
    by code_simp
  then obtain s where s: "sysv_exec ([0, 1, 1, 2, 2, 0, 0, 1, 2] @ [0, 0, 1]) sysv_init = Some s"
      "pcs s 0 = Remove 0" "pcs s 1 = Work 0" "pcs s 2 = Ask 0" by auto
  with sysv_mutex_breaks [of s 1 0 2 0] show ?thesis by blast
qed

end
