(* ===== verification/Shared_Map.thy ===== *)
theory Shared_Map
  imports Interleaving Prelude
begin

text \<open>
  \<^verbatim>\<open>net/semaphore/b.c\<close>: a parent writes names and ages of five people into a mapping that it shares with
  its child; the child prints the ages and changes the first one, which the parent prints at last. Nothing
  but calls of \<^verbatim>\<open>sleep\<close> orders their steps. Each process is a program counter, and the steps interleave; in
  a punctual run the sleeps are long enough.

  The byte behind the variable \<^verbatim>\<open>temp\<close>, which \<^verbatim>\<open>memcpy\<close> reads too, is the parameter \<open>beyond\<close>.
\<close>

section \<open>State\<close>

record person =
  pname :: "byte list"
  page :: int

datatype map_proc = Map_child | Map_parent

datatype map_pc =
    Sleeping      \<comment> \<open>lines 18 and 32\<close>
  | Reading nat   \<comment> \<open>lines 19 and 20, with \<^verbatim>\<open>i\<close>\<close>
  | Aging         \<comment> \<open>line 21\<close>
  | Unmapping     \<comment> \<open>lines 22 and 35\<close>
  | Naming nat    \<comment> \<open>lines 26 to 29, with \<^verbatim>\<open>i\<close>\<close>
  | Dating nat    \<comment> \<open>line 30, with \<^verbatim>\<open>i\<close>\<close>
  | Looking       \<comment> \<open>line 33\<close>
  | Telling       \<comment> \<open>line 34\<close>
  | Closing       \<comment> \<open>line 36\<close>
  | Ended
  | Segfault

datatype map_line = Child_read nat int | Parent_read int | Umap | Umap_ok

record shared_map =
  region :: "person list"
  mapped :: "map_proc \<Rightarrow> bool"
  temp :: byte
  map_at :: "map_proc \<Rightarrow> map_pc"
  map_out :: "(map_proc \<times> map_line) list"

section \<open>Operations\<close>

definition map_goto :: "map_proc \<Rightarrow> map_pc \<Rightarrow> shared_map \<Rightarrow> shared_map" where
  "map_goto w c s = s\<lparr>map_at := (map_at s)(w := c)\<rparr>"

definition map_say :: "map_proc \<Rightarrow> map_line \<Rightarrow> shared_map \<Rightarrow> shared_map" where
  "map_say w l s = s\<lparr>map_out := map_out s @ [(w, l)]\<rparr>"

definition unmap :: "map_proc \<Rightarrow> shared_map \<Rightarrow> shared_map" where
  "unmap w s = s\<lparr>mapped := (mapped s)(w := False)\<rparr>"

text \<open>A read of a person, and a write. Outside the mapping both end the process.\<close>

definition map_get :: "map_proc \<Rightarrow> nat \<Rightarrow> (person \<Rightarrow> shared_map) \<Rightarrow> shared_map \<Rightarrow> shared_map" where
  "map_get w j f s =
     (if mapped s w \<and> j < length (region s) then f (region s ! j) else map_goto w Segfault s)"

definition map_put :: "map_proc \<Rightarrow> nat \<Rightarrow> (person \<Rightarrow> person) \<Rightarrow> map_pc \<Rightarrow> shared_map \<Rightarrow> shared_map" where
  "map_put w j f c s =
     map_get w j (\<lambda>p. map_goto w c (s\<lparr>region := (region s)[j := f p]\<rparr>)) s"

definition copy_name :: "byte \<Rightarrow> byte \<Rightarrow> person \<Rightarrow> person" where
  "copy_name beyond t p = p\<lparr>pname := [t, beyond] @ drop 2 (pname p)\<rparr>"

definition map_child :: "shared_map \<Rightarrow> shared_map option" where
  "map_child s = (case map_at s Map_child of
      Sleeping \<Rightarrow> Some (map_goto Map_child (Reading 0) s)
    | Reading i \<Rightarrow> Some (if i < 5
        then map_get Map_child i
               (\<lambda>p. map_goto Map_child (Reading (Suc i)) (map_say Map_child (Child_read (Suc i) (page p)) s)) s
        else map_goto Map_child Aging s)
    | Aging \<Rightarrow> Some (map_put Map_child 0 (\<lambda>p. p\<lparr>page := 100\<rparr>) Unmapping s)
    | Unmapping \<Rightarrow> Some (map_goto Map_child Ended (unmap Map_child s))
    | _ \<Rightarrow> None)"

definition map_parent :: "byte \<Rightarrow> shared_map \<Rightarrow> shared_map option" where
  "map_parent beyond s = (case map_at s Map_parent of
      Naming i \<Rightarrow> Some (if i < 5
        then map_put Map_parent i (copy_name beyond (temp s + 1)) (Dating i) (s\<lparr>temp := temp s + 1\<rparr>)
        else map_goto Map_parent Sleeping s)
    | Dating i \<Rightarrow> Some (map_put Map_parent i (\<lambda>p. p\<lparr>page := 20 + int i\<rparr>) (Naming (Suc i)) s)
    | Sleeping \<Rightarrow> Some (map_goto Map_parent Looking s)
    | Looking \<Rightarrow> Some (map_get Map_parent 0
        (\<lambda>p. map_goto Map_parent Telling (map_say Map_parent (Parent_read (page p)) s)) s)
    | Telling \<Rightarrow> Some (map_goto Map_parent Unmapping (map_say Map_parent Umap s))
    | Unmapping \<Rightarrow> Some (map_goto Map_parent Closing (unmap Map_parent s))
    | Closing \<Rightarrow> Some (map_goto Map_parent Ended (map_say Map_parent Umap_ok s))
    | _ \<Rightarrow> None)"

text \<open>\<^verbatim>\<open>main\<close> up to the branches. A failed \<^verbatim>\<open>mmap\<close> and a failed \<^verbatim>\<open>fork\<close> are not noticed; without a child
  there is only the parent.\<close>

definition map_main :: "bool \<Rightarrow> int \<Rightarrow> shared_map" where
  "map_main mmap_ok pid =
     \<lparr>region = replicate 10 \<lparr>pname = [0, 0, 0, 0], page = 0\<rparr>, mapped = \<lambda>w. mmap_ok, temp = 97,
      map_at = (\<lambda>w. Naming 0)(Map_child := if pid = - 1 then Ended else Sleeping), map_out = []\<rparr>"

text \<open>How many names and ages the parent has written.\<close>

fun named :: "map_pc \<Rightarrow> nat" where
  "named (Naming i) = i"
| "named (Dating i) = Suc i"
| "named _ = 5"

fun dated :: "map_pc \<Rightarrow> nat" where
  "dated (Naming i) = i"
| "dated (Dating i) = i"
| "dated _ = 5"

text \<open>In a punctual run the child sleeps until the parent has filled the mapping, and the parent sleeps
  until the child has ended.\<close>

inductive map_step :: "byte \<Rightarrow> bool \<Rightarrow> shared_map \<Rightarrow> shared_map \<Rightarrow> bool" for beyond punctual where
  child: "map_child s = Some s' \<Longrightarrow> (punctual \<longrightarrow> map_at s Map_child = Sleeping \<longrightarrow> dated (map_at s Map_parent) = 5)
    \<Longrightarrow> map_step beyond punctual s s'"
| parent: "map_parent beyond s = Some s' \<Longrightarrow>
    (punctual \<longrightarrow> map_at s Map_parent = Sleeping \<longrightarrow> map_at s Map_child = Ended)
    \<Longrightarrow> map_step beyond punctual s s'"

inductive_cases map_stepE: "map_step beyond punctual s s'"

abbreviation map_runs :: "byte \<Rightarrow> bool \<Rightarrow> nat \<Rightarrow> shared_map \<Rightarrow> shared_map \<Rightarrow> bool" where
  "map_runs beyond punctual n \<equiv> runs (map_step beyond punctual) (\<lambda>s s'. False) n 0"

section \<open>Invariant\<close>

fun child_left :: "map_pc \<Rightarrow> nat" where
  "child_left Sleeping = 9"
| "child_left (Reading i) = 3 + (5 - i)"
| "child_left Aging = 2"
| "child_left Unmapping = 1"
| "child_left _ = 0"

fun parent_left :: "map_pc \<Rightarrow> nat" where
  "parent_left (Naming i) = 6 + 2 * (5 - i)"
| "parent_left (Dating i) = 5 + 2 * (5 - i)"
| "parent_left Sleeping = 5"
| "parent_left Looking = 4"
| "parent_left Telling = 3"
| "parent_left Unmapping = 2"
| "parent_left Closing = 1"
| "parent_left _ = 0"

definition map_rank :: "shared_map \<Rightarrow> nat" where
  "map_rank s = child_left (map_at s Map_child) + parent_left (map_at s Map_parent)"

definition map_lines :: "map_proc \<Rightarrow> shared_map \<Rightarrow> map_line list" where
  "map_lines w s = map snd (filter (\<lambda>x. fst x = w) (map_out s))"

text \<open>What each process has printed: the ages a child may have read, and the age the parent has.\<close>

fun ages_read :: "map_pc \<Rightarrow> nat" where
  "ages_read Sleeping = 0"
| "ages_read (Reading i) = i"
| "ages_read _ = 5"

definition read_lines :: "bool \<Rightarrow> nat \<Rightarrow> map_line list \<Rightarrow> bool" where
  "read_lines punctual n ls \<longleftrightarrow> length ls = n \<and>
     (\<forall>j < n. ls ! j = Child_read (Suc j) (20 + int j) \<or> \<not> punctual \<and> ls ! j = Child_read (Suc j) 0)"

fun told_lines :: "int \<Rightarrow> map_pc \<Rightarrow> map_line list" where
  "told_lines a Telling = [Parent_read a]"
| "told_lines a Unmapping = [Parent_read a, Umap]"
| "told_lines a Closing = [Parent_read a, Umap]"
| "told_lines a Ended = [Parent_read a, Umap, Umap_ok]"
| "told_lines a _ = []"

text \<open>What the mapping holds when the parent is at \<open>c\<close>, and when the child is there.\<close>

definition filled :: "byte \<Rightarrow> map_pc \<Rightarrow> person list \<Rightarrow> bool" where
  "filled beyond c ps \<longleftrightarrow> length ps = 10
     \<and> (\<forall>j < 10. pname (ps ! j) = (if j < named c then [98 + of_nat j, beyond, 0, 0] else [0, 0, 0, 0]))
     \<and> (\<forall>j < 10. 0 < j \<longrightarrow> page (ps ! j) = (if j < dated c then 20 + int j else 0))"

definition first_age :: "bool \<Rightarrow> map_pc \<Rightarrow> map_pc \<Rightarrow> int \<Rightarrow> bool" where
  "first_age punctual cc cp a \<longleftrightarrow>
     (if cc = Unmapping \<or> cc = Ended then a = 100 \<or> 0 < dated cp \<and> a = 20 \<and> \<not> punctual
      else a = (if 0 < dated cp then 20 else 0))"

definition map_inv :: "byte \<Rightarrow> bool \<Rightarrow> shared_map \<Rightarrow> bool" where
  "map_inv beyond punctual s \<longleftrightarrow>
     filled beyond (map_at s Map_parent) (region s)
     \<and> first_age punctual (map_at s Map_child) (map_at s Map_parent) (page (region s ! 0))
     \<and> temp s = 97 + of_nat (named (map_at s Map_parent))
     \<and> (map_at s Map_child \<in> {Sleeping, Aging, Unmapping, Ended} \<or> (\<exists>i \<le> 5. map_at s Map_child = Reading i))
     \<and> (map_at s Map_parent \<in> {Sleeping, Looking, Telling, Unmapping, Closing, Ended}
        \<or> (\<exists>i \<le> 5. map_at s Map_parent = Naming i) \<or> (\<exists>i < 5. map_at s Map_parent = Dating i))
     \<and> mapped s Map_child = (map_at s Map_child \<noteq> Ended)
     \<and> mapped s Map_parent = (map_at s Map_parent \<noteq> Closing \<and> map_at s Map_parent \<noteq> Ended)
     \<and> (punctual \<longrightarrow> map_at s Map_child \<noteq> Sleeping \<longrightarrow> dated (map_at s Map_parent) = 5)
     \<and> (punctual \<longrightarrow> map_at s Map_parent \<in> {Looking, Telling, Unmapping, Closing, Ended}
        \<longrightarrow> map_at s Map_child = Ended)
     \<and> read_lines punctual (ages_read (map_at s Map_child)) (map_lines Map_child s)
     \<and> (\<exists>a. map_lines Map_parent s = told_lines a (map_at s Map_parent)
          \<and> (a = 100 \<or> a = 20 \<and> \<not> punctual))"

section \<open>Lemmas\<close>

lemma map_state_simps [simp]:
  "region (map_goto w c s) = region s" "mapped (map_goto w c s) = mapped s" "temp (map_goto w c s) = temp s"
  "map_at (map_goto w c s) = (map_at s)(w := c)" "map_out (map_goto w c s) = map_out s"
  "region (map_say w l s) = region s" "mapped (map_say w l s) = mapped s" "temp (map_say w l s) = temp s"
  "map_at (map_say w l s) = map_at s" "map_out (map_say w l s) = map_out s @ [(w, l)]"
  "region (unmap w s) = region s" "mapped (unmap w s) = (mapped s)(w := False)" "temp (unmap w s) = temp s"
  "map_at (unmap w s) = map_at s" "map_out (unmap w s) = map_out s"
  by (simp_all add: map_goto_def map_say_def unmap_def)

lemma map_lines_simps [simp]:
  "map_lines w (map_goto v c s) = map_lines w s" "map_lines w (unmap v s) = map_lines w s"
  "map_lines w (map_say v l s) = map_lines w s @ (if v = w then [l] else [])"
  "map_lines w (s\<lparr>region := ps\<rparr>) = map_lines w s"
  "map_lines w (s\<lparr>temp := t\<rparr>) = map_lines w s"
  by (simp_all add: map_lines_def)

lemma read_lines_snoc:
  "read_lines u i ls \<Longrightarrow> a = 20 + int i \<or> \<not> u \<and> a = 0 \<Longrightarrow> read_lines u (Suc i) (ls @ [Child_read (Suc i) a])"
  by (auto simp: read_lines_def nth_append less_Suc_eq)

lemma map_invD:
  assumes "map_inv beyond u s"
  shows "filled beyond (map_at s Map_parent) (region s)"
    and "first_age u (map_at s Map_child) (map_at s Map_parent) (page (region s ! 0))"
    and "temp s = 97 + of_nat (named (map_at s Map_parent))"
    and "map_at s Map_child \<in> {Sleeping, Aging, Unmapping, Ended} \<or> (\<exists>i \<le> 5. map_at s Map_child = Reading i)"
    and "map_at s Map_parent \<in> {Sleeping, Looking, Telling, Unmapping, Closing, Ended}
        \<or> (\<exists>i \<le> 5. map_at s Map_parent = Naming i) \<or> (\<exists>i < 5. map_at s Map_parent = Dating i)"
    and "mapped s Map_child = (map_at s Map_child \<noteq> Ended)"
    and "mapped s Map_parent = (map_at s Map_parent \<noteq> Closing \<and> map_at s Map_parent \<noteq> Ended)"
    and "u \<longrightarrow> map_at s Map_child \<noteq> Sleeping \<longrightarrow> dated (map_at s Map_parent) = 5"
    and "u \<longrightarrow> map_at s Map_parent \<in> {Looking, Telling, Unmapping, Closing, Ended} \<longrightarrow> map_at s Map_child = Ended"
    and "read_lines u (ages_read (map_at s Map_child)) (map_lines Map_child s)"
    and "\<exists>a. map_lines Map_parent s = told_lines a (map_at s Map_parent) \<and> (a = 100 \<or> a = 20 \<and> \<not> u)"
  using assms unfolding map_inv_def by blast+

text \<open>The age of any person as the child may read it.\<close>

lemma age_seen:
  assumes i: "map_inv beyond u s" and c: "map_at s Map_child = Reading j" and j: "j < 5"
  shows "page (region s ! j) = 20 + int j \<or> \<not> u \<and> page (region s ! j) = 0"
proof (cases "j = 0")
  case True
  with map_invD(2,8)[OF i] c show ?thesis by (auto simp: first_age_def)
next
  case False
  with map_invD(1,8)[OF i] c j show ?thesis by (auto simp: filled_def)
qed

lemma filled_child:
  assumes "filled beyond c ps"
  shows "filled beyond c (ps[0 := (ps ! 0)\<lparr>page := a\<rparr>])"
proof -
  have "page (ps[0 := (ps ! 0)\<lparr>page := a\<rparr>] ! j) = page (ps ! j)" if "0 < j" for j using that by simp
  moreover have "pname (ps[0 := (ps ! 0)\<lparr>page := a\<rparr>] ! j) = pname (ps ! j)" if "j < 10" for j
    using that assms by (cases "j = 0") (simp_all add: filled_def)
  ultimately show ?thesis using assms by (simp add: filled_def)
qed

lemma map_child_inv:
  assumes i: "map_inv beyond u s" and c: "map_child s = Some s'"
    and u: "u \<longrightarrow> map_at s Map_child = Sleeping \<longrightarrow> dated (map_at s Map_parent) = 5"
  shows "map_inv beyond u s' \<and> map_rank s' < map_rank s"
proof -
  note D = map_invD[OF i]
  have len: "length (region s) = 10" using D(1) by (simp add: filled_def)
  from D(4) consider (sleep) "map_at s Map_child = Sleeping" | (read) j where "map_at s Map_child = Reading j" "j < 5"
    | (all) "map_at s Map_child = Reading 5" | (aging) "map_at s Map_child = Aging"
    | (unmap) "map_at s Map_child = Unmapping" | (ended) "map_at s Map_child = Ended"
    by (auto simp: le_less)
  then show ?thesis
  proof cases
    case sleep
    then have s': "s' = map_goto Map_child (Reading 0) s" using c by (simp add: map_child_def)
    from sleep D u show ?thesis unfolding s' by (simp add: map_inv_def map_rank_def first_age_def)
  next
    case read
    then have s': "s' = map_goto Map_child (Reading (Suc j))
        (map_say Map_child (Child_read (Suc j) (page (region s ! j))) s)"
      using c D(6) len by (simp add: map_child_def map_get_def)
    have "read_lines u (Suc j) (map_lines Map_child s @ [Child_read (Suc j) (page (region s ! j))])"
      using read_lines_snoc[OF _ age_seen[OF i read]] D(10) read(1) by simp
    with read D show ?thesis unfolding s' by (simp add: map_inv_def map_rank_def first_age_def)
  next
    case all
    then have s': "s' = map_goto Map_child Aging s" using c by (simp add: map_child_def)
    from all D show ?thesis unfolding s' by (simp add: map_inv_def map_rank_def first_age_def)
  next
    case aging
    then have s': "s' = map_goto Map_child Unmapping (s\<lparr>region := (region s)[0 := (region s ! 0)\<lparr>page := 100\<rparr>]\<rparr>)"
      using c D(6) len by (simp add: map_child_def map_put_def map_get_def)
    from aging D len filled_child[OF D(1), of 100] show ?thesis unfolding s'
      by (simp add: map_inv_def map_rank_def first_age_def)
  next
    case unmap
    then have s': "s' = map_goto Map_child Ended (Shared_Map.unmap Map_child s)" using c by (simp add: map_child_def)
    from unmap D show ?thesis unfolding s' by (simp add: map_inv_def map_rank_def first_age_def)
  qed (use c in \<open>simp add: map_child_def\<close>)
qed

lemma filled_name:
  assumes f: "filled beyond (Naming i) ps" and i: "i < 5"
  shows "filled beyond (Dating i) (ps[i := copy_name beyond (98 + of_nat i) (ps ! i)])"
proof -
  have "pname (ps ! i) = [0, 0, 0, 0]" "length ps = 10" using f i by (simp_all add: filled_def)
  with f i show ?thesis by (auto simp: filled_def copy_name_def nth_list_update less_Suc_eq)
qed

lemma filled_date:
  assumes f: "filled beyond (Dating i) ps" and i: "i < 5"
  shows "filled beyond (Naming (Suc i)) (ps[i := (ps ! i)\<lparr>page := 20 + int i\<rparr>])"
  using assms by (auto simp: filled_def nth_list_update less_Suc_eq)

lemma filled_cong: "named c = named c' \<Longrightarrow> dated c = dated c' \<Longrightarrow> filled beyond c ps = filled beyond c' ps"
  by (simp add: filled_def)

text \<open>The steps of the parent that write, and those after the loop.\<close>

lemma map_parent_fill:
  assumes i: "map_inv beyond u s" and c: "map_parent beyond s = Some s'"
    and at: "(\<exists>j \<le> 5. map_at s Map_parent = Naming j) \<or> (\<exists>j < 5. map_at s Map_parent = Dating j)"
  shows "map_inv beyond u s' \<and> map_rank s' < map_rank s"
proof -
  note D = map_invD[OF i]
  have len: "length (region s) = 10" using D(1) by (simp add: filled_def)
  from at consider (name) j where "map_at s Map_parent = Naming j" "j < 5"
    | (all) "map_at s Map_parent = Naming 5" | (date) j where "map_at s Map_parent = Dating j" "j < 5"
    by (auto simp: le_less)
  then show ?thesis
  proof cases
    case name
    let ?p = "copy_name beyond (98 + of_nat j) (region s ! j)"
    have s': "s' = map_goto Map_parent (Dating j) (s\<lparr>temp := 98 + of_nat j, region := (region s)[j := ?p]\<rparr>)"
      using c D(3,7) len name by (simp add: map_parent_def map_put_def map_get_def)
    have "page ((region s)[j := ?p] ! 0) = page (region s ! 0)"
      using len by (cases "j = 0") (simp_all add: copy_name_def)
    with name D filled_name[of beyond j "region s"] show ?thesis unfolding s'
      by (auto simp: map_inv_def map_rank_def first_age_def)
  next
    case all
    then have s': "s' = map_goto Map_parent Sleeping s" using c by (simp add: map_parent_def)
    from all D filled_cong[of "Naming 5" Sleeping] show ?thesis unfolding s'
      by (auto simp: map_inv_def map_rank_def first_age_def)
  next
    case date
    let ?p = "(region s ! j)\<lparr>page := 20 + int j\<rparr>"
    have s': "s' = map_goto Map_parent (Naming (Suc j)) (s\<lparr>region := (region s)[j := ?p]\<rparr>)"
      using c D(7) len date by (simp add: map_parent_def map_put_def map_get_def)
    have u: "u \<longrightarrow> map_at s Map_child = Sleeping" using D(8) date by auto
    moreover have "page ((region s)[j := ?p] ! 0) = (if j = 0 then 20 else page (region s ! 0))"
      using len by (cases "j = 0") simp_all
    ultimately have "first_age u (map_at s Map_child) (Naming (Suc j)) (page ((region s)[j := ?p] ! 0))"
      using D(2) date by (auto simp: first_age_def)
    with date D filled_date[of beyond j "region s"] u show ?thesis unfolding s'
      by (simp add: map_inv_def map_rank_def)
  qed
qed

lemma map_parent_tell:
  assumes i: "map_inv beyond u s" and c: "map_parent beyond s = Some s'"
    and u: "u \<longrightarrow> map_at s Map_parent = Sleeping \<longrightarrow> map_at s Map_child = Ended"
    and at: "map_at s Map_parent \<in> {Sleeping, Looking, Telling, Unmapping, Closing, Ended}"
  shows "map_inv beyond u s' \<and> map_rank s' < map_rank s"
proof -
  note D = map_invD[OF i]
  have len: "length (region s) = 10" using D(1) by (simp add: filled_def)
  from at consider (sleep) "map_at s Map_parent = Sleeping" | (look) "map_at s Map_parent = Looking"
    | (tell) "map_at s Map_parent = Telling" | (unmap) "map_at s Map_parent = Unmapping"
    | (closing) "map_at s Map_parent = Closing" | (ended) "map_at s Map_parent = Ended" by auto
  then show ?thesis
  proof cases
    case sleep
    then have s': "s' = map_goto Map_parent Looking s" using c by (simp add: map_parent_def)
    from sleep D u filled_cong[of Sleeping Looking] show ?thesis unfolding s'
      by (auto simp: map_inv_def map_rank_def first_age_def)
  next
    case look
    then have s': "s' = map_goto Map_parent Telling (map_say Map_parent (Parent_read (page (region s ! 0))) s)"
      using c D(7) len by (simp add: map_parent_def map_get_def)
    have "page (region s ! 0) = 100 \<or> page (region s ! 0) = 20 \<and> \<not> u"
      using D(2,9) look by (auto simp: first_age_def split: if_splits)
    with look D filled_cong[of Looking Telling] show ?thesis unfolding s'
      by (auto simp: map_inv_def map_rank_def first_age_def)
  next
    case tell
    then have s': "s' = map_goto Map_parent Unmapping (map_say Map_parent Umap s)" using c by (simp add: map_parent_def)
    from tell D filled_cong[of Telling Unmapping] show ?thesis unfolding s'
      by (auto simp: map_inv_def map_rank_def first_age_def)
  next
    case unmap
    then have s': "s' = map_goto Map_parent Closing (Shared_Map.unmap Map_parent s)" using c by (simp add: map_parent_def)
    from unmap D filled_cong[of Unmapping Closing] show ?thesis unfolding s'
      by (auto simp: map_inv_def map_rank_def first_age_def)
  next
    case closing
    then have s': "s' = map_goto Map_parent Ended (map_say Map_parent Umap_ok s)" using c by (simp add: map_parent_def)
    from closing D filled_cong[of Closing Ended] show ?thesis unfolding s'
      by (auto simp: map_inv_def map_rank_def first_age_def)
  qed (use c in \<open>simp add: map_parent_def\<close>)
qed

lemma map_step_inv: "map_inv b u s \<Longrightarrow> map_step b u s s' \<Longrightarrow> map_inv b u s' \<and> map_rank s' < map_rank s"
  using map_invD(5)[of b u s] by (auto elim!: map_stepE dest: map_child_inv map_parent_tell map_parent_fill)

interpretation ages: ranked_system "\<lambda>_ :: unit. map_inv beyond punctual" "\<lambda>_. map_rank" "map_step beyond punctual"
    "\<lambda>s s'. False" 0 for beyond punctual
  by unfold_locales (auto dest: map_step_inv)

lemma map_start_inv:
  assumes "pid \<noteq> - 1"
  shows "map_inv beyond punctual (map_main True pid)" "map_rank (map_main True pid) = 25"
  using assms
  by (auto simp: map_inv_def map_main_def filled_def first_age_def map_lines_def read_lines_def map_rank_def)

lemma map_stuck_ended:
  assumes i: "map_inv beyond u s" and n: "\<And>s'. \<not> map_step beyond u s s'"
  shows "map_at s Map_child = Ended \<and> map_at s Map_parent = Ended"
proof -
  note D = map_invD[OF i]
  have cp: "map_at s Map_parent = Ended \<or> map_at s Map_parent = Sleeping \<and> u \<and> map_at s Map_child \<noteq> Ended"
    using n[of "the (map_parent beyond s)"] D(5) by (auto simp: map_step.simps map_parent_def)
  have cc: "map_at s Map_child = Ended \<or> map_at s Map_child = Sleeping \<and> u \<and> dated (map_at s Map_parent) \<noteq> 5"
    using n[of "the (map_child s)"] D(4) by (auto simp: map_step.simps map_child_def)
  from cp cc show ?thesis by auto
qed

lemma mmap_unchecked:
  "map_parent beyond (map_main False pid) = Some s' \<Longrightarrow> map_at s' Map_parent = Segfault"
  by (auto simp: map_parent_def map_main_def map_put_def map_get_def)

text \<open>Runs that follow a schedule: \<open>True\<close> for a step of the child.\<close>

fun map_exec :: "byte \<Rightarrow> bool list \<Rightarrow> shared_map \<Rightarrow> shared_map option" where
  "map_exec beyond [] s = Some s"
| "map_exec beyond (b # bs) s =
     Option.bind (if b then map_child s else map_parent beyond s) (map_exec beyond bs)"

lemma map_exec_runs: "map_exec beyond bs s = Some t \<Longrightarrow> map_runs beyond False (length bs) s t"
proof (induction bs arbitrary: s)
  case (Cons b bs)
  then obtain s' where s': "(if b then map_child s else map_parent beyond s) = Some s'" "map_exec beyond bs s' = Some t"
    by (auto simp: Option.bind_eq_Some_conv)
  then have "map_step beyond False s s'" by (cases b) (auto intro: map_step.intros)
  with Cons.IH[OF s'(2)] show ?case by (auto intro: runs_step)
qed (simp add: runs_refl)

text \<open>When the child is fast its change is lost, and it has read nothing but zeros.\<close>

lemma change_lost:
  "\<exists>s. map_runs 0 False 25 (map_main True 5) s \<and> map_lines Map_parent s = [Parent_read 20, Umap, Umap_ok]
     \<and> map_lines Map_child s = map (\<lambda>j. Child_read (Suc j) 0) [0..<5]"
proof -
  let ?bs = "replicate 9 True @ replicate 16 False"
  obtain s where s: "map_exec 0 ?bs (map_main True 5) = Some s" "map_lines Map_parent s = [Parent_read 20, Umap, Umap_ok]"
    "map_lines Map_child s = map (\<lambda>j. Child_read (Suc j) 0) [0..<5]"
    by (simp add: numeral_eq_Suc map_child_def map_parent_def map_main_def map_get_def map_put_def map_lines_def
        copy_name_def upt_rec)
  from map_exec_runs[OF s(1)] s(2,3) show ?thesis by auto
qed

section \<open>Properties\<close>

text \<open>C39. Whatever the order of the steps, no process touches the mapping after it has given it up or outside of
  its bounds, and after at most 25 steps both have ended. Each age the child prints is then the one the parent has
  written or still 0, and the parent prints 100, or 20 when it has overwritten the child's change. When the
  sleeps are long enough the child prints 20 to 24 and the parent 100. The byte that \<^verbatim>\<open>memcpy\<close> reads behind
  \<^verbatim>\<open>temp\<close> ends up in the names and nowhere else.\<close>

theorem ages_shared:
  assumes "pid \<noteq> - 1" and "map_runs beyond punctual n (map_main True pid) s"
  shows "n \<le> 25 \<and> map_at s Map_child \<noteq> Segfault \<and> map_at s Map_parent \<noteq> Segfault
    \<and> ((\<forall>s'. \<not> map_step beyond punctual s s') \<longrightarrow>
         map_at s Map_child = Ended \<and> map_at s Map_parent = Ended
         \<and> (\<exists>f. map_lines Map_child s = map (\<lambda>j. Child_read (Suc j) (f j)) [0..<5]
              \<and> (\<forall>j < 5. f j = 20 + int j \<or> \<not> punctual \<and> f j = 0))
         \<and> (\<exists>a. map_lines Map_parent s = [Parent_read a, Umap, Umap_ok] \<and> (a = 100 \<or> a = 20 \<and> \<not> punctual))
         \<and> (\<forall>j < 5. pname (region s ! j) = [98 + of_nat j, beyond, 0, 0]))
    \<and> (\<exists>m t. map_runs beyond punctual m s t \<and> (\<forall>t'. \<not> map_step beyond punctual t t'))"
proof -
  from ages.runs_rank[OF assms(2)] map_start_inv[OF assms(1)] have i: "map_inv beyond punctual s" "n \<le> 25"
    by fastforce+
  note D = map_invD[OF i(1)]
  have "\<exists>f. map_lines Map_child s = map (\<lambda>j. Child_read (Suc j) (f j)) [0..<5]
      \<and> (\<forall>j < 5. f j = 20 + int j \<or> \<not> punctual \<and> f j = 0)" if "map_at s Map_child = Ended"
  proof (intro exI conjI)
    let ?f = "\<lambda>j. if map_lines Map_child s ! j = Child_read (Suc j) 0 then 0 else 20 + int j"
    have r: "read_lines punctual 5 (map_lines Map_child s)" using D(10) that by simp
    then show "map_lines Map_child s = map (\<lambda>j. Child_read (Suc j) (?f j)) [0..<5]"
      by (intro nth_equalityI) (auto simp: read_lines_def)
    show "\<forall>j < 5. ?f j = 20 + int j \<or> \<not> punctual \<and> ?f j = 0" using r by (auto simp: read_lines_def)
  qed
  moreover have "\<forall>j < 5. pname (region s ! j) = [98 + of_nat j, beyond, 0, 0]" if "map_at s Map_parent = Ended"
    using D(1) that by (simp add: filled_def)
  moreover have "map_at s Map_child \<noteq> Segfault" "map_at s Map_parent \<noteq> Segfault" using D(4,5) by auto
  ultimately show ?thesis
    using map_stuck_ended[OF i(1)] ages.runs_to_end[OF i(1)] D(11) i(2) by auto
qed

theorem ages_shared_witness:
  "\<exists>m t. map_runs 7 True m (map_main True 5) t
     \<and> map_lines Map_parent t = [Parent_read 100, Umap, Umap_ok] \<and> pname (region t ! 4) = [102, 7, 0, 0]"
proof -
  have p: "(5 :: int) \<noteq> - 1" by simp
  from ages_shared[OF p runs_refl] obtain m t where
    t: "map_runs 7 True m (map_main True 5) t" "\<forall>t'. \<not> map_step 7 True t t'" by blast
  from ages_shared[OF p t(1)] t(2) have "map_lines Map_parent t = [Parent_read 100, Umap, Umap_ok]"
    and "\<forall>j < 5. pname (region t ! j) = [98 + of_nat j, 7, 0, 0]" by auto
  with t(1) show ?thesis by (intro exI[of _ m] exI[of _ t]) simp
qed

end
