(* ===== verification/Message_Queue.thy ===== *)
theory Message_Queue
  imports Endian Decimal
begin

text \<open>
  The message queue program of \<^verbatim>\<open>net/messagequeue/main.c\<close>: it creates a System V message queue,
  sends one message, receives it, changes the limits of the queue and removes it, printing the
  state of the queue in between. The queue follows the documentation of \<^verbatim>\<open>msgsnd\<close>,
  \<^verbatim>\<open>msgrcv\<close> and \<^verbatim>\<open>msgctl\<close>; which calls the kernel refuses, the clock, the width of \<^verbatim>\<open>long\<close>, the
  byte order and the bytes around the message on the stack are parameters.
\<close>

section \<open>State\<close>

text \<open>What \<^verbatim>\<open>IPC_STAT\<close> reports and \<^verbatim>\<open>msg_stat\<close> prints.\<close>

record msqid_ds =
  msg_cbytes :: nat
  msg_qnum :: nat
  msg_qbytes :: int
  msg_lspid :: int
  msg_lrpid :: int
  msg_stime :: int
  msg_rtime :: int
  msg_ctime :: int
  msg_uid :: int
  msg_gid :: int

text \<open>The queue, the number of calls so far (which refusals and the clock depend on) and the
  output. \<open>removed\<close> says that \<^verbatim>\<open>IPC_RMID\<close> took place.\<close>

datatype out = Line string | Stat msqid_ds

record mq =
  msgs :: "(int \<times> byte list) list"
  info :: msqid_ds
  calls :: nat
  outs :: "out list"
  removed :: bool

text \<open>The environment: the result of \<^verbatim>\<open>msgget\<close> is whether it succeeds.\<close>

record mq_env =
  creates :: bool
  refuses :: "nat \<Rightarrow> bool"
  clock :: "nat \<Rightarrow> int"
  self_pid :: int
  long_size :: nat
  order :: byte_order

definition say :: "string \<Rightarrow> mq \<Rightarrow> mq" where
  "say l s = s\<lparr>outs := outs s @ [Line l]\<rparr>"

section \<open>The calls\<close>

text \<open>The value of a signed integer whose bytes are given.\<close>

definition be_nat :: "byte list \<Rightarrow> nat" where
  "be_nat bs = fold (\<lambda>b n. n * 256 + unat b) bs 0"

definition signed_of :: "byte_order \<Rightarrow> byte list \<Rightarrow> int" where
  "signed_of ord bs =
     (let n = be_nat (in_order ord bs)
      in if 2 * n < 256 ^ length bs then int n else int n - 256 ^ length bs)"

text \<open>\<^verbatim>\<open>msgsnd\<close> reads a \<^verbatim>\<open>long\<close> and then the text from the given memory; a type below 1 is
  refused.\<close>

definition msgsnd :: "mq_env \<Rightarrow> byte list \<Rightarrow> nat \<Rightarrow> mq \<Rightarrow> int \<times> mq" where
  "msgsnd e mem sz s =
     (let t = signed_of (order e) (take (long_size e) mem);
          txt = take sz (drop (long_size e) mem);
          s1 = s\<lparr>calls := Suc (calls s)\<rparr>
      in if t < 1 \<or> refuses e (calls s) then (- 1, s1)
         else (0, s1\<lparr>msgs := msgs s @ [(t, txt)],
                    info := (info s)\<lparr>msg_lspid := self_pid e, msg_stime := clock e (calls s)\<rparr>\<rparr>))"

text \<open>\<^verbatim>\<open>msgrcv\<close> for a positive type, with \<^verbatim>\<open>IPC_NOWAIT\<close> and \<^verbatim>\<open>MSG_NOERROR\<close>: the first message of
  that type is removed and cut to the given size; its length is returned.\<close>

definition msgrcv :: "mq_env \<Rightarrow> nat \<Rightarrow> int \<Rightarrow> mq \<Rightarrow> int \<times> mq" where
  "msgrcv e sz t s =
     (let s1 = s\<lparr>calls := Suc (calls s)\<rparr> in
      case find (\<lambda>x. fst x = t) (msgs s) of
        None \<Rightarrow> (- 1, s1)
      | Some x \<Rightarrow>
          if refuses e (calls s) then (- 1, s1)
          else (int (min sz (length (snd x))),
                s1\<lparr>msgs := remove1 x (msgs s),
                   info := (info s)\<lparr>msg_lrpid := self_pid e, msg_rtime := clock e (calls s)\<rparr>\<rparr>))"

definition snapshot :: "mq \<Rightarrow> msqid_ds" where
  "snapshot s = (info s)\<lparr>msg_cbytes := sum_list (map (length \<circ> snd) (msgs s)), msg_qnum := length (msgs s)\<rparr>"

definition msgctl_set :: "mq_env \<Rightarrow> int \<Rightarrow> int \<Rightarrow> int \<Rightarrow> mq \<Rightarrow> int \<times> mq" where
  "msgctl_set e uid gid qbytes s =
     (let s1 = s\<lparr>calls := Suc (calls s)\<rparr> in
      if refuses e (calls s) then (- 1, s1)
      else (0, s1\<lparr>info := (info s)\<lparr>msg_uid := uid, msg_gid := gid, msg_qbytes := qbytes,
                                 msg_ctime := clock e (calls s)\<rparr>\<rparr>))"

definition msgctl_rmid :: "mq_env \<Rightarrow> mq \<Rightarrow> int \<times> mq" where
  "msgctl_rmid e s =
     (let s1 = s\<lparr>calls := Suc (calls s)\<rparr> in
      if refuses e (calls s) then (- 1, s1) else (0, s1\<lparr>removed := True\<rparr>))"

section \<open>The program\<close>

definition msg_stat :: "mq_env \<Rightarrow> mq \<Rightarrow> mq" where
  "msg_stat e s =
     (let s1 = s\<lparr>calls := Suc (calls s)\<rparr> in
      if refuses e (calls s) then say ''get msg info error'' s1
      else s1\<lparr>outs := outs s1 @ [Stat (snapshot s1)]\<rparr>)"

text \<open>\<^verbatim>\<open>struct msgsbuf\<close> with an \<^verbatim>\<open>int\<close> type and one byte of text, and three bytes of padding;
  \<open>beyond\<close> is the memory that follows it.\<close>

definition msg_sbuf :: "mq_env \<Rightarrow> byte list \<Rightarrow> byte list \<Rightarrow> byte list" where
  "msg_sbuf e pad beyond = mem32 (order e) 10 @ [97] @ pad @ beyond"

definition read_report :: "int \<Rightarrow> string" where
  "read_report r =
     (if r = - 1 then ''read msg error'' else ''read from msg queue '' @ dec_int r @ '' bytes'')"

definition mq_main :: "mq_env \<Rightarrow> byte list \<Rightarrow> byte list \<Rightarrow> mq \<Rightarrow> mq" where
  "mq_main e pad beyond s =
     (if \<not> creates e then say ''msg create error'' s
      else let s1 = msg_stat e s;
               (r2, s2) = msgsnd e (msg_sbuf e pad beyond) 1 s1;
               s3 = msg_stat e (if r2 = - 1 then say ''message send error'' s2 else s2);
               (r4, s4) = msgrcv e 4 10 s3;
               s5 = msg_stat e (say (read_report r4) s4);
               (r6, s6) = msgctl_set e 8 8 16388 s5
           in if r6 = - 1 then say ''msg set info error'' s6
              else let s7 = msg_stat e s6; (r8, s8) = msgctl_rmid e s7
                   in if r8 = - 1 then say ''unlink msg queue error'' s8 else s8)"

text \<open>A new queue, and an environment that refuses nothing.\<close>

definition new_queue :: mq where
  "new_queue = \<lparr>msgs = [],
     info = \<lparr>msg_cbytes = 0, msg_qnum = 0, msg_qbytes = 16384, msg_lspid = 0, msg_lrpid = 0, msg_stime = 0,
       msg_rtime = 0, msg_ctime = 1, msg_uid = 0, msg_gid = 0\<rparr>,
     calls = 0, outs = [], removed = False\<rparr>"

definition willing :: "nat \<Rightarrow> byte_order \<Rightarrow> mq_env" where
  "willing w ord = \<lparr>creates = True, refuses = \<lambda>n. False, clock = int, self_pid = 7, long_size = w, order = ord\<rparr>"

section \<open>Lemmas\<close>

lemma outs_say [simp]: "outs (say l s) = outs s @ [Line l]" "msgs (say l s) = msgs s"
  "calls (say l s) = calls s" "removed (say l s) = removed s"
  by (simp_all add: say_def)

lemma msg_stat_frame [simp]:
  "msgs (msg_stat e s) = msgs s" "calls (msg_stat e s) = Suc (calls s)" "removed (msg_stat e s) = removed s"
  by (simp_all add: msg_stat_def Let_def)

text \<open>\<^verbatim>\<open>msg_stat\<close> prints at most its own lines.\<close>

lemma msg_stat_outs:
  "Line l \<in> set (outs (msg_stat e s)) \<longleftrightarrow>
    Line l \<in> set (outs s) \<or> refuses e (calls s) \<and> l = ''get msg info error''"
  by (auto simp: msg_stat_def Let_def)

lemma msgsnd_frame [simp]:
  "calls (snd (msgsnd e mem sz s)) = Suc (calls s)" "removed (snd (msgsnd e mem sz s)) = removed s"
  "outs (snd (msgsnd e mem sz s)) = outs s"
  by (simp_all add: msgsnd_def Let_def)

lemma msgrcv_frame [simp]:
  "calls (snd (msgrcv e sz t s)) = Suc (calls s)" "removed (snd (msgrcv e sz t s)) = removed s"
  "outs (snd (msgrcv e sz t s)) = outs s"
  by (simp_all add: msgrcv_def Let_def split: option.splits)

text \<open>The type that \<^verbatim>\<open>msgsnd\<close> reads, for both widths of \<^verbatim>\<open>long\<close>.\<close>

lemma byte_lt: "unat (b :: byte) < 256"
  using unsigned_less[of b, where ?'a = nat] by simp

lemma type_width_4: "signed_of ord (take 4 (mem32 ord 10 @ r)) = 10"
  by (cases ord) (simp_all add: mem32_def be32_def signed_of_def be_nat_def)

lemma type_width_8:
  assumes "length pad = 3"
  shows "signed_of ord (take 8 (mem32 ord 10 @ [97] @ pad @ r)) \<noteq> 10"
proof -
  obtain a b c where p: "pad = [a, b, c]" using assms by (auto simp: numeral_3_eq_3 length_Suc_conv)
  let ?bs = "take 8 (mem32 ord 10 @ [97] @ pad @ r)"
  have len: "length ?bs = 8" using assms by (simp add: mem32_def)
  define n where "n = be_nat (in_order ord ?bs)"
  have "unat a < 256" "unat b < 256" "unat c < 256" by (rule byte_lt)+
  then have "n \<noteq> 10" "n < 2 ^ 64"
    by (cases ord; simp add: n_def p mem32_def be32_def be_nat_def)+
  moreover have "signed_of ord ?bs = (if 2 * n < 2 ^ 64 then int n else int n - 2 ^ 64)"
    unfolding signed_of_def Let_def n_def[symmetric] len by simp
  ultimately show ?thesis by auto
qed

text \<open>The lines that are printed when no call is refused.\<close>

lemma mq_main_lines:
  assumes "creates e" and "\<And>n. \<not> refuses e n"
  obtains q where "msgs q = msgs (snd (msgsnd e (msg_sbuf e pad beyond) 1 (msg_stat e s)))"
    and "\<And>l. Line l \<in> set (outs (mq_main e pad beyond s)) \<longleftrightarrow> Line l \<in> set (outs s)
      \<or> fst (msgsnd e (msg_sbuf e pad beyond) 1 (msg_stat e s)) = - 1 \<and> l = ''message send error''
      \<or> l = read_report (fst (msgrcv e 4 10 q))"
proof -
  let ?r = "msgsnd e (msg_sbuf e pad beyond) 1 (msg_stat e s)"
  let ?q = "msg_stat e (if fst ?r = - 1 then say ''message send error'' (snd ?r) else snd ?r)"
  show ?thesis
    by (rule that[of ?q]) (use assms in \<open>auto simp: mq_main_def split_beta Let_def msgctl_set_def
      msgctl_rmid_def msg_stat_outs\<close>)
qed

lemma read_report_cases:
  "read_report 1 = ''read from msg queue 1 bytes''" "read_report (- 1) = ''read msg error''"
proof -
  have "(of_char (char_of (49 :: nat)) :: nat) = of_char (CHR ''1'')" by simp
  then have "char_of (49 :: nat) = CHR ''1''" by (simp only: of_char_eq_iff)
  then have "dec_int 1 = ''1''" by (simp add: dec_int_def dec_digits.simps)
  then show "read_report 1 = ''read from msg queue 1 bytes''" by (simp add: read_report_def)
qed (simp add: read_report_def)

section \<open>Properties\<close>

text \<open>C27. The width of the type: \<^verbatim>\<open>struct msgsbuf\<close> declares the type of the message as an \<^verbatim>\<open>int\<close>, but
  \<^verbatim>\<open>msgsnd\<close> reads a \<^verbatim>\<open>long\<close>. Where the two have the same width the byte that was sent is received.
  On a 64-bit system the text becomes part of the type, the receive finds no message of type
  10, whatever the padding and the stack hold, and the program reports an error.\<close>

theorem message_type_width:
  assumes e: "creates e" "\<And>n. \<not> refuses e n" and s: "msgs s = []" "outs s = []"
    and pad: "length pad = 3" and w: "long_size e = 4 \<or> long_size e = 8"
  shows "(Line ''read from msg queue 1 bytes'' \<in> set (outs (mq_main e pad beyond s)) \<longleftrightarrow> long_size e = 4)
    \<and> (Line ''read msg error'' \<in> set (outs (mq_main e pad beyond s)) \<longleftrightarrow> long_size e = 8)"
proof -
  let ?mem = "msg_sbuf e pad beyond"
  let ?t = "signed_of (order e) (take (long_size e) ?mem)"
  let ?txt = "take 1 (drop (long_size e) ?mem)"
  have t: "if long_size e = 4 then ?t = 10 \<and> length ?txt = 1 else ?t \<noteq> 10"
    using w type_width_4[of "order e" "[97] @ pad @ beyond"] type_width_8[OF pad, of "order e" beyond]
    by (auto simp: msg_sbuf_def mem32_def)
  obtain q where q: "msgs q = msgs (snd (msgsnd e ?mem 1 (msg_stat e s)))"
    and l: "\<And>l. Line l \<in> set (outs (mq_main e pad beyond s)) \<longleftrightarrow> Line l \<in> set (outs s)
      \<or> fst (msgsnd e ?mem 1 (msg_stat e s)) = - 1 \<and> l = ''message send error''
      \<or> l = read_report (fst (msgrcv e 4 10 q))"
    by (rule mq_main_lines[OF e, of pad beyond s]) blast
  have "msgs q = (if ?t < 1 then [] else [(?t, ?txt)])"
    using q e(2) s(1) by (simp add: msgsnd_def Let_def)
  then have "fst (msgrcv e 4 10 q) = (if ?t = 10 then min 4 (int (length ?txt)) else - 1)"
    using e(2) by (simp add: msgrcv_def Let_def)
  with t have "read_report (fst (msgrcv e 4 10 q))
      = (if long_size e = 4 then ''read from msg queue 1 bytes'' else ''read msg error'')"
    by (auto simp: read_report_cases split: if_splits)
  with l s(2) w show ?thesis by auto
qed

theorem message_type_width_witness:
  "Line ''read from msg queue 1 bytes'' \<in> set (outs (mq_main (willing 4 LittleEndian) [0, 0, 0] [] new_queue))
   \<and> Line ''read msg error'' \<in> set (outs (mq_main (willing 8 LittleEndian) [0, 0, 0] [5] new_queue))"
  using message_type_width[of "willing 4 LittleEndian" "new_queue" "[0, 0, 0]" "[]"]
    message_type_width[of "willing 8 LittleEndian" "new_queue" "[0, 0, 0]" "[5]"]
  by (simp add: willing_def new_queue_def)

text \<open>The queue is removed exactly when neither the change of its limits nor its removal is refused:
  when \<^verbatim>\<open>IPC_SET\<close> fails, which it does for everyone but the superuser, the program returns and
  leaves the queue behind.\<close>

theorem queue_left_behind:
  assumes "creates e" and "\<not> removed s"
  shows "removed (mq_main e pad beyond s) \<longleftrightarrow>
    \<not> refuses e (calls s + 5) \<and> \<not> refuses e (calls s + 7)"
  using assms
  by (simp add: mq_main_def split_beta Let_def msgctl_set_def msgctl_rmid_def numeral_eq_Suc)

theorem queue_left_behind_witness:
  "\<not> removed (mq_main ((willing 8 LittleEndian)\<lparr>refuses := \<lambda>n. n = 5\<rparr>) [0, 0, 0] [5] new_queue)"
  using queue_left_behind[of "(willing 8 LittleEndian)\<lparr>refuses := \<lambda>n. n = 5\<rparr>" "new_queue" "[0, 0, 0]" "[5]"]
  by (simp add: willing_def new_queue_def)

end
