(* ===== verification/One_Pipe.thy ===== *)
theory One_Pipe
  imports Interleaving
begin

text \<open>
  \<^verbatim>\<open>net/pipe/pipe.cpp\<close>: a parent writes a word into a pipe, its child reads a byte of it and echoes it. Each
  process is a program counter, and their steps interleave. The pipe ends that a process has open
  decide whether a \<^verbatim>\<open>read\<close> of an empty pipe waits, and whether a \<^verbatim>\<open>write\<close> kills the writer. The word is
  shorter than any pipe's capacity, so that \<^verbatim>\<open>write\<close> takes it at once.
\<close>

section \<open>State\<close>

datatype pipe_proc = Child | Parent

text \<open>\<^verbatim>\<open>recv_pipefd\<close> and \<^verbatim>\<open>send_pipefd\<close>; end 0 reads and end 1 writes.\<close>

datatype fd_name = Recv0 | Recv1 | Send0 | Send1

datatype pipe_pc =
    Begin           \<comment> \<open>lines 41 and 52\<close>
  | Close_first     \<comment> \<open>lines 42 and 53\<close>
  | Close_second    \<comment> \<open>lines 43 and 54\<close>
  | Transfer        \<comment> \<open>\<^verbatim>\<open>read\<close> and \<^verbatim>\<open>write\<close>, lines 45 and 56\<close>
  | Echo char       \<comment> \<open>line 46, with the byte in \<^verbatim>\<open>buf\<close>\<close>
  | Report          \<comment> \<open>lines 47 and 59\<close>
  | Newline         \<comment> \<open>line 48, child only\<close>
  | Waiting         \<comment> \<open>line 60, parent only\<close>
  | Exited          \<comment> \<open>after \<^verbatim>\<open>exit\<close> and \<^verbatim>\<open>_exit\<close>\<close>
  | Killed          \<comment> \<open>by \<^verbatim>\<open>SIGPIPE\<close>\<close>

record one_pipe =
  content :: string
  opened :: "pipe_proc \<Rightarrow> fd_name \<Rightarrow> bool"
  pc_of :: "pipe_proc \<Rightarrow> pipe_pc"
  shown :: "(pipe_proc \<times> string) list"

section \<open>Operations\<close>

definition pipe_goto :: "pipe_proc \<Rightarrow> pipe_pc \<Rightarrow> one_pipe \<Rightarrow> one_pipe" where
  "pipe_goto w c s = s\<lparr>pc_of := (pc_of s)(w := c)\<rparr>"

definition pipe_say :: "pipe_proc \<Rightarrow> string \<Rightarrow> one_pipe \<Rightarrow> one_pipe" where
  "pipe_say w l s = s\<lparr>shown := shown s @ [(w, l)]\<rparr>"

definition close_fd :: "pipe_proc \<Rightarrow> fd_name \<Rightarrow> one_pipe \<Rightarrow> one_pipe" where
  "close_fd w f s = s\<lparr>opened := (opened s)(w := (opened s w)(f := False))\<rparr>"

definition exit_process :: "pipe_proc \<Rightarrow> pipe_pc \<Rightarrow> one_pipe \<Rightarrow> one_pipe" where
  "exit_process w c s = pipe_goto w c (s\<lparr>opened := (opened s)(w := (\<lambda>f. False))\<rparr>)"

definition still_open :: "fd_name \<Rightarrow> one_pipe \<Rightarrow> bool" where
  "still_open f s \<longleftrightarrow> opened s Child f \<or> opened s Parent f"

definition word :: string where
  "word = ''nihao''"

definition pipe_child :: "one_pipe \<Rightarrow> one_pipe option" where
  "pipe_child s = (case pc_of s Child of
      Begin \<Rightarrow> Some (pipe_goto Child Close_first (pipe_say Child ''child'' s))
    | Close_first \<Rightarrow> Some (pipe_goto Child Close_second (close_fd Child Recv1 s))
    | Close_second \<Rightarrow> Some (pipe_goto Child Transfer (close_fd Child Send0 s))
    | Transfer \<Rightarrow>
        (case content s of
           c # r \<Rightarrow> Some (pipe_goto Child (Echo c) (s\<lparr>content := r\<rparr>))
         | [] \<Rightarrow> if still_open Recv1 s then None else Some (pipe_goto Child Report s))
    | Echo c \<Rightarrow> Some (pipe_goto Child Report (pipe_say Child [c] s))
    | Report \<Rightarrow> Some (pipe_goto Child Newline (pipe_say Child ''read end'' s))
    | Newline \<Rightarrow> Some (exit_process Child Exited (pipe_say Child ''newline'' s))
    | _ \<Rightarrow> None)"

definition pipe_parent :: "one_pipe \<Rightarrow> one_pipe option" where
  "pipe_parent s = (case pc_of s Parent of
      Begin \<Rightarrow> Some (pipe_goto Parent Close_first (pipe_say Parent ''parent'' s))
    | Close_first \<Rightarrow> Some (pipe_goto Parent Close_second (close_fd Parent Recv0 s))
    | Close_second \<Rightarrow> Some (pipe_goto Parent Transfer (close_fd Parent Send1 s))
    | Transfer \<Rightarrow>
        Some (if still_open Recv0 s then pipe_goto Parent Report (s\<lparr>content := content s @ word\<rparr>)
              else exit_process Parent Killed s)
    | Report \<Rightarrow> Some (pipe_goto Parent Waiting (pipe_say Parent ''parent2222'' s))
    | Waiting \<Rightarrow>
        (if pc_of s Child = Exited \<or> pc_of s Child = Killed then Some (exit_process Parent Exited s) else None)
    | _ \<Rightarrow> None)"

inductive pipe_step :: "one_pipe \<Rightarrow> one_pipe \<Rightarrow> bool" where
  child: "pipe_child s = Some s' \<Longrightarrow> pipe_step s s'"
| parent: "pipe_parent s = Some s' \<Longrightarrow> pipe_step s s'"

inductive_cases pipe_stepE: "pipe_step s s'"

abbreviation pipe_runs :: "nat \<Rightarrow> one_pipe \<Rightarrow> one_pipe \<Rightarrow> bool" where
  "pipe_runs n \<equiv> runs pipe_step (\<lambda>s s'. False) n 0"

text \<open>\<^verbatim>\<open>main\<close> up to the branches: the exit status when a pipe or the child cannot be made, or the state in
  which both start.\<close>

definition pipe_start :: one_pipe where
  "pipe_start = \<lparr>content = [], opened = \<lambda>w f. True, pc_of = \<lambda>w. Begin, shown = []\<rparr>"

definition pipe_main :: "bool \<Rightarrow> bool \<Rightarrow> int \<Rightarrow> int + one_pipe" where
  "pipe_main ok1 ok2 pid = (if \<not> ok1 \<or> \<not> ok2 \<or> pid = - 1 then Inl 1 else Inr pipe_start)"

section \<open>Invariant\<close>

text \<open>How many steps a process has before it at most.\<close>

fun pipe_left :: "pipe_pc \<Rightarrow> nat" where
  "pipe_left Begin = 7"
| "pipe_left Close_first = 6"
| "pipe_left Close_second = 5"
| "pipe_left Transfer = 4"
| "pipe_left (Echo c) = 3"
| "pipe_left Report = 2"
| "pipe_left Newline = 1"
| "pipe_left Waiting = 1"
| "pipe_left Exited = 0"
| "pipe_left Killed = 0"

definition pipe_rank :: "one_pipe \<Rightarrow> nat" where
  "pipe_rank s = pipe_left (pc_of s Child) + pipe_left (pc_of s Parent)"

definition pipe_lines :: "pipe_proc \<Rightarrow> one_pipe \<Rightarrow> string list" where
  "pipe_lines w s = map snd (filter (\<lambda>x. fst x = w) (shown s))"

fun pipe_child_lines :: "pipe_pc \<Rightarrow> string list" where
  "pipe_child_lines Begin = []"
| "pipe_child_lines Close_first = [''child'']"
| "pipe_child_lines Close_second = [''child'']"
| "pipe_child_lines Transfer = [''child'']"
| "pipe_child_lines (Echo c) = [''child'']"
| "pipe_child_lines Report = [''child'', ''n'']"
| "pipe_child_lines Newline = [''child'', ''n'', ''read end'']"
| "pipe_child_lines _ = [''child'', ''n'', ''read end'', ''newline'']"

fun pipe_parent_lines :: "pipe_pc \<Rightarrow> string list" where
  "pipe_parent_lines Begin = []"
| "pipe_parent_lines Waiting = [''parent'', ''parent2222'']"
| "pipe_parent_lines Exited = [''parent'', ''parent2222'']"
| "pipe_parent_lines _ = [''parent'']"

definition taken :: "one_pipe \<Rightarrow> bool" where
  "taken s \<longleftrightarrow> pipe_left (pc_of s Child) < 4"

definition written :: "one_pipe \<Rightarrow> bool" where
  "written s \<longleftrightarrow> pipe_left (pc_of s Parent) < 4"

definition pipe_inv :: "one_pipe \<Rightarrow> bool" where
  "pipe_inv s \<longleftrightarrow>
     content s = (if taken s then ''ihao'' else if written s then word else [])
     \<and> (taken s \<longrightarrow> written s)
     \<and> pipe_lines Child s = pipe_child_lines (pc_of s Child) \<and> pipe_lines Parent s = pipe_parent_lines (pc_of s Parent)
     \<and> (opened s Child Recv0 \<longleftrightarrow> pc_of s Child \<noteq> Exited) \<and> (opened s Parent Recv1 \<longleftrightarrow> pc_of s Parent \<noteq> Exited)
     \<and> (\<forall>c. pc_of s Child = Echo c \<longrightarrow> c = CHR ''n'') \<and> (\<forall>c. pc_of s Parent \<noteq> Echo c)
     \<and> pc_of s Child \<notin> {Waiting, Killed} \<and> pc_of s Parent \<notin> {Newline, Killed}
     \<and> (pc_of s Parent = Exited \<longrightarrow> pc_of s Child = Exited)"

section \<open>Lemmas\<close>

lemma pipe_state_simps [simp]:
  "content (pipe_goto w c s) = content s" "opened (pipe_goto w c s) = opened s" "shown (pipe_goto w c s) = shown s"
  "pc_of (pipe_goto w c s) = (pc_of s)(w := c)"
  "content (pipe_say w l s) = content s" "opened (pipe_say w l s) = opened s" "pc_of (pipe_say w l s) = pc_of s"
  "shown (pipe_say w l s) = shown s @ [(w, l)]"
  "content (close_fd w f s) = content s" "shown (close_fd w f s) = shown s" "pc_of (close_fd w f s) = pc_of s"
  "opened (close_fd w f s) = (opened s)(w := (opened s w)(f := False))"
  "content (exit_process w c s) = content s" "shown (exit_process w c s) = shown s"
  "pc_of (exit_process w c s) = (pc_of s)(w := c)" "opened (exit_process w c s) = (opened s)(w := (\<lambda>f. False))"
  by (simp_all add: pipe_goto_def pipe_say_def close_fd_def exit_process_def)

lemmas pipe_inv_defs = pipe_inv_def pipe_lines_def taken_def written_def word_def pipe_rank_def

lemma pipe_childE:
  assumes "pipe_child s = Some s'"
  obtains (Begin) "pc_of s Child = Begin" "s' = pipe_goto Child Close_first (pipe_say Child ''child'' s)"
  | (Close_first) "pc_of s Child = Close_first" "s' = pipe_goto Child Close_second (close_fd Child Recv1 s)"
  | (Close_second) "pc_of s Child = Close_second" "s' = pipe_goto Child Transfer (close_fd Child Send0 s)"
  | (Transfer) c r where "pc_of s Child = Transfer" "content s = c # r" "s' = pipe_goto Child (Echo c) (s\<lparr>content := r\<rparr>)"
  | (End_of_file) "pc_of s Child = Transfer" "\<not> still_open Recv1 s" "s' = pipe_goto Child Report s"
  | (Echo) c where "pc_of s Child = Echo c" "s' = pipe_goto Child Report (pipe_say Child [c] s)"
  | (Report) "pc_of s Child = Report" "s' = pipe_goto Child Newline (pipe_say Child ''read end'' s)"
  | (Newline) "pc_of s Child = Newline" "s' = exit_process Child Exited (pipe_say Child ''newline'' s)"
  using assms by (cases "pc_of s Child") (auto simp: pipe_child_def split: if_splits list.splits)

lemma pipe_parentE:
  assumes "pipe_parent s = Some s'"
  obtains (Begin) "pc_of s Parent = Begin" "s' = pipe_goto Parent Close_first (pipe_say Parent ''parent'' s)"
  | (Close_first) "pc_of s Parent = Close_first" "s' = pipe_goto Parent Close_second (close_fd Parent Recv0 s)"
  | (Close_second) "pc_of s Parent = Close_second" "s' = pipe_goto Parent Transfer (close_fd Parent Send1 s)"
  | (Transfer) "pc_of s Parent = Transfer" "still_open Recv0 s" "s' = pipe_goto Parent Report (s\<lparr>content := content s @ word\<rparr>)"
  | (No_reader) "pc_of s Parent = Transfer" "\<not> still_open Recv0 s"
  | (Report) "pc_of s Parent = Report" "s' = pipe_goto Parent Waiting (pipe_say Parent ''parent2222'' s)"
  | (Waiting) "pc_of s Parent = Waiting" "pc_of s Child = Exited \<or> pc_of s Child = Killed"
      "s' = exit_process Parent Exited s"
  using assms by (cases "pc_of s Parent") (auto simp: pipe_parent_def split: if_splits)

lemma pipe_child_inv:
  assumes i: "pipe_inv s" and c: "pipe_child s = Some s'"
  shows "pipe_inv s' \<and> pipe_rank s' < pipe_rank s"
  using c
proof (cases rule: pipe_childE)
  case (Transfer c r)
  then have "\<not> taken s" by (simp add: taken_def)
  with i have "content s = (if written s then word else [])" by (simp only: pipe_inv_def if_False simp_thms)
  with Transfer(2) have w: "written s" "c = CHR ''n''" "r = ''ihao''"
    by (cases "written s"; simp add: word_def)+
  have "pipe_rank s' < pipe_rank s" using Transfer(1,3) by (simp add: pipe_rank_def)
  moreover have "pipe_inv s'"
    using i w Transfer(1) unfolding Transfer(3) by (simp add: pipe_inv_def taken_def written_def pipe_lines_def)
  ultimately show ?thesis by simp
next
  case End_of_file
  with i have "pc_of s Parent = Exited" by (simp add: pipe_inv_def still_open_def)
  with i End_of_file(1) show ?thesis by (simp add: pipe_inv_def)
qed (use i in \<open>simp_all add: pipe_inv_defs\<close>)

lemma pipe_parent_inv:
  assumes i: "pipe_inv s" and c: "pipe_parent s = Some s'"
  shows "pipe_inv s' \<and> pipe_rank s' < pipe_rank s"
  using c
proof (cases rule: pipe_parentE)
  case Transfer
  then have "\<not> written s" by (simp add: written_def)
  with i Transfer have "\<not> taken s" by (simp add: pipe_inv_def)
  with i Transfer have "pipe_inv s'" by (simp add: pipe_inv_defs)
  moreover have "pipe_rank s' < pipe_rank s" using Transfer(1,3) by (simp add: pipe_rank_def)
  ultimately show ?thesis by simp
next
  case No_reader
  then have "\<not> written s" by (simp add: written_def)
  with i have "\<not> taken s" by (simp add: pipe_inv_def)
  with i No_reader show ?thesis by (auto simp: pipe_inv_def still_open_def taken_def)
next
  case Waiting
  with i have "pc_of s Child = Exited" by (auto simp: pipe_inv_def)
  with i Waiting show ?thesis by (simp add: pipe_inv_defs)
qed (use i in \<open>simp_all add: pipe_inv_defs\<close>)

lemma pipe_step_inv: "pipe_inv s \<Longrightarrow> pipe_step s s' \<Longrightarrow> pipe_inv s' \<and> pipe_rank s' < pipe_rank s"
  by (auto elim!: pipe_stepE dest: pipe_child_inv pipe_parent_inv)

interpretation piped: ranked_system "\<lambda>_ :: unit. pipe_inv" "\<lambda>_. pipe_rank" pipe_step "\<lambda>s s'. False" 0
  by unfold_locales (auto dest: pipe_step_inv)

lemma pipe_start_inv: "pipe_inv pipe_start" "pipe_rank pipe_start = 14"
  by (simp_all add: pipe_inv_defs pipe_start_def)

lemma pipe_stuck_ended:
  assumes i: "pipe_inv s" and n: "\<And>s'. \<not> pipe_step s s'"
  shows "pc_of s Child = Exited \<and> pc_of s Parent = Exited"
proof -
  have no: "pipe_child s = None" "pipe_parent s = None"
    using n pipe_step.intros by (metis not_None_eq)+
  have "pc_of s Parent = Waiting \<or> pc_of s Parent = Exited"
    using no(2) i by (cases "pc_of s Parent") (auto simp: pipe_parent_def pipe_inv_def split: if_splits)
  then have "written s" by (auto simp: written_def)
  have "pc_of s Child = Exited"
  proof (cases "pc_of s Child = Transfer")
    case True
    then have "content s = word" using i \<open>written s\<close> by (simp add: pipe_inv_def taken_def)
    with no(1) True show ?thesis by (simp add: pipe_child_def word_def)
  next
    case False
    with no(1) i show ?thesis by (cases "pc_of s Child") (auto simp: pipe_child_def pipe_inv_def)
  qed
  with no(2) \<open>pc_of s Parent = Waiting \<or> _\<close> show ?thesis by (auto simp: pipe_parent_def)
qed

section \<open>Properties\<close>

text \<open>C25. Whatever the order of the steps, the parent is never killed for writing to a pipe without a
  reader, parent and child cannot wait for each other, and after at most 14 steps both have
  ended: the child has printed its first line, the first letter of the word and a newline, the parent its two
  lines, and the rest of the word is left in the pipe.\<close>

theorem word_delivered:
  assumes "pipe_main True True pid = Inr s0" and "pipe_runs n s0 s"
  shows "n \<le> 14 \<and> pc_of s Parent \<noteq> Killed
    \<and> ((\<forall>s'. \<not> pipe_step s s') \<longrightarrow> pc_of s Child = Exited \<and> pc_of s Parent = Exited \<and> content s = ''ihao''
         \<and> pipe_lines Child s = [''child'', ''n'', ''read end'', ''newline'']
         \<and> pipe_lines Parent s = [''parent'', ''parent2222''])
    \<and> (\<exists>m t. pipe_runs m s t \<and> (\<forall>t'. \<not> pipe_step t t'))"
proof -
  have "s0 = pipe_start" using assms(1) by (simp add: pipe_main_def split: if_splits)
  with piped.runs_rank[OF assms(2)] pipe_start_inv have i: "pipe_inv s" "n \<le> 14" by fastforce+
  moreover have "content s = ''ihao'' \<and> pipe_lines Child s = [''child'', ''n'', ''read end'', ''newline'']
      \<and> pipe_lines Parent s = [''parent'', ''parent2222'']"
    if "pc_of s Child = Exited" "pc_of s Parent = Exited"
    using that i(1) by (simp add: pipe_inv_def taken_def)
  ultimately show ?thesis
    using pipe_stuck_ended[OF i(1)] piped.runs_to_end[OF i(1)] by (auto simp: pipe_inv_def)
qed

theorem word_delivered_witness:
  "\<exists>m t. pipe_runs m pipe_start t \<and> pc_of t Child = Exited \<and> content t = ''ihao''"
proof -
  have m: "pipe_main True True 5 = Inr pipe_start" by (simp add: pipe_main_def)
  from word_delivered[OF this runs_refl] obtain n t where t: "pipe_runs n pipe_start t" "\<forall>t'. \<not> pipe_step t t'"
    by blast
  with word_delivered[OF m t(1)] show ?thesis by blast
qed

end
