(* ===== verification/Blocked_Signal.thy ===== *)
theory Blocked_Signal
  imports Interleaving
begin

text \<open>
  \<^verbatim>\<open>net/sig/main.c\<close>: a process installs a handler for \<^verbatim>\<open>SIGFPE\<close>, blocks the signal, installs a handler for
  \<^verbatim>\<open>SIGCHLD\<close>, forks and sends \<^verbatim>\<open>SIGFPE\<close> to its child. Each process has its handlers, its mask and its
  pending signals; a child starts with those of its parent but without a pending signal. A signal that is
  pending and not blocked is delivered in a step of its own; a handler that runs ends a
  \<^verbatim>\<open>sleep\<close>.
\<close>

section \<open>State\<close>

datatype signum = SIGFPE | SIGCHLD

datatype sig_proc = Child | Parent

datatype sig_pc =
    First     \<comment> \<open>lines 29 and 34\<close>
  | Kill      \<comment> \<open>line 35, parent only\<close>
  | Sleeping  \<comment> \<open>lines 30 and 36\<close>
  | Second    \<comment> \<open>lines 31 and 37\<close>
  | Return    \<comment> \<open>line 41\<close>
  | Ended
  | Killed_by signum

text \<open>\<open>action w x\<close> is the name of the handler, \<^const>\<open>None\<close> for the default.\<close>

record sigs =
  action :: "sig_proc \<Rightarrow> signum \<Rightarrow> string option"
  blocked :: "sig_proc \<Rightarrow> signum \<Rightarrow> bool"
  pending :: "sig_proc \<Rightarrow> signum \<Rightarrow> bool"
  pc_of :: "sig_proc \<Rightarrow> sig_pc"
  shown :: "(sig_proc \<times> string) list"

section \<open>Operations\<close>

definition sig_goto :: "sig_proc \<Rightarrow> sig_pc \<Rightarrow> sigs \<Rightarrow> sigs" where
  "sig_goto w c s = s\<lparr>pc_of := (pc_of s)(w := c)\<rparr>"

definition sig_say :: "sig_proc \<Rightarrow> string \<Rightarrow> sigs \<Rightarrow> sigs" where
  "sig_say w l s = s\<lparr>shown := shown s @ [(w, l)]\<rparr>"

definition set_pending :: "sig_proc \<Rightarrow> signum \<Rightarrow> bool \<Rightarrow> sigs \<Rightarrow> sigs" where
  "set_pending w x b s = s\<lparr>pending := (pending s)(w := (pending s w)(x := b))\<rparr>"

text \<open>\<^verbatim>\<open>sigaction\<close> and \<^verbatim>\<open>sigprocmask(SIG_BLOCK, ...)\<close> of the process \<open>w\<close>.\<close>

definition sigaction :: "sig_proc \<Rightarrow> signum \<Rightarrow> string \<Rightarrow> sigs \<Rightarrow> sigs" where
  "sigaction w x h s = s\<lparr>action := (action s)(w := (action s w)(x := Some h))\<rparr>"

definition sig_block :: "sig_proc \<Rightarrow> signum set \<Rightarrow> sigs \<Rightarrow> sigs" where
  "sig_block w xs s = s\<lparr>blocked := (blocked s)(w := (\<lambda>x. blocked s w x \<or> x \<in> xs))\<rparr>"

text \<open>The child of a successful \<^verbatim>\<open>fork\<close>.\<close>

definition sig_fork :: "sigs \<Rightarrow> sigs" where
  "sig_fork s = s\<lparr>action := (action s)(Child := action s Parent), blocked := (blocked s)(Child := blocked s Parent),
     pending := (pending s)(Child := (\<lambda>x. False)), pc_of := \<lambda>w. First\<rparr>"

definition sig_kill :: "sig_proc \<Rightarrow> signum \<Rightarrow> sigs \<Rightarrow> sigs" where
  "sig_kill w x s = (if pc_of s w = Ended then s else set_pending w x True s)"

text \<open>The default action of \<^verbatim>\<open>SIGFPE\<close> ends the process, that of \<^verbatim>\<open>SIGCHLD\<close> is to ignore it.\<close>

definition deliver :: "sig_proc \<Rightarrow> signum \<Rightarrow> sigs \<Rightarrow> sigs option" where
  "deliver w x s =
     (let s1 = set_pending w x False s in
      if \<not> pending s w x \<or> blocked s w x \<or> pc_of s w = Ended \<or> (\<exists>y \<in> {SIGFPE, SIGCHLD}. pc_of s w = Killed_by y) then None
      else case action s w x of
        Some h \<Rightarrow> Some (let s2 = sig_say w h s1 in if pc_of s w = Sleeping then sig_goto w Second s2 else s2)
      | None \<Rightarrow> Some (if x = SIGFPE then sig_goto w (Killed_by x) s1 else s1))"

definition sig_child :: "sigs \<Rightarrow> sigs option" where
  "sig_child s = (case pc_of s Child of
      First \<Rightarrow> Some (sig_goto Child Sleeping (sig_say Child ''cccccc11'' s))
    | Sleeping \<Rightarrow> Some (sig_goto Child Second s)
    | Second \<Rightarrow> Some (sig_goto Child Return (sig_say Child ''cccccc22'' s))
    | Return \<Rightarrow> Some (sig_kill Parent SIGCHLD (sig_goto Child Ended s))
    | _ \<Rightarrow> None)"

definition sig_parent :: "sigs \<Rightarrow> sigs option" where
  "sig_parent s = (case pc_of s Parent of
      First \<Rightarrow> Some (sig_goto Parent Kill (sig_say Parent ''pppppp11'' s))
    | Kill \<Rightarrow> Some (sig_goto Parent Sleeping (sig_kill Child SIGFPE s))
    | Sleeping \<Rightarrow> Some (sig_goto Parent Second s)
    | Second \<Rightarrow> Some (sig_goto Parent Return (sig_say Parent ''pppppp22'' s))
    | Return \<Rightarrow> Some (sig_goto Parent Ended s)
    | _ \<Rightarrow> None)"

inductive sig_step :: "sigs \<Rightarrow> sigs \<Rightarrow> bool" where
  child: "sig_child s = Some s' \<Longrightarrow> sig_step s s'"
| parent: "sig_parent s = Some s' \<Longrightarrow> sig_step s s'"
| signum: "deliver w x s = Some s' \<Longrightarrow> sig_step s s'"

inductive_cases sig_stepE: "sig_step s s'"

abbreviation sig_runs :: "nat \<Rightarrow> sigs \<Rightarrow> sigs \<Rightarrow> bool" where
  "sig_runs n \<equiv> runs sig_step (\<lambda>s s'. False) n 0"

text \<open>\<^verbatim>\<open>main\<close> up to the branches, from the state the process was started in.\<close>

definition sig_setup :: "sigs \<Rightarrow> sigs" where
  "sig_setup s = sigaction Parent SIGCHLD ''sigchild'' (sig_block Parent {SIGFPE} (sigaction Parent SIGFPE ''sigfpe'' s))"

definition sig_main :: "int \<Rightarrow> sigs \<Rightarrow> int + sigs" where
  "sig_main pid s = (if pid < 0 then Inl (- 1) else Inr (sig_fork (sig_setup s)))"

definition fresh_process :: sigs where
  "fresh_process = \<lparr>action = \<lambda>w x. None, blocked = \<lambda>w x. False, pending = \<lambda>w x. False, pc_of = \<lambda>w. First, shown = []\<rparr>"

section \<open>Invariant\<close>

fun sig_left :: "sig_pc \<Rightarrow> nat" where
  "sig_left First = 6"
| "sig_left Kill = 5"
| "sig_left Sleeping = 4"
| "sig_left Second = 3"
| "sig_left Return = 2"
| "sig_left _ = 0"

definition sig_rank :: "sigs \<Rightarrow> nat" where
  "sig_rank s = sig_left (pc_of s Child) + sig_left (pc_of s Parent) + of_bool (pending s Parent SIGCHLD)"

definition sig_lines :: "sig_proc \<Rightarrow> sigs \<Rightarrow> string list" where
  "sig_lines w s = map snd (filter (\<lambda>x. fst x = w) (shown s))"

fun sig_child_lines :: "sig_pc \<Rightarrow> string list" where
  "sig_child_lines First = []"
| "sig_child_lines Sleeping = [''cccccc11'']"
| "sig_child_lines Second = [''cccccc11'']"
| "sig_child_lines _ = [''cccccc11'', ''cccccc22'']"

text \<open>The lines of the parent but for that of its handler.\<close>

fun sig_parent_lines :: "sig_pc \<Rightarrow> string list" where
  "sig_parent_lines First = []"
| "sig_parent_lines Return = [''pppppp11'', ''pppppp22'']"
| "sig_parent_lines Ended = [''pppppp11'', ''pppppp22'']"
| "sig_parent_lines _ = [''pppppp11'']"

definition handler_lines :: "sigs \<Rightarrow> nat" where
  "handler_lines s = count_list (sig_lines Parent s) ''sigchild''"

definition sig_inv :: "sigs \<Rightarrow> bool" where
  "sig_inv s \<longleftrightarrow>
     (\<forall>w. blocked s w SIGFPE) \<and> action s Parent SIGCHLD = Some ''sigchild''
     \<and> sig_lines Child s = sig_child_lines (pc_of s Child)
     \<and> filter (\<lambda>l. l \<noteq> ''sigchild'') (sig_lines Parent s) = sig_parent_lines (pc_of s Parent)
     \<and> handler_lines s + of_bool (pending s Parent SIGCHLD) \<le> of_bool (pc_of s Child = Ended)
     \<and> \<not> pending s Child SIGCHLD
     \<and> pc_of s Child \<noteq> Kill \<and> (\<forall>w x. pc_of s w \<noteq> Killed_by x)"

section \<open>Lemmas\<close>

lemma sig_state_simps [simp]:
  "pc_of (sig_goto w c s) = (pc_of s)(w := c)" "action (sig_goto w c s) = action s" "blocked (sig_goto w c s) = blocked s"
  "pending (sig_goto w c s) = pending s" "shown (sig_goto w c s) = shown s"
  "pc_of (sig_say w l s) = pc_of s" "action (sig_say w l s) = action s" "blocked (sig_say w l s) = blocked s"
  "pending (sig_say w l s) = pending s" "shown (sig_say w l s) = shown s @ [(w, l)]"
  "pc_of (set_pending w x b s) = pc_of s" "action (set_pending w x b s) = action s"
  "blocked (set_pending w x b s) = blocked s" "shown (set_pending w x b s) = shown s"
  "pending (set_pending w x b s) = (pending s)(w := (pending s w)(x := b))"
  by (simp_all add: sig_goto_def sig_say_def set_pending_def)

lemma sig_lines_simps [simp]:
  "sig_lines v (sig_goto w c s) = sig_lines v s" "sig_lines v (set_pending w x b s) = sig_lines v s"
  "sig_lines v (sig_say w l s) = sig_lines v s @ (if v = w then [l] else [])"
  by (simp_all add: sig_lines_def)

lemma count_list_snoc [simp]: "count_list (xs @ [y]) x = count_list xs x + of_bool (y = x)"
  by (induction xs) auto

lemmas sig_inv_defs = sig_inv_def handler_lines_def sig_rank_def

lemma sig_childE:
  assumes "sig_child s = Some s'"
  obtains (First) "pc_of s Child = First" "s' = sig_goto Child Sleeping (sig_say Child ''cccccc11'' s)"
  | (Sleeping) "pc_of s Child = Sleeping" "s' = sig_goto Child Second s"
  | (Second) "pc_of s Child = Second" "s' = sig_goto Child Return (sig_say Child ''cccccc22'' s)"
  | (Return) "pc_of s Child = Return" "s' = sig_kill Parent SIGCHLD (sig_goto Child Ended s)"
  using assms by (cases "pc_of s Child") (auto simp: sig_child_def)

lemma sig_parentE:
  assumes "sig_parent s = Some s'"
  obtains (First) "pc_of s Parent = First" "s' = sig_goto Parent Kill (sig_say Parent ''pppppp11'' s)"
  | (Kill) "pc_of s Parent = Kill" "s' = sig_goto Parent Sleeping (sig_kill Child SIGFPE s)"
  | (Sleeping) "pc_of s Parent = Sleeping" "s' = sig_goto Parent Second s"
  | (Second) "pc_of s Parent = Second" "s' = sig_goto Parent Return (sig_say Parent ''pppppp22'' s)"
  | (Return) "pc_of s Parent = Return" "s' = sig_goto Parent Ended s"
  using assms by (cases "pc_of s Parent") (auto simp: sig_parent_def)

lemma sig_child_inv: "sig_inv s \<Longrightarrow> sig_child s = Some s' \<Longrightarrow> sig_inv s' \<and> sig_rank s' < sig_rank s"
  by (erule sig_childE; simp add: sig_inv_defs sig_kill_def split: if_splits)

lemma sig_parent_inv: "sig_inv s \<Longrightarrow> sig_parent s = Some s' \<Longrightarrow> sig_inv s' \<and> sig_rank s' < sig_rank s"
  by (erule sig_parentE; simp add: sig_inv_defs sig_kill_def split: if_splits; auto)

text \<open>The one signal that is ever delivered.\<close>

lemma delivered:
  assumes i: "sig_inv s" and d: "deliver w x s = Some s'"
  shows "w = Parent \<and> x = SIGCHLD \<and> pending s Parent SIGCHLD
    \<and> (\<exists>c. s' = sig_goto Parent c (sig_say Parent ''sigchild'' (set_pending Parent SIGCHLD False s))
         \<and> c = (if pc_of s Parent = Sleeping then Second else pc_of s Parent))"
proof -
  have p: "pending s w x" "\<not> blocked s w x" using d by (auto simp: deliver_def Let_def split: if_splits)
  with i have w: "w = Parent" "x = SIGCHLD" by (cases w; cases x; auto simp: sig_inv_def)+
  have "sig_goto Parent (pc_of t Parent) t = t" for t by (simp add: sig_goto_def)
  then show ?thesis
    using d p i unfolding w
    by (auto simp: deliver_def Let_def sig_inv_def split: if_splits)
qed

lemma deliver_inv:
  assumes i: "sig_inv s" and d: "deliver w x s = Some s'"
  shows "sig_inv s' \<and> sig_rank s' < sig_rank s"
  using delivered[OF i d] i by (cases "pc_of s Parent = Sleeping") (auto simp: sig_inv_defs)

lemma sig_step_inv: "sig_inv s \<Longrightarrow> sig_step s s' \<Longrightarrow> sig_inv s' \<and> sig_rank s' < sig_rank s"
  by (auto elim!: sig_stepE dest: sig_child_inv sig_parent_inv deliver_inv)

interpretation signalled: ranked_system "\<lambda>_ :: unit. sig_inv" "\<lambda>_. sig_rank" sig_step "\<lambda>s s'. False" 0
  by unfold_locales (auto dest: sig_step_inv)

lemma sig_stuck_ended:
  assumes i: "sig_inv s" and n: "\<And>s'. \<not> sig_step s s'"
  shows "pc_of s Child = Ended \<and> pc_of s Parent = Ended"
proof -
  have "sig_child s = None" "sig_parent s = None" using n sig_step.intros by (metis not_None_eq)+
  with i show ?thesis
    by (cases "pc_of s Child"; cases "pc_of s Parent") (auto simp: sig_child_def sig_parent_def sig_inv_def)
qed

lemma sig_main_inv:
  assumes "sig_main pid s = Inr s0" "shown s = []" "\<not> pending s Parent SIGCHLD"
  shows "sig_inv s0 \<and> sig_rank s0 = 12"
proof -
  have "s0 = sig_fork (sig_setup s)" using assms(1) by (simp add: sig_main_def split: if_splits)
  then show ?thesis
    using assms(2,3)
    by (auto simp: sig_inv_defs sig_lines_def sig_fork_def sig_setup_def sigaction_def sig_block_def) (metis sig_proc.exhaust)
qed

section \<open>Properties\<close>

text \<open>C26. \<^verbatim>\<open>SIGFPE\<close> is blocked in the child too, since a child starts with the mask of its parent: in every
  interleaving the handler \<^verbatim>\<open>kill_handler\<close> never runs and the signal kills nobody. After at
  most 12 steps both processes have ended, each has printed its two lines in order, and the handler of
  \<^verbatim>\<open>SIGCHLD\<close> has run at most once, in the parent.\<close>

theorem sigfpe_never_handled:
  assumes "sig_main pid s = Inr s0" and "shown s = []" "\<not> pending s Parent SIGCHLD" and "sig_runs n s0 t"
  shows "n \<le> 12 \<and> (\<forall>w. (w, ''sigfpe'') \<notin> set (shown t)) \<and> (\<forall>w x. pc_of t w \<noteq> Killed_by x)
    \<and> handler_lines t \<le> 1
    \<and> ((\<forall>t'. \<not> sig_step t t') \<longrightarrow> pc_of t Child = Ended \<and> pc_of t Parent = Ended
         \<and> sig_lines Child t = [''cccccc11'', ''cccccc22'']
         \<and> filter (\<lambda>l. l \<noteq> ''sigchild'') (sig_lines Parent t) = [''pppppp11'', ''pppppp22''])"
proof -
  have "sig_inv s0" "sig_rank s0 = 12" using sig_main_inv[OF assms(1-3)] by simp_all
  with signalled.runs_rank[OF assms(4)] have i: "sig_inv t" and n: "n \<le> 12" by fastforce+
  have l: "l \<in> set (sig_lines w t)" if "(w, l) \<in> set (shown t)" for w l
    using that by (force simp: sig_lines_def)
  have "''sigfpe'' \<notin> set (sig_child_lines c)" "''sigfpe'' \<notin> set (sig_parent_lines c)" for c
    by (cases c; simp)+
  then have "''sigfpe'' \<notin> set (sig_lines Child t)"
    "''sigfpe'' \<notin> set (filter (\<lambda>l. l \<noteq> ''sigchild'') (sig_lines Parent t))"
    using i by (simp_all only: sig_inv_def not_False_eq_True)
  then have "''sigfpe'' \<notin> set (sig_lines w t)" for w by (cases w) auto
  with l have "(w, ''sigfpe'') \<notin> set (shown t)" for w by blast
  moreover have "handler_lines t \<le> 1" using i by (auto simp: sig_inv_def of_bool_def split: if_splits)
  ultimately show ?thesis using n i sig_stuck_ended[OF i] by (auto simp: sig_inv_def)
qed

theorem sigfpe_never_handled_witness:
  "\<exists>n t. sig_runs n (sig_fork (sig_setup fresh_process)) t \<and> pc_of t Parent = Ended
    \<and> (Child, ''sigfpe'') \<notin> set (shown t)"
proof -
  let ?s0 = "sig_fork (sig_setup fresh_process)"
  have m: "sig_main 8 fresh_process = Inr ?s0" "shown fresh_process = []" "\<not> pending fresh_process Parent SIGCHLD"
    by (simp_all add: sig_main_def fresh_process_def)
  have "sig_inv ?s0" using sig_main_inv[OF m] by simp
  from signalled.runs_to_end[OF this] obtain n t where "sig_runs n ?s0 t" "\<forall>t'. \<not> sig_step t t'" by blast
  with sigfpe_never_handled[OF m] show ?thesis by blast
qed

end
