(* ===== verification/Udp.thy ===== *)
theory Udp
  imports Sys Endian Decimal
begin

text \<open>
  The datagram programs under \<^verbatim>\<open>net/udp\<close>: the counting server \<^verbatim>\<open>udpserv.cpp\<close>, its variant
  \<^verbatim>\<open>udpservdaemon.cpp\<close> that first becomes a daemon (\<^verbatim>\<open>net/daemon/daemon.cpp\<close>), and the connected client
  \<^verbatim>\<open>udpconnectcli.cpp\<close> with \<^verbatim>\<open>sock_ntop\<close>. The loops of the programs never end; they are modelled by the
  state after any number of rounds. \<^verbatim>\<open>inet_ntop\<close>, \<^verbatim>\<open>inet_aton\<close>, the lines that are typed in and
  what \<^verbatim>\<open>fork\<close> returns are arguments.
\<close>

section \<open>Addresses as text\<close>

text \<open>\<^verbatim>\<open>snprintf\<close> cuts the text to the size of its buffer; \<^verbatim>\<open>strcat\<close> does not look at it.\<close>

definition snprintf :: "nat \<Rightarrow> string \<Rightarrow> string" where
  "snprintf n t = take (n - 1) t"

definition strcat :: "nat \<Rightarrow> string \<Rightarrow> string \<Rightarrow> string result" where
  "strcat n d t = (if length d + length t < n then Inr (d @ t) else Inl OutOfBounds)"

definition sock_ntop ::
    "(int32_t \<Rightarrow> string option) \<Rightarrow> byte_order \<Rightarrow> sockaddr_in \<Rightarrow> int \<Rightarrow> string option result" where
  "sock_ntop inet_ntop ord sa salen =
     (if sin_family sa = AF_INET
      then (case inet_ntop (s_addr sa) of
              None \<Rightarrow> Inr None
            | Some str \<Rightarrow>
                if ntohs ord (sin_port sa) \<noteq> 0
                then let portstr = snprintf 8 ('':'' @ dec_int (uint (ntohs ord (sin_port sa))))
                     in rbind (strcat 128 str portstr) (\<lambda>str. Inr (Some str))
                else Inr (Some str))
      else Inr (Some (snprintf 128
             (''sock_ntop: unknown AF_xxx: '' @ dec_int (sin_family sa) @ '', len '' @ dec_int salen))))"

section \<open>The server\<close>

record udp = sys +
  received :: int32_t

definition udp_MAXLEN :: nat where
  "udp_MAXLEN = 1024"

text \<open>\<^verbatim>\<open>main\<close> up to the loop: the listening descriptor, or the value it returns. The result of the two
  calls on the receive buffer is only printed.\<close>

definition udp_set_up ::
    "os \<Rightarrow> byte_order \<Rightarrow> (string \<Rightarrow> int \<times> int32_t) \<Rightarrow> 'a udp_scheme \<Rightarrow> int + fd \<times> 'a udp_scheme" where
  "udp_set_up os ord inet_aton s =
     (case sys_socket os s of
        (Inl _, s1) \<Rightarrow> Inl 0
      | (Inr f, s1) \<Rightarrow>
          (case sys_setsockopt os f s1 of
             (Some _, s2) \<Rightarrow> Inl 0
           | (None, s2) \<Rightarrow>
               let (ra, ip) = inet_aton ''127.0.0.1'' in
               if ra = - 1 then Inl 0
               else case sys_bind os f \<lparr>sin_family = AF_INET, sin_port = htons ord 6543, s_addr = ip\<rparr> s2 of
                 (Some _, s3) \<Rightarrow> Inl 0
               | (None, s3) \<Rightarrow>
                   Inr (f, (snd (sys_getsockopt os f (snd (sys_setsockopt os f s3))))\<lparr>received := 0\<rparr>)))"

text \<open>One round: \<^verbatim>\<open>if (n = recvfrom(...)) count++\<close>; on an error \<open>n\<close> is -1.\<close>

definition udp_round :: "os \<Rightarrow> fd \<Rightarrow> 'a udp_scheme \<Rightarrow> 'a udp_scheme" where
  "udp_round os f s =
     (let (r, s1) = sys_recvfrom os f udp_MAXLEN s;
          n = (case r of Inl _ \<Rightarrow> - 1 | Inr d \<Rightarrow> int (length d))
      in if n \<noteq> 0 then s1\<lparr>received := received s1 + 1\<rparr> else s1)"

fun udp_rounds :: "os \<Rightarrow> fd \<Rightarrow> nat \<Rightarrow> 'a udp_scheme \<Rightarrow> 'a udp_scheme" where
  "udp_rounds os f 0 s = s"
| "udp_rounds os f (Suc k) s = udp_rounds os f k (udp_round os f s)"

text \<open>\<^verbatim>\<open>main\<close> after \<open>k\<close> rounds, or its return value when it does not get to the loop.\<close>

definition udpserv_main ::
    "os \<Rightarrow> byte_order \<Rightarrow> (string \<Rightarrow> int \<times> int32_t) \<Rightarrow> nat \<Rightarrow> 'a udp_scheme \<Rightarrow> int + 'a udp_scheme" where
  "udpserv_main os ord inet_aton k s =
     (case udp_set_up os ord inet_aton s of Inl r \<Rightarrow> Inl r | Inr (f, s1) \<Rightarrow> Inr (udp_rounds os f k s1))"

section \<open>The daemon\<close>

record daemon = udp +
  session_leader :: bool
  sighup_handled :: bool
  cwd :: string
  umask_bits :: nat
  log_name :: "string option"

definition maxfd :: nat where
  "maxfd = 1024"

fun close_from :: "os \<Rightarrow> nat \<Rightarrow> nat \<Rightarrow> 'a sys_scheme \<Rightarrow> 'a sys_scheme" where
  "close_from os l 0 s = s"
| "close_from os l (Suc n) s = close_from os (Suc l) n (sys_close os (int l) s)"

text \<open>\<open>pid1\<close> and \<open>pid2\<close> are what the two \<^verbatim>\<open>fork\<close> calls return in the process that is followed; \<open>Inl\<close>
  is \<^verbatim>\<open>exit\<close>. \<^verbatim>\<open>setsid\<close> makes a session unless the process leads a group already (\<open>leads\<close>).\<close>

definition daemon_init ::
    "os \<Rightarrow> bool \<Rightarrow> int \<Rightarrow> int \<Rightarrow> string \<Rightarrow> 'a daemon_scheme \<Rightarrow> int + int \<times> 'a daemon_scheme" where
  "daemon_init os leads pid1 pid2 name s =
     (if pid1 > 0 then Inl 0
      else let s1 = s\<lparr>session_leader := \<not> leads, sighup_handled := True\<rparr> in
        if pid2 > 0 then Inl 0
        else let s2 = close_from os 0 maxfd (s1\<lparr>session_leader := (if pid2 = 0 then False else session_leader s1),
                        cwd := ''/'', umask_bits := 0\<rparr>)
             in Inr (0, s2\<lparr>log_name := Some name\<rparr>))"

definition udpservdaemon_main ::
    "os \<Rightarrow> byte_order \<Rightarrow> (string \<Rightarrow> int \<times> int32_t) \<Rightarrow> bool \<Rightarrow> int \<Rightarrow> int \<Rightarrow> string \<Rightarrow> nat \<Rightarrow> 'a daemon_scheme \<Rightarrow>
     int + 'a daemon_scheme" where
  "udpservdaemon_main os ord inet_aton leads pid1 pid2 argv0 k s =
     (case daemon_init os leads pid1 pid2 argv0 s of
        Inl r \<Rightarrow> Inl r
      | Inr (_, s1) \<Rightarrow> udpserv_main os ord inet_aton k s1)"

section \<open>The connected client\<close>

definition cli_MAXLEN :: nat where
  "cli_MAXLEN = 256"

text \<open>The argument \<^verbatim>\<open>argv[i]\<close>: a null pointer ends the vector.\<close>

definition argv_at :: "nat \<Rightarrow> string list \<Rightarrow> string result" where
  "argv_at i argv =
     (if i < length argv then Inr (argv ! i)
      else if i = length argv then Inl NullPointer else Inl OutOfBounds)"

text \<open>A character array that was cleared before \<open>d\<close> was stored in it.\<close>

definition zero_padded :: "nat \<Rightarrow> byte list \<Rightarrow> byte list" where
  "zero_padded n d = take n d @ replicate (n - length d) 0"

text \<open>What \<^verbatim>\<open>operator<<\<close> prints of an array: the bytes up to the first zero.\<close>

definition c_string :: "byte list \<Rightarrow> byte list result" where
  "c_string m = (if 0 \<in> set m then Inr (takeWhile (\<lambda>b. b \<noteq> 0) m) else Inl OutOfBounds)"

text \<open>One round; \<open>line\<close> is what \<^verbatim>\<open>getline\<close> stored, at most 255 bytes. \<open>Inl\<close> is \<^verbatim>\<open>exit\<close>; the list collects the
  replies that are printed.\<close>

definition cli_round ::
    "os \<Rightarrow> fd \<Rightarrow> sockaddr_in \<Rightarrow> byte list \<Rightarrow> 'a sys_scheme \<Rightarrow> (int + byte list \<times> 'a sys_scheme) result" where
  "cli_round os f adr line s =
     (case sys_connect os f adr s of
        (Some _, s1) \<Rightarrow> Inr (Inl 1)
      | (None, s1) \<Rightarrow>
          let s2 = snd (sys_sendto os f (zero_padded (cli_MAXLEN + 1) line) None s1);
              (r, s3) = sys_recvfrom os f cli_MAXLEN s2;
              recvbuff = zero_padded (cli_MAXLEN + 1) (case r of Inl _ \<Rightarrow> [] | Inr d \<Rightarrow> d)
          in rbind (c_string recvbuff) (\<lambda>shown. Inr (Inr (shown, s3))))"

fun cli_rounds ::
    "os \<Rightarrow> fd \<Rightarrow> sockaddr_in \<Rightarrow> byte list list \<Rightarrow> 'a sys_scheme \<Rightarrow> (int + byte list list \<times> 'a sys_scheme) result" where
  "cli_rounds os f adr [] s = Inr (Inr ([], s))"
| "cli_rounds os f adr (l # ls) s =
     rbind (cli_round os f adr l s) (\<lambda>x. case x of
         Inl r \<Rightarrow> Inr (Inl r)
       | Inr (shown, s1) \<Rightarrow> rbind (cli_rounds os f adr ls s1) (\<lambda>y. case y of
             Inl r \<Rightarrow> Inr (Inl r)
           | Inr (rest, s2) \<Rightarrow> Inr (Inr (shown # rest, s2))))"

text \<open>\<^verbatim>\<open>main\<close> after a round for each of \<open>ls\<close>. \<^verbatim>\<open>argc < 2\<close> is checked, \<^verbatim>\<open>argv[2]\<close> is used; a failed
  \<^verbatim>\<open>socket\<close> is only reported.\<close>

definition udpconnectcli_main ::
    "os \<Rightarrow> byte_order \<Rightarrow> (string \<Rightarrow> int \<times> int32_t) \<Rightarrow> string list \<Rightarrow> byte list list \<Rightarrow> 'a sys_scheme \<Rightarrow>
     (int + byte list list \<times> 'a sys_scheme) result" where
  "udpconnectcli_main os ord inet_aton argv ls s =
     (if length argv < 2 then Inr (Inl 0)
      else let (r, s1) = sys_socket os s; f = (case r of Inl _ \<Rightarrow> - 1 | Inr f \<Rightarrow> f) in
        rbind (argv_at 2 argv) (\<lambda>port.
        rbind (argv_at 1 argv) (\<lambda>ip.
          cli_rounds os f \<lparr>sin_family = AF_INET, sin_port = htons ord (of_int (atoi port)),
            s_addr = snd (inet_aton ip)\<rparr> ls s1)))"

text \<open>What a reader of the program expects to be counted: the datagrams that arrived.\<close>

fun counts :: "fd \<Rightarrow> sys_event \<Rightarrow> bool" where
  "counts f (EvRecvfrom g n (Inl e)) \<longleftrightarrow> g = f"
| "counts f (EvRecvfrom g n (Inr d)) \<longleftrightarrow> g = f \<and> d \<noteq> []"
| "counts f _ \<longleftrightarrow> False"

fun datagram :: "fd \<Rightarrow> sys_event \<Rightarrow> byte list list" where
  "datagram f (EvSendto g d a (Inr n)) = (if g = f then [d] else [])"
| "datagram f _ = []"

definition datagrams :: "fd \<Rightarrow> sys_event list \<Rightarrow> byte list list" where
  "datagrams f tr = concat (map (datagram f) tr)"

definition sample_udp :: udp where
  "sample_udp = \<lparr>trace = [], errno = 0, received = 0\<rparr>"

section \<open>Lemmas\<close>

lemma udp_round_trace: "trace (udp_round os f s) = trace s @ [EvRecvfrom f udp_MAXLEN (os_recvfrom os (trace s) f udp_MAXLEN)]"
  by (simp add: udp_round_def sys_recvfrom_def Let_def)

lemma udp_round_received:
  "received (udp_round os f s) = received s + of_nat (length (filter (counts f) (drop (length (trace s)) (trace (udp_round os f s)))))"
  unfolding udp_round_trace
  by (cases "os_recvfrom os (trace s) f udp_MAXLEN")
    (auto simp: udp_round_def sys_recvfrom_def record_call_def Let_def)

lemma udp_rounds_received:
  "\<exists>evs. trace (udp_rounds os f k s) = trace s @ evs \<and> length evs = k
     \<and> received (udp_rounds os f k s) = received s + of_nat (length (filter (counts f) evs))"
proof (induction k arbitrary: s)
  case (Suc k)
  define ev where "ev = EvRecvfrom f udp_MAXLEN (os_recvfrom os (trace s) f udp_MAXLEN)"
  have t: "trace (udp_round os f s) = trace s @ [ev]" by (simp add: udp_round_trace ev_def)
  have r: "received (udp_round os f s) = received s + of_nat (length (filter (counts f) [ev]))"
    using udp_round_received [of os f s] by (simp add: t)
  obtain evs where "trace (udp_rounds os f k (udp_round os f s)) = trace (udp_round os f s) @ evs" "length evs = k"
      "received (udp_rounds os f k (udp_round os f s)) = received (udp_round os f s) + of_nat (length (filter (counts f) evs))"
    using Suc.IH by blast
  with t r show ?case by (intro exI [of _ "ev # evs"]) (auto split: if_splits)
qed simp

lemma c_string_padded: "length d \<le> n \<Longrightarrow> c_string (zero_padded (n + 1) d) = Inr (takeWhile (\<lambda>b. b \<noteq> 0) d)"
proof -
  assume "length d \<le> n"
  then have z: "zero_padded (n + 1) d = d @ 0 # replicate (n - length d) 0"
    by (simp add: zero_padded_def Suc_diff_le)
  have "takeWhile (\<lambda>b. b \<noteq> 0) (d @ 0 # e) = takeWhile (\<lambda>b. b \<noteq> 0) d" for e
    by (induction d) auto
  with z show ?thesis by (simp add: c_string_def)
qed

lemma client_round:
  assumes c: "\<And>tr a. os_connect os tr f a = None" and snd_ok: "\<And>tr d a. \<exists>n. os_sendto os tr f d a = Inr n"
    and rcv: "\<And>tr. os_recvfrom os tr f cli_MAXLEN = Inr reply" and len: "length reply \<le> cli_MAXLEN"
  shows "\<exists>t. cli_round os f adr l s = Inr (Inr (takeWhile (\<lambda>b. b \<noteq> 0) reply, t))
    \<and> datagrams f (trace t) = datagrams f (trace s) @ [zero_padded 257 l]"
proof -
  let ?tr = "trace s @ [EvConnect f adr None]" and ?d = "zero_padded (cli_MAXLEN + 1) l"
  obtain n where n: "os_sendto os ?tr f ?d None = Inr n" using snd_ok by blast
  show ?thesis using c rcv n c_string_padded [OF len]
    by (simp add: cli_round_def sys_connect_def sys_sendto_def sys_recvfrom_def Let_def datagrams_def) (simp add: cli_MAXLEN_def)
qed

text \<open>The daemon: it returns in a process for which neither \<^verbatim>\<open>fork\<close> reported a child, also when they failed,
  and has then closed the first 1024 descriptors, one after the other.\<close>

lemma close_from_trace:
  "\<exists>rs. length rs = n \<and> trace (close_from os l n s) = trace s @ map2 (\<lambda>i r. EvClose (int i) r) [l..<l + n] rs"
proof (induction n arbitrary: l s)
  case (Suc n)
  define r where "r = os_close os (trace s) (int l)"
  obtain rs where "length rs = n" "trace (close_from os (Suc l) n (sys_close os (int l) s))
      = (trace s @ [EvClose (int l) r]) @ map2 (\<lambda>i r. EvClose (int i) r) [Suc l..<Suc l + n] rs"
    using Suc.IH [of "Suc l" "sys_close os (int l) s"] by (auto simp: sys_close_def Let_def r_def)
  then show ?case by (intro exI [of _ "r # rs"]) (simp add: upt_conv_Cons)
qed simp

lemma daemon_returns:
  fixes s :: "'a daemon_scheme"
  shows "(\<exists>t. daemon_init os leads pid1 pid2 name s = Inr (0, t)) \<longleftrightarrow> pid1 \<le> 0 \<and> pid2 \<le> 0"
    and "daemon_init os leads pid1 pid2 name s = Inr (r, t) \<Longrightarrow>
      r = 0 \<and> (\<exists>rs. length rs = 1024 \<and> trace t = trace s @ map2 (\<lambda>i r. EvClose (int i) r) [0..<1024] rs)"
proof -
  show "(\<exists>t. daemon_init os leads pid1 pid2 name s = Inr (0, t)) \<longleftrightarrow> pid1 \<le> 0 \<and> pid2 \<le> 0"
    by (simp add: daemon_init_def Let_def)
  assume "daemon_init os leads pid1 pid2 name s = Inr (r, t)"
  then obtain s2 :: "'a daemon_scheme" where "r = 0" "trace t = trace (close_from os 0 maxfd s2)" "trace s2 = trace s"
    by (auto simp: daemon_init_def Let_def split: if_splits)
  with close_from_trace [of maxfd os 0 s2]
  show "r = 0 \<and> (\<exists>rs. length rs = 1024 \<and> trace t = trace s @ map2 (\<lambda>i r. EvClose (int i) r) [0..<1024] rs)"
    by (simp add: maxfd_def)
qed

section \<open>Properties\<close>

text \<open>C40. \<^verbatim>\<open>sock_ntop\<close> is safe and exact for an internet address: the port is never cut by the 8-byte buffer
  and the text never exceeds the 128-byte one, the result is the address followed by a colon
  and the port, unless the port is 0, and \<^verbatim>\<open>atoi\<close> gets the port back from what follows the colon. Assumed
  is that \<^verbatim>\<open>inet_ntop\<close> yields at most 15 characters for an internet address.\<close>

theorem sock_ntop_text:
  fixes ord :: byte_order
  assumes "sin_family sa = AF_INET" and "inet_ntop (s_addr sa) = Some ip" and "length ip \<le> 15"
  defines "port \<equiv> unat (ntohs ord (sin_port sa))"
  shows "sock_ntop inet_ntop ord sa salen =
      Inr (Some (if port = 0 then ip else ip @ '':'' @ dec_digits port))
    \<and> atoi (dec_digits port) = int port"
proof -
  have p: "port < 65536" unfolding port_def using unsigned_less [of "ntohs ord (sin_port sa)"] by simp
  then have l: "length (dec_digits port) \<le> 5" by (intro dec_digits_length) simp_all
  have "dec_int (uint (ntohs ord (sin_port sa))) = dec_digits port"
    by (simp add: dec_int_def port_def)
  moreover have "ntohs ord (sin_port sa) \<noteq> 0 \<longleftrightarrow> port \<noteq> 0"
    unfolding port_def by (metis unsigned_eq_0_iff)
  ultimately show ?thesis
    using assms(1-3) l p atoi_dec_digits [of port]
    by (simp add: sock_ntop_def snprintf_def strcat_def Let_def)
qed

theorem sock_ntop_text_witness:
  "sock_ntop (\<lambda>a. Some ''127.0.0.1'') BigEndian \<lparr>sin_family = AF_INET, sin_port = 9999, s_addr = 1\<rparr> 16
     = Inr (Some (''127.0.0.1:'' @ dec_digits 9999))"
  using sock_ntop_text [of "\<lparr>sin_family = AF_INET, sin_port = 9999, s_addr = 1\<rparr>" "\<lambda>a. Some ''127.0.0.1''" "''127.0.0.1''" BigEndian 16]
  by simp

text \<open>What the server counts: after \<open>k\<close> rounds it has received \<open>k\<close> times, and its counter is, modulo
  \<open>2 ^ 32\<close>, the number of receives that failed or brought data. A failed receive counts as a
  datagram, because -1 is not zero, and an empty datagram does not.\<close>

theorem udp_server_count:
  assumes "udp_set_up os ord inet_aton s = Inr (f, s1)"
  shows "\<exists>t evs. udpserv_main os ord inet_aton k s = Inr t \<and> trace t = trace s1 @ evs \<and> length evs = k
    \<and> received t = of_nat (length (filter (counts f) evs))"
proof -
  have "received s1 = 0"
    using assms by (auto simp: udp_set_up_def Let_def split: prod.splits sum.splits option.splits if_splits)
  with udp_rounds_received [of os f k s1] assms show ?thesis
    by (auto simp: udpserv_main_def)
qed

theorem udp_server_count_witness:
  "\<exists>t. udpserv_main ((sample_os 5 1)\<lparr>os_recvfrom := \<lambda>tr g n. Inl EINTR\<rparr>) BigEndian (\<lambda>a. (1, 0)) 3 sample_udp = Inr t
    \<and> received t = 3"
proof -
  let ?os = "(sample_os 5 1)\<lparr>os_recvfrom := \<lambda>tr g n. Inl EINTR\<rparr>"
  obtain s1 where s1: "udp_set_up ?os BigEndian (\<lambda>a. (1, 0)) sample_udp = Inr (4, s1)"
    by (simp add: udp_set_up_def sys_socket_def sys_setsockopt_def sys_bind_def sys_getsockopt_def Let_def)
  from udp_server_count [OF s1, of 3] obtain t evs where
    t: "udpserv_main ?os BigEndian (\<lambda>a. (1, 0)) 3 sample_udp = Inr t" "trace t = trace s1 @ evs"
      "received t = of_nat (length (filter (counts 4) evs))" by blast
  have "udpserv_main ?os BigEndian (\<lambda>a. (1, 0)) 3 sample_udp = Inr (udp_rounds ?os 4 3 s1)"
    using s1 by (simp add: udpserv_main_def)
  moreover have "trace (udp_rounds ?os 4 3 s1) = trace s1 @ replicate 3 (EvRecvfrom 4 udp_MAXLEN (Inl EINTR))"
    by (simp add: numeral_3_eq_3 udp_round_trace)
  ultimately have "evs = replicate 3 (EvRecvfrom 4 udp_MAXLEN (Inl EINTR))" using t(1,2) by simp
  then show ?thesis using t by simp
qed

text \<open>The client sends each line as one datagram of 257 bytes, padded with zeros, and shows of each reply
  the bytes before the first zero; the buffer for the reply always has a zero at its end, so
  that nothing behind it is read. It does not see that the port is missing: called with one
  argument it passes a null pointer to \<^verbatim>\<open>atoi\<close>. Assumed is that the calls succeed and that
  \<^verbatim>\<open>recvfrom\<close> stores no more than it is allowed to.\<close>

theorem udp_client_rounds:
  fixes s :: "'a sys_scheme" and ord :: byte_order
  assumes sk: "os_socket os (trace s) = Inr f" and c: "\<And>tr a. os_connect os tr f a = None"
    and snd_ok: "\<And>tr d a. \<exists>n. os_sendto os tr f d a = Inr n"
    and rcv: "\<And>tr. os_recvfrom os tr f cli_MAXLEN = Inr reply" and len: "length reply \<le> cli_MAXLEN"
  shows "udpconnectcli_main os ord inet_aton [argv0, ip] ls s = Inl NullPointer
    \<and> (\<exists>t. udpconnectcli_main os ord inet_aton [argv0, ip, port] ls s
          = Inr (Inr (map (\<lambda>l. takeWhile (\<lambda>b. b \<noteq> 0) reply) ls, t))
        \<and> datagrams f (trace t) = datagrams f (trace s) @ map (zero_padded 257) ls)"
proof -
  have rounds: "\<exists>t. cli_rounds os f adr ls s1 = Inr (Inr (map (\<lambda>l. takeWhile (\<lambda>b. b \<noteq> 0) reply) ls, t))
      \<and> datagrams f (trace t) = datagrams f (trace s1) @ map (zero_padded 257) ls" for adr and s1 :: "'a sys_scheme"
  proof (induction ls arbitrary: s1)
    case (Cons l ls)
    obtain s2 where "cli_round os f adr l s1 = Inr (Inr (takeWhile (\<lambda>b. b \<noteq> 0) reply, s2))"
        "datagrams f (trace s2) = datagrams f (trace s1) @ [zero_padded 257 l]"
      using client_round [OF c snd_ok rcv len] by blast
    with Cons.IH [of s2] show ?case by auto
  qed simp
  obtain s1 where "sys_socket os s = (Inr f, s1)" "datagrams f (trace s1) = datagrams f (trace s)"
    using sk by (simp add: sys_socket_def Let_def datagrams_def)
  with rounds [of _ s1] show ?thesis
    by (simp add: udpconnectcli_main_def argv_at_def)
qed

theorem udp_client_rounds_witness:
  "\<exists>t. udpconnectcli_main ((sample_os 5 1)\<lparr>os_recvfrom := \<lambda>tr g n. Inr [104, 105, 0, 7]\<rparr>) BigEndian (\<lambda>a. (1, 0))
      [''cli'', ''127.0.0.1'', ''6543''] [[1], [2, 3]] sample_udp = Inr (Inr ([[104, 105], [104, 105]], t))
    \<and> datagrams 4 (trace t) = [zero_padded 257 [1], zero_padded 257 [2, 3]]"
  using udp_client_rounds [of "(sample_os 5 1)\<lparr>os_recvfrom := \<lambda>tr g n. Inr [104, 105, 0, 7]\<rparr>" sample_udp 4 "[104, 105, 0, 7]"
      BigEndian "\<lambda>a. (1, 0)" "''cli''" "''127.0.0.1''" "[[1], [2, 3]]" "''6543''"]
  by (simp add: cli_MAXLEN_def sample_udp_def datagrams_def)

end
