(* ===== verification/Test_Server.thy ===== *)
theory Test_Server
  imports Prelude "HOL-Library.Sublist"
begin

text \<open>
  \<^verbatim>\<open>net/test/serv.cpp\<close>, a server that forks for every connection, and the start of its client
  \<^verbatim>\<open>net/test/cli.cpp\<close>. A child is followed on the results of its \<^verbatim>\<open>read\<close>s, the parent on those of its
  \<^verbatim>\<open>accept\<close>s and \<^verbatim>\<open>fork\<close>s. All children start with the buffer as the parent left it, which never
  writes to it.
\<close>

section \<open>State\<close>

definition serv_MAXLEN :: nat where
  "serv_MAXLEN = 1024"

text \<open>A \<^verbatim>\<open>read\<close> fills the front of the buffer, or returns 0 or less. With the data comes whether the connection
  still takes an answer; otherwise \<^verbatim>\<open>write\<close> kills the child with \<^verbatim>\<open>SIGPIPE\<close>.\<close>

datatype read_result = Got "byte list" bool | Nothing

datatype serv_ending = Exit int | Blocked | Killed

record child =
  buf :: "byte list"
  lines :: "byte list list"
  answers :: nat

section \<open>The child\<close>

text \<open>\<^verbatim>\<open>cout<<buf\<close>: the bytes before the first zero.\<close>

definition serv_text :: "byte list \<Rightarrow> byte list result" where
  "serv_text b = (if 0 \<in> set b then Inr (takeWhile (\<lambda>x. x \<noteq> 0) b) else Inl OutOfBounds)"

definition recv_label :: "byte list" where
  "recv_label = map of_char ''recv:''"

definition recv_error :: "byte list" where
  "recv_error = map of_char ''recv error''"

text \<open>\<^verbatim>\<open>while(connfd)\<close>. When the results are at an end, \<^verbatim>\<open>read\<close> blocks.\<close>

fun child_loop :: "int \<Rightarrow> read_result list \<Rightarrow> child \<Rightarrow> (serv_ending \<times> child) result" where
  "child_loop connfd rs c =
     (if connfd = 0 then Inr (Exit 0, c)
      else if connfd < 0 then Inr (Exit 0, c\<lparr>lines := lines c @ [recv_error]\<rparr>)
      else case rs of
        [] \<Rightarrow> Inr (Blocked, c)
      | Nothing # rs' \<Rightarrow> Inr (Exit 0, c\<lparr>lines := lines c @ [recv_error]\<rparr>)
      | Got d w # rs' \<Rightarrow>
          rbind (store (buf c) 0 d) (\<lambda>b.
            rbind (serv_text b) (\<lambda>s.
              let c1 = c\<lparr>buf := b, lines := lines c @ [recv_label @ s]\<rparr>
              in if w then child_loop connfd rs' (c1\<lparr>answers := answers c + 1\<rparr>) else Inr (Killed, c1))))"

declare child_loop.simps [simp del]

section \<open>The parent\<close>

text \<open>One turn of \<^verbatim>\<open>while(1)\<close>: what \<^verbatim>\<open>accept\<close> returned, whether it succeeded or not, and what \<^verbatim>\<open>fork\<close> returned. The
  parent keeps the ids of its children, for which it never waits, and its connections.\<close>

record parent =
  kids :: "(int \<times> int) list"
  conns :: "int list"

fun parent_loop :: "(int \<times> int) list \<Rightarrow> parent \<Rightarrow> serv_ending \<times> parent" where
  "parent_loop [] p = (Blocked, p)"
| "parent_loop ((connfd, pid) # es) p =
     (let p1 = p\<lparr>conns := (if connfd \<ge> 0 then conns p @ [connfd] else conns p)\<rparr>
      in if pid = - 1 then (Exit 1, p1)
         else parent_loop es
           (p1\<lparr>kids := kids p @ [(pid, connfd)], conns := filter (\<lambda>fd. fd \<noteq> connfd) (conns p1)\<rparr>))"

text \<open>\<^verbatim>\<open>main\<close>: the message when a call of the start fails, or the loop; \<^verbatim>\<open>inet_aton\<close> returns 0 for a bad
  address, which is not what the code tests for.\<close>

definition serv_main :: "int \<Rightarrow> int \<Rightarrow> int \<Rightarrow> int \<Rightarrow> (int \<times> int) list \<Rightarrow> string + (serv_ending \<times> parent)" where
  "serv_main listenfd aton bound listening es =
     (if listenfd = - 1 then Inl ''sock error''
      else if aton = - 1 then Inl ''sock''
      else if bound = - 1 then Inl ''bind erro''
      else if listening = - 1 then Inl ''6543 has been listened''
      else Inr (parent_loop es \<lparr>kids = [], conns = []\<rparr>))"

section \<open>The client\<close>

definition cli_array :: nat where
  "cli_array = 256"

text \<open>The loop that fills \<^verbatim>\<open>sendbuf\<close>, an array of \<^verbatim>\<open>MAXLEN+1\<close> bytes.\<close>

fun cli_fill :: "nat \<Rightarrow> nat \<Rightarrow> byte list \<Rightarrow> byte list result" where
  "cli_fill loop 0 b = Inr b"
| "cli_fill loop (Suc n) b =
     rbind (store b loop [of_char (CHR ''a'')]) (\<lambda>b1.
       rbind (store b1 (loop + 128) [of_char (CHR ''b'')]) (cli_fill (Suc loop) n))"

text \<open>\<^verbatim>\<open>main\<close> up to its first system call: \<^const>\<open>None\<close> when it returns for want of an argument.\<close>

definition cli_start :: "nat \<Rightarrow> byte list \<Rightarrow> byte list option result" where
  "cli_start argc junk =
     (if argc < 2 then Inr None
      else rbind (cli_fill 0 128 junk) (\<lambda>b. map_sum id Some (store b 512 [0])))"

section \<open>Lemmas\<close>

text \<open>What is in the buffer after a message.\<close>

definition overlay :: "byte list \<Rightarrow> byte list \<Rightarrow> byte list" where
  "overlay b d = d @ drop (length d) b"

definition text_of :: "byte list \<Rightarrow> byte list" where
  "text_of b = takeWhile (\<lambda>x. x \<noteq> 0) b"

text \<open>The buffers after each of the messages.\<close>

fun contents :: "byte list \<Rightarrow> byte list list \<Rightarrow> byte list list" where
  "contents b [] = []"
| "contents b (d # ds) = overlay b d # contents (overlay b d) ds"

definition acceptable :: "byte list \<Rightarrow> bool" where
  "acceptable d \<longleftrightarrow> d \<noteq> [] \<and> length d \<le> serv_MAXLEN \<and> 0 \<notin> set d"

definition serv_buf_ok :: "byte list \<Rightarrow> bool" where
  "serv_buf_ok b \<longleftrightarrow> length b = serv_MAXLEN + 1 \<and> b ! serv_MAXLEN = 0"

lemma overlay_ok: "serv_buf_ok b \<Longrightarrow> acceptable d \<Longrightarrow> serv_buf_ok (overlay b d)"
  by (simp add: serv_buf_ok_def acceptable_def overlay_def nth_append)

lemma child_loop_runs:
  "serv_buf_ok (buf c) \<Longrightarrow> \<forall>d \<in> set ds. acceptable d \<Longrightarrow> 0 < connfd \<Longrightarrow>
    child_loop connfd (map (\<lambda>d. Got d True) ds @ Nothing # rs) c
      = Inr (Exit 0, \<lparr>buf = last (buf c # contents (buf c) ds),
          lines = lines c @ map (\<lambda>b. recv_label @ text_of b) (contents (buf c) ds) @ [recv_error],
          answers = answers c + length ds\<rparr>)"
proof (induction ds arbitrary: c)
  case Nil
  then show ?case by (simp add: child_loop.simps)
next
  case (Cons d ds)
  then have ok: "serv_buf_ok (overlay (buf c) d)" by (simp add: overlay_ok)
  have st: "store (buf c) 0 d = Inr (overlay (buf c) d)"
    using Cons.prems by (simp add: store_def overlay_def serv_buf_ok_def acceptable_def)
  have "0 \<in> set (overlay (buf c) d)"
    using ok by (metis serv_buf_ok_def less_add_one nth_mem)
  then have "serv_text (overlay (buf c) d) = Inr (text_of (overlay (buf c) d))"
    by (simp add: serv_text_def text_of_def)
  with Cons.IH[of "c\<lparr>buf := overlay (buf c) d, lines := lines c @ [recv_label @ text_of (overlay (buf c) d)],
      answers := answers c + 1\<rparr>"] ok st Cons.prems
  show ?case by (simp add: child_loop.simps[of connfd "_ # _"])
qed

lemma contents_nth:
  "Suc i < length ds \<Longrightarrow> contents b ds ! Suc i = overlay (contents b ds ! i) (ds ! Suc i)"
proof (induction b ds arbitrary: i rule: contents.induct)
  case (2 b d ds)
  show ?case
  proof (cases i)
    case 0
    with 2(2) show ?thesis by (cases ds) auto
  next
    case (Suc j)
    with 2 show ?thesis by simp
  qed
qed simp

lemma contents_length [simp]: "length (contents b ds) = length ds"
  by (induction b ds rule: contents.induct) auto

lemma contents_front: "i < length ds \<Longrightarrow> prefix (ds ! i) (contents b ds ! i)"
  by (induction b ds arbitrary: i rule: contents.induct) (auto simp: overlay_def nth_Cons split: nat.splits)

lemma parent_loop_forks:
  "\<forall>e \<in> set es. snd e \<noteq> - 1 \<Longrightarrow> conns p = [] \<Longrightarrow>
    parent_loop es p = (Blocked, p\<lparr>kids := kids p @ map (\<lambda>e. (snd e, fst e)) es\<rparr>)"
  by (induction es arbitrary: p) (auto simp: Let_def)

text \<open>A text without zeros at the front of the buffer is printed.\<close>

lemma text_of_prefix: "prefix d b \<Longrightarrow> 0 \<notin> set d \<Longrightarrow> prefix d (text_of b)"
proof -
  assume "prefix d b" and d: "0 \<notin> set d"
  then obtain r where b: "b = d @ r" by (auto simp: prefix_def)
  have "takeWhile (\<lambda>x. x \<noteq> 0) (d @ r) = d @ takeWhile (\<lambda>x. x \<noteq> 0) r"
    by (rule takeWhile_append2) (use d in auto)
  then show ?thesis by (simp add: text_of_def b)
qed

lemma overlay_prefix:
  assumes "prefix d b" "length d' \<le> length d"
  shows "prefix (d' @ drop (length d') d) (overlay b d')"
  using assms by (auto simp: prefix_def overlay_def)

lemma cli_fill_length: "cli_fill l n b = Inr b' \<Longrightarrow> length b' = length b"
  by (induction n arbitrary: l b) (auto simp: rbind_Inr_iff dest!: store_length)

text \<open>The client ends in undefined behaviour unless it is called without arguments.\<close>

lemma client_overruns:
  assumes "length junk = cli_array + 1"
  shows "cli_start argc junk = (if argc < 2 then Inr None else Inl OutOfBounds)"
proof (cases "cli_fill 0 128 junk")
  case (Inl e)
  have "e = OutOfBounds" if "cli_fill l n b = Inl e" for l n b
    using that by (induction n arbitrary: l b) (auto simp: rbind_def store_def split: sum.splits if_splits)
  with Inl show ?thesis by (auto simp: cli_start_def)
next
  case (Inr b)
  with cli_fill_length[OF this] assms show ?thesis by (simp add: cli_start_def store_def cli_array_def)
qed

section \<open>Properties\<close>

text \<open>The server never ends the text that it reads and never clears its buffer. Provided
  that the last byte of the uninitialised buffer happens to be zero, every message is answered and printed, but
  the printed text goes on after it: when a message is shorter than the one before, the rest of that one
  follows. When the buffer holds no zero at all, the first message already makes
  the child read past its end.\<close>

theorem stale_text_printed:
  assumes c: "serv_buf_ok (buf c)" and d: "\<forall>d \<in> set ds. acceptable d" and "0 < connfd"
  shows "(\<exists>ts e. child_loop connfd (map (\<lambda>d. Got d True) ds @ Nothing # rs) c = Inr (Exit 0, e)
      \<and> lines e = lines c @ map (\<lambda>t. recv_label @ t) ts @ [recv_error]
      \<and> length ts = length ds \<and> answers e = answers c + length ds
      \<and> (\<forall>i < length ds. prefix (ds ! i) (ts ! i))
      \<and> (\<forall>i. Suc i < length ds \<and> length (ds ! Suc i) \<le> length (ds ! i) \<longrightarrow>
           prefix (ds ! Suc i @ drop (length (ds ! Suc i)) (ds ! i)) (ts ! Suc i)))
    \<and> (\<forall>b m w. length b = serv_MAXLEN + 1 \<and> 0 \<notin> set b \<and> acceptable m \<longrightarrow>
         child_loop connfd (Got m w # rs) (c\<lparr>buf := b\<rparr>) = Inl OutOfBounds)"
proof (intro conjI allI impI)
  let ?ts = "map text_of (contents (buf c) ds)"
  have z: "0 \<notin> set (ds ! i)" if "i < length ds" for i
    using d that by (auto simp: acceptable_def)
  have "prefix (ds ! Suc i @ drop (length (ds ! Suc i)) (ds ! i)) (?ts ! Suc i)"
    if "Suc i < length ds" "length (ds ! Suc i) \<le> length (ds ! i)" for i
  proof -
    have "0 \<notin> set (ds ! Suc i @ drop (length (ds ! Suc i)) (ds ! i))"
      using z[of i] z[of "Suc i"] that in_set_dropD by fastforce
    with overlay_prefix[OF contents_front[of i ds "buf c"] that(2)] that(1) text_of_prefix show ?thesis
      by (simp add: contents_nth)
  qed
  moreover have "prefix (ds ! i) (?ts ! i)" if "i < length ds" for i
    using text_of_prefix[OF contents_front[OF that] z[OF that]] that by simp
  ultimately show "\<exists>ts e. child_loop connfd (map (\<lambda>d. Got d True) ds @ Nothing # rs) c = Inr (Exit 0, e)
      \<and> lines e = lines c @ map (\<lambda>t. recv_label @ t) ts @ [recv_error]
      \<and> length ts = length ds \<and> answers e = answers c + length ds
      \<and> (\<forall>i < length ds. prefix (ds ! i) (ts ! i))
      \<and> (\<forall>i. Suc i < length ds \<and> length (ds ! Suc i) \<le> length (ds ! i) \<longrightarrow>
           prefix (ds ! Suc i @ drop (length (ds ! Suc i)) (ds ! i)) (ts ! Suc i))"
    using child_loop_runs[OF assms, of rs] by (intro exI[of _ ?ts]) auto
next
  fix b :: "byte list" and m w
  assume a: "length b = serv_MAXLEN + 1 \<and> 0 \<notin> set b \<and> acceptable m"
  then have "store b 0 m = Inr (overlay b m)" "0 \<notin> set (overlay b m)"
    by (auto simp: store_def overlay_def acceptable_def dest: in_set_dropD)
  then show "child_loop connfd (Got m w # rs) (c\<lparr>buf := b\<rparr>) = Inl OutOfBounds"
    using \<open>0 < connfd\<close> by (simp add: child_loop.simps serv_text_def)
qed

theorem stale_text_printed_witness:
  "\<exists>t1 t2 e. child_loop 5 [Got [1, 2, 3] True, Got [4] True, Nothing] \<lparr>buf = replicate 1025 0, lines = [], answers = 0\<rparr>
      = Inr (Exit 0, e) \<and> lines e = [recv_label @ t1, recv_label @ t2, recv_error] \<and> prefix [4, 2, 3] t2"
proof -
  have "serv_buf_ok (buf \<lparr>buf = replicate 1025 0, lines = [], answers = 0\<rparr>)"
    "\<forall>d \<in> set [[1, 2, 3], [4]]. acceptable d"
    by (simp_all add: serv_buf_ok_def serv_MAXLEN_def acceptable_def)
  from stale_text_printed[OF this, of 5 "[]", THEN conjunct1] obtain ts e where
    e: "child_loop 5 [Got [1, 2, 3] True, Got [4] True, Nothing] \<lparr>buf = replicate 1025 0, lines = [], answers = 0\<rparr> = Inr (Exit 0, e)"
      "lines e = map (\<lambda>t. recv_label @ t) ts @ [recv_error]" "length ts = Suc (Suc 0)"
    and p: "prefix [4, 2, 3] (ts ! 1)"
    by auto
  from e(3) obtain t1 t2 where "ts = [t1, t2]" by (auto simp: length_Suc_conv)
  with e p show ?thesis by auto
qed

end
