(* ===== verification/Unix_Server.thy ===== *)
theory Unix_Server
  imports Sys
begin

text \<open>
  \<^verbatim>\<open>net/unixdomain/unixdomain.cpp\<close>: a server on a local socket, with its comparisons where assignments were
  meant. \<^verbatim>\<open>sockfd\<close> and \<^verbatim>\<open>n\<close> are compared with and never assigned, so that \<^verbatim>\<open>sockfd\<close> keeps the
  value it happens to have, which is a parameter, and \<^verbatim>\<open>errno\<close> is looked at after every \<^verbatim>\<open>accept\<close> that does
  not return descriptor 0. What the calls return, a value or an error number, is a parameter.
\<close>

section \<open>State\<close>

definition unix_buf_size :: nat where
  "unix_buf_size = 2046"

record unix_server =
  errno :: int
  printed :: "string list"
  sent :: "(int \<times> byte list) list"
  conns :: "int list"

text \<open>The results of the calls of one turn; \<^verbatim>\<open>send\<close> returns a number of bytes,
  and \<open>junk\<close> is what \<^verbatim>\<open>buf\<close> holds at its declaration in the body of the loop.\<close>

record turn =
  accepts :: "int + int"
  recvs :: "int + byte list"
  sends :: "int + nat"
  junk :: "byte list"

section \<open>Operations\<close>

definition print_line :: "string \<Rightarrow> unix_server \<Rightarrow> unix_server" where
  "print_line l s = s\<lparr>printed := printed s @ [l]\<rparr>"

text \<open>\<^verbatim>\<open>accept\<close>: the value of \<^verbatim>\<open>connfd\<close>. A call that succeeds leaves \<^verbatim>\<open>errno\<close> alone.\<close>

definition unix_accept :: "int + int \<Rightarrow> unix_server \<Rightarrow> int \<times> unix_server" where
  "unix_accept r s = (case r of Inl e \<Rightarrow> (- 1, s\<lparr>errno := e\<rparr>) | Inr fd \<Rightarrow> (fd, s\<lparr>conns := conns s @ [fd]\<rparr>))"

definition unix_recv :: "int + byte list \<Rightarrow> byte list \<Rightarrow> unix_server \<Rightarrow> int \<times> byte list \<times> unix_server" where
  "unix_recv r buf s = (case r of
      Inl e \<Rightarrow> (- 1, buf, s\<lparr>errno := e\<rparr>)
    | Inr d \<Rightarrow> (int (length d), d @ drop (length d) buf, s))"

definition unix_send :: "int \<Rightarrow> byte list \<Rightarrow> int + nat \<Rightarrow> unix_server \<Rightarrow> int \<times> unix_server" where
  "unix_send fd d r s = (case r of
      Inl e \<Rightarrow> (- 1, s\<lparr>errno := e\<rparr>)
    | Inr m \<Rightarrow> (int m, s\<lparr>sent := sent s @ [(fd, take m d)]\<rparr>))"

text \<open>One turn of \<^verbatim>\<open>while( 1 )\<close>; \<open>n\<close> is 0, and \<^verbatim>\<open>(n==recv(...))<0\<close> compares a truth value with 0.\<close>

definition unix_turn :: "turn \<Rightarrow> unix_server \<Rightarrow> unix_server" where
  "unix_turn t s =
     (let (connfd, s1) = unix_accept (accepts t) s in
      if connfd \<noteq> 0 \<and> errno s1 = EINTR then s1
      else let s2 = (if connfd \<noteq> 0 then print_line ''accept err'' s1 else s1);
               (r, buf, s3) = unix_recv (recvs t) (junk t) s2;
               n = 0
           in if of_bool (n = r) < (0 :: int) then print_line ''recv err'' s3
              else let (m, s4) = unix_send connfd buf (sends t) s3
                   in if m < 0 then print_line ''send err'' s4 else s4)"

definition unix_loop :: "turn list \<Rightarrow> unix_server \<Rightarrow> unix_server" where
  "unix_loop ts s = fold unix_turn ts s"

text \<open>\<^verbatim>\<open>main\<close>: \<open>garbage\<close> is the value of \<^verbatim>\<open>sockfd\<close>, \<open>bind\<close> and \<open>listen\<close> are given the descriptor, and
  \<^verbatim>\<open>signal\<close> returns the previous handler, which is 0 for the default.\<close>

definition unix_main ::
  "int \<Rightarrow> int \<Rightarrow> (int \<Rightarrow> int) \<Rightarrow> (int \<Rightarrow> int) \<Rightarrow> int \<Rightarrow> turn list \<Rightarrow> unix_server \<Rightarrow> int + unix_server" where
  "unix_main garbage socket bind listen old_handler ts s =
     (if garbage = socket then Inl (- 1)
      else if bind garbage \<noteq> 0 then Inl (- 1)
      else if listen garbage \<noteq> 0 then Inl (- 1)
      else if old_handler \<noteq> 0 then Inl (- 1)
      else Inr (unix_loop ts s))"

definition calm :: turn where
  "calm = \<lparr>accepts = Inr 7, recvs = Inl 104, sends = Inr unix_buf_size,
     junk = replicate unix_buf_size 0\<rparr>"

definition started :: unix_server where
  "started = \<lparr>errno = 0, printed = [], sent = [], conns = []\<rparr>"

section \<open>Lemmas\<close>

text \<open>A turn that accepts a connection, by the number of the last error.\<close>

lemma turn_dropped:
  "accepts t = Inr fd \<Longrightarrow> fd \<noteq> 0 \<Longrightarrow> errno s = EINTR \<Longrightarrow> unix_turn t s = s\<lparr>conns := conns s @ [fd]\<rparr>"
  by (simp add: unix_turn_def unix_accept_def)

definition unix_received :: "turn \<Rightarrow> byte list" where
  "unix_received t = (case recvs t of Inl e \<Rightarrow> junk t | Inr d \<Rightarrow> d @ drop (length d) (junk t))"

lemma turn_served:
  assumes "accepts t = Inr fd" "0 < fd" "errno s \<noteq> EINTR"
  shows "printed (unix_turn t s) = printed s @ ''accept err'' # (case sends t of Inl e \<Rightarrow> [''send err''] | Inr m \<Rightarrow> [])
    \<and> sent (unix_turn t s) = sent s @ (case sends t of Inl e \<Rightarrow> [] | Inr m \<Rightarrow> [(fd, take m (unix_received t))])
    \<and> conns (unix_turn t s) = conns s @ [fd]"
  using assms
  by (auto simp: unix_turn_def unix_accept_def unix_recv_def unix_send_def print_line_def unix_received_def Let_def split: sum.splits)

lemma loop_dropped:
  "\<forall>t \<in> set ts. \<exists>fd > 0. accepts t = Inr fd \<Longrightarrow> errno s = EINTR \<Longrightarrow>
    unix_loop ts s = s\<lparr>conns := conns s @ map (\<lambda>t. projr (accepts t)) ts\<rparr>"
proof (induction ts arbitrary: s)
  case (Cons t ts)
  then obtain fd where fd: "accepts t = Inr fd" "0 < fd" by auto
  with Cons.prems have "unix_turn t s = s\<lparr>conns := conns s @ [fd]\<rparr>" by (intro turn_dropped) auto
  with Cons fd show ?case by (simp add: unix_loop_def)
qed (simp add: unix_loop_def)

section \<open>Properties\<close>

text \<open>What the comparisons do. The program never serves the socket it has created: it returns
  when its descriptor equals the value of \<^verbatim>\<open>sockfd\<close>. If it gets to its loop at all, a connection is
  reported as an error; it is answered with the whole buffer, whatever was received and even when nothing
  was, and never closed. Once \<^verbatim>\<open>accept\<close> has been interrupted, the connections that follow are taken
  and neither answered nor closed.\<close>

theorem comparisons_for_assignments:
  "(unix_main garbage socket bind listen old ts s = Inr s' \<longrightarrow> garbage \<noteq> socket \<and> bind garbage = 0)
   \<and> (\<forall>(t :: turn) fd e. accepts t = Inr fd \<and> 0 < fd \<and> errno s \<noteq> EINTR \<and> recvs t = Inl e \<and> sends t = Inr (length (junk t)) \<longrightarrow>
        sent (unix_turn t s) = sent s @ [(fd, junk t)]
        \<and> printed (unix_turn t s) = printed s @ [''accept err''] \<and> conns (unix_turn t s) = conns s @ [fd])
   \<and> (\<forall>(t :: turn). accepts t = Inl EINTR \<and> (\<forall>u \<in> set us. \<exists>fd > 0. accepts u = Inr fd) \<longrightarrow>
        sent (unix_loop (t # us) s) = sent s \<and> printed (unix_loop (t # us) s) = printed s
        \<and> conns (unix_loop (t # us) s) = conns s @ map (\<lambda>u. projr (accepts u)) us)"
proof (intro conjI allI impI)
  show "unix_main garbage socket bind listen old ts s = Inr s' \<Longrightarrow> garbage \<noteq> socket"
    "unix_main garbage socket bind listen old ts s = Inr s' \<Longrightarrow> bind garbage = 0"
    by (auto simp: unix_main_def split: if_splits)
next
  fix t :: turn and fd e
  assume "accepts t = Inr fd \<and> 0 < fd \<and> errno s \<noteq> EINTR \<and> recvs t = Inl e \<and> sends t = Inr (length (junk t))"
  with turn_served[of t fd s] show "sent (unix_turn t s) = sent s @ [(fd, junk t)]"
    "printed (unix_turn t s) = printed s @ [''accept err'']" "conns (unix_turn t s) = conns s @ [fd]"
    by (auto simp: unix_received_def)
next
  fix t :: turn
  assume a: "accepts t = Inl EINTR \<and> (\<forall>u \<in> set us. \<exists>fd > 0. accepts u = Inr fd)"
  then have "unix_turn t s = s\<lparr>errno := EINTR\<rparr>" by (simp add: unix_turn_def unix_accept_def)
  with a loop_dropped[of us "s\<lparr>errno := EINTR\<rparr>"] show "sent (unix_loop (t # us) s) = sent s"
    "printed (unix_loop (t # us) s) = printed s"
    "conns (unix_loop (t # us) s) = conns s @ map (\<lambda>u. projr (accepts u)) us"
    by (simp_all add: unix_loop_def)
qed

theorem comparisons_for_assignments_witness:
  "sent (unix_turn calm started) = [(7, replicate unix_buf_size 0)]
   \<and> sent (unix_loop [calm\<lparr>accepts := Inl EINTR\<rparr>, calm] started) = []"
proof -
  note c = comparisons_for_assignments[of 0 0 "\<lambda>x. 0" "\<lambda>x. 0" 0 "[]" started started "[calm]"]
  have "sent (unix_turn calm started) = [(7, replicate unix_buf_size 0)]"
    using c[THEN conjunct2, THEN conjunct1, rule_format, of calm 7 104] by (simp add: calm_def started_def )
  moreover have "sent (unix_loop [calm\<lparr>accepts := Inl EINTR\<rparr>, calm] started) = []"
    using c[THEN conjunct2, THEN conjunct2, rule_format, of "calm\<lparr>accepts := Inl EINTR\<rparr>"]
    by (simp add: calm_def started_def)
  ultimately show ?thesis ..
qed

end
