(* ===== verification/Threads.thy ===== *)
theory Threads
  imports Decimal
begin

text \<open>
  \<^verbatim>\<open>net/pthread/main.c\<close>: one thread for each command-line argument, each returning an upper-cased copy of
  its argument; the main thread joins them in order and prints what they returned. The
  threads share nothing but their own \<^verbatim>\<open>thread_info\<close>, which \<^verbatim>\<open>main\<close> has filled in before it creates
  the thread, so that a thread is a function of it. What \<^verbatim>\<open>getopt\<close>, \<^verbatim>\<open>strtoul\<close> and the calls of the
  thread library return is a record of type \<open>lib\<close>.
\<close>

section \<open>State\<close>

record thread_info =
  thread_num :: int
  argv_string :: string

text \<open>An \<open>opt\<close> is one result of \<^verbatim>\<open>getopt\<close>: the option \<^verbatim>\<open>s\<close> with what \<^verbatim>\<open>strtoul\<close> makes of its argument, or an
  unknown one. \<open>strdup_ok\<close> and \<open>create\<close> are asked for each thread.\<close>

datatype opt = Stack_size nat | Unknown

record lib =
  opts :: "opt list"
  optind :: nat
  attr_init :: int
  setstacksize :: "int \<Rightarrow> int"
  calloc_ok :: bool
  create :: "nat \<Rightarrow> int"
  strdup_ok :: "nat \<Rightarrow> bool"
  attr_destroy :: int
  join :: "nat \<Rightarrow> int"

text \<open>How the process ends: \<^verbatim>\<open>EXIT_SUCCESS\<close> or \<^verbatim>\<open>EXIT_FAILURE\<close> with the message of \<^verbatim>\<open>perror\<close>.\<close>

datatype ending = Success | Failure string

section \<open>Operations\<close>

definition toupper :: "char \<Rightarrow> char" where
  "toupper c = (if (of_char c :: nat) \<in> {97..122} then char_of ((of_char c :: nat) - 32) else c)"

text \<open>\<^verbatim>\<open>for (p = uargv; *p != 0; p++) *p = toupper(*p)\<close>, on a string without its end.\<close>

function upper_loop :: "nat \<Rightarrow> string \<Rightarrow> string" where
  "upper_loop i u = (if i < length u then upper_loop (Suc i) (u[i := toupper (u ! i)]) else u)"
  by pat_completeness auto
termination
  by (relation "measure (\<lambda>(i, u). length u - i)") auto

definition thread_start :: "bool \<Rightarrow> thread_info \<Rightarrow> string option" where
  "thread_start dup_ok tinfo = (if dup_ok then Some (upper_loop 0 (argv_string tinfo)) else None)"

text \<open>The option loop: \<^verbatim>\<open>stack_size\<close> is an \<^verbatim>\<open>int\<close>.\<close>

fun options :: "opt list \<Rightarrow> int \<Rightarrow> ending + int" where
  "options [] stack_size = Inr stack_size"
| "options (Stack_size n # os) stack_size = options os (to_int32 (int n))"
| "options (Unknown # os) stack_size = Inl (Failure ''Usage'')"

text \<open>The loop that fills in \<^verbatim>\<open>tinfo[tnum]\<close> and creates the thread.\<close>

fun create_loop :: "lib \<Rightarrow> string list \<Rightarrow> nat \<Rightarrow> nat \<Rightarrow> thread_info list \<Rightarrow> ending + thread_info list" where
  "create_loop l argv tnum 0 tinfo = Inr tinfo"
| "create_loop l argv tnum (Suc k) tinfo =
     (let info = \<lparr>thread_num = int tnum + 1, argv_string = argv ! (optind l + tnum)\<rparr>
      in if create l tnum \<noteq> 0 then Inl (Failure ''pthread_create'')
         else create_loop l argv (Suc tnum) k (tinfo @ [info]))"

text \<open>The loop that joins and prints: the lines, and how it ended. A thread that cannot copy its argument ends
  the process, here at the latest time at which it can: when it is about to be joined.\<close>

fun join_loop :: "lib \<Rightarrow> nat \<Rightarrow> thread_info list \<Rightarrow> (int \<times> string) list \<Rightarrow> (int \<times> string) list \<times> ending" where
  "join_loop l tnum [] out = (out, Success)"
| "join_loop l tnum (info # infos) out =
     (case thread_start (strdup_ok l tnum) info of
        None \<Rightarrow> (out, Failure ''strdup'')
      | Some res \<Rightarrow>
          if join l tnum \<noteq> 0 then (out, Failure ''pthread_join'')
          else join_loop l (Suc tnum) infos (out @ [(thread_num info, res)]))"

definition threads_main :: "lib \<Rightarrow> string list \<Rightarrow> (int \<times> string) list \<times> ending" where
  "threads_main l argv =
     (case options (opts l) (- 1) of
        Inl e \<Rightarrow> ([], e)
      | Inr stack_size \<Rightarrow>
          if attr_init l \<noteq> 0 then ([], Failure ''pthread_attr_init'')
          else if stack_size > 0 \<and> setstacksize l stack_size \<noteq> 0 then ([], Failure ''pthread_attr_setstacksize'')
          else if \<not> calloc_ok l then ([], Failure ''calloc'')
          else case create_loop l argv 0 (length argv - optind l) [] of
            Inl e \<Rightarrow> ([], e)
          | Inr tinfo \<Rightarrow>
              if attr_destroy l \<noteq> 0 then ([], Failure ''pthread_attr_destroy'')
              else join_loop l 0 tinfo [])"

text \<open>The lines that a complete run prints.\<close>

definition all_lines :: "lib \<Rightarrow> string list \<Rightarrow> (int \<times> string) list" where
  "all_lines l argv =
     map (\<lambda>t. (int t + 1, map toupper (argv ! (optind l + t)))) [0..<length argv - optind l]"

definition sample_lib :: lib where
  "sample_lib = \<lparr>opts = [Stack_size 4096], optind = 3, attr_init = 0, setstacksize = \<lambda>n. 0, calloc_ok = True,
     create = \<lambda>t. 0, strdup_ok = \<lambda>t. True, attr_destroy = 0, join = \<lambda>t. 0\<rparr>"

section \<open>Lemmas\<close>

declare upper_loop.simps [simp del]

lemma upper_loop_map: "i \<le> length u \<Longrightarrow> upper_loop i u = take i u @ map toupper (drop i u)"
proof (induction i u rule: upper_loop.induct)
  case (1 i u)
  show ?case
  proof (cases "i < length u")
    case True
    then have "upper_loop i u = take (Suc i) (u[i := toupper (u ! i)]) @ map toupper (drop (Suc i) (u[i := toupper (u ! i)]))"
      using 1 by (subst upper_loop.simps) simp
    with True show ?thesis
      by (simp add: take_Suc_conv_app_nth flip: Cons_nth_drop_Suc)
  next
    case False
    with 1(2) show ?thesis by (subst upper_loop.simps) simp
  qed
qed

lemma thread_start_upper: "thread_start True info = Some (map toupper (argv_string info))"
  by (simp add: thread_start_def upper_loop_map)

lemma create_loop_all:
  "(\<forall>t. create l t = 0) \<Longrightarrow> create_loop l argv tnum k tinfo = Inr (tinfo @ map
     (\<lambda>t. \<lparr>thread_num = int t + 1, argv_string = argv ! (optind l + t)\<rparr>) [tnum..<tnum + k])"
  by (induction k arbitrary: tnum tinfo) (simp_all add: upt_conv_Cons del: upt_Suc)

lemma join_loop_all:
  "(\<forall>t. strdup_ok l t) \<Longrightarrow> (\<forall>t. join l t = 0) \<Longrightarrow> join_loop l tnum infos out =
     (out @ map (\<lambda>i. (thread_num i, map toupper (argv_string i))) infos, Success)"
  by (induction infos arbitrary: tnum out) (simp_all add: thread_start_upper)

lemma join_loop_prefix:
  "\<exists>k. fst (join_loop l tnum infos out)
     = out @ map (\<lambda>i. (thread_num i, map toupper (argv_string i))) (take k infos)"
proof (induction infos arbitrary: tnum out)
  case (Cons info infos)
  show ?case
  proof (cases "strdup_ok l tnum \<and> join l tnum = 0")
    case True
    with Cons.IH [of "Suc tnum" "out @ [(thread_num info, map toupper (argv_string info))]"] obtain k where
      "fst (join_loop l tnum (info # infos) out)
         = out @ map (\<lambda>i. (thread_num i, map toupper (argv_string i))) (take (Suc k) (info # infos))"
      by (auto simp: thread_start_upper)
    then show ?thesis by blast
  next
    case False
    then show ?thesis
      by (intro exI [of _ 0]) (cases "strdup_ok l tnum"; simp add: thread_start_upper; simp add: thread_start_def)
  qed
qed simp

section \<open>Properties\<close>

text \<open>The program prints the upper-cased arguments in the order of the command line, numbered from one,
  whatever the threads' speed: all of them and ends with success when no call fails, and
  otherwise the first few of them.\<close>

theorem threads_results:
  assumes "\<forall>t. create l t = 0" and "Unknown \<notin> set (opts l)" and "attr_init l = 0" "calloc_ok l" "attr_destroy l = 0"
    and "\<And>n. setstacksize l n = 0"
  shows "(\<exists>k. fst (threads_main l argv) = take k (all_lines l argv))
    \<and> ((\<forall>t. strdup_ok l t) \<and> (\<forall>t. join l t = 0) \<longrightarrow> threads_main l argv = (all_lines l argv, Success))"
proof -
  let ?infos = "map (\<lambda>t. \<lparr>thread_num = int t + 1, argv_string = argv ! (optind l + t)\<rparr>) [0..<length argv - optind l]"
  have "\<exists>n. options os m = Inr n" if "Unknown \<notin> set os" for os m
    using that by (induction os m rule: options.induct) auto
  then obtain n where "options (opts l) (- 1) = Inr n" using assms(2) by blast
  then have m: "threads_main l argv = join_loop l 0 ?infos []"
    using assms(3-6) create_loop_all [OF assms(1), of argv 0 "length argv - optind l" "[]"]
    by (simp add: threads_main_def)
  have a: "all_lines l argv = map (\<lambda>i. (thread_num i, map toupper (argv_string i))) ?infos"
    by (simp add: all_lines_def)
  show ?thesis
    unfolding m a using join_loop_prefix [of l 0 ?infos "[]"] join_loop_all [of l 0 ?infos "[]"]
    by (auto simp: take_map)
qed

theorem threads_results_witness:
  "threads_main sample_lib [''main'', ''-s'', ''4096'', ''hello'', ''you'']
     = ([(1, ''HELLO''), (2, ''YOU'')], Success)"
proof -
  have "all_lines sample_lib [''main'', ''-s'', ''4096'', ''hello'', ''you''] = [(1, ''HELLO''), (2, ''YOU'')]"
    by code_simp
  then show ?thesis
    using threads_results [of sample_lib "[''main'', ''-s'', ''4096'', ''hello'', ''you'']"] by (simp add: sample_lib_def)
qed

end
