(* ===== verification/Pipes.thy ===== *)
theory Pipes
  imports Prelude
begin

text \<open>
  Process trees: \<^verbatim>\<open>net/fork.cpp\<close>, in which every process forks in every round, and \<^verbatim>\<open>net/pipe/pipe2.cpp\<close>, in
  which a parent creates three pairs of pipes and a child for each, and writes to each child.
  A process has the set of pipe ends it has open; a child starts with those its parent has at the
  \<^verbatim>\<open>fork\<close>. What \<^verbatim>\<open>fork\<close> and \<^verbatim>\<open>pipe\<close> return is an argument. Only the parent writes to a
  pipe and only one child reads from it, after it has slept, so that the parent and its children
  can be followed one after the other.
\<close>

section \<open>fork.cpp\<close>

definition fork_MAX_PID_CNT :: nat where
  "fork_MAX_PID_CNT = 2"

datatype line = Parent_start nat | Child_start nat | Round_end

text \<open>A process from round \<open>loop\<close> on, with \<open>rounds\<close> to go: the lines it prints, and the same of all its
  descendants. \<open>forks p loop\<close> tells whether the \<^verbatim>\<open>fork\<close> of process \<open>p\<close> in that round succeeds; a
  process is named by the rounds in which its ancestors and it were created.\<close>

fun fork_rounds :: "(nat list \<Rightarrow> nat \<Rightarrow> bool) \<Rightarrow> nat list \<Rightarrow> nat \<Rightarrow> nat \<Rightarrow> line list \<Rightarrow> (nat list \<times> line list) list" where
  "fork_rounds forks p loop 0 out = [(p, out)]"
| "fork_rounds forks p loop (Suc rounds) out =
     (if forks p loop
      then fork_rounds forks p (Suc loop) rounds (out @ [Parent_start loop, Round_end])
        @ fork_rounds forks (p @ [loop]) (Suc loop) rounds [Child_start loop, Round_end]
      else fork_rounds forks p (Suc loop) rounds (out @ [Round_end]))"

definition fork_main :: "(nat list \<Rightarrow> nat \<Rightarrow> bool) \<Rightarrow> (nat list \<times> line list) list" where
  "fork_main forks = fork_rounds forks [] 0 fork_MAX_PID_CNT []"

section \<open>pipe2.cpp\<close>

text \<open>\<open>Recv i j\<close> is \<^verbatim>\<open>pinfo[i].recv_pipefd[j]\<close> and \<open>Send i j\<close> is \<^verbatim>\<open>pinfo[i].send_pipefd[j]\<close>; end 0 reads and end
  1 writes.\<close>

datatype pipe_end = Recv nat nat | Send nat nat

definition pipe_MAX_PID_CNT :: nat where
  "pipe_MAX_PID_CNT = 3"

record pipes =
  open_ends :: "pipe_end list"
  contents :: "nat \<Rightarrow> byte list"
  children :: "(nat \<times> pipe_end list) list"

definition close_end :: "pipe_end \<Rightarrow> pipe_end list \<Rightarrow> pipe_end list" where
  "close_end e t = filter (\<lambda>f. f \<noteq> e) t"

text \<open>The first loop: all pipes, or \<open>None\<close> when \<^verbatim>\<open>pipe\<close> fails and \<^verbatim>\<open>main\<close> returns -1.\<close>

fun make_pipes :: "(nat \<Rightarrow> bool) \<Rightarrow> (nat \<Rightarrow> bool) \<Rightarrow> nat \<Rightarrow> nat \<Rightarrow> pipe_end list \<Rightarrow> pipe_end list option" where
  "make_pipes ok1 ok2 loop 0 t = Some t"
| "make_pipes ok1 ok2 loop (Suc n) t =
     (if ok1 loop \<and> ok2 loop
      then make_pipes ok1 ok2 (Suc loop) n (t @ [Recv loop 0, Recv loop 1, Send loop 0, Send loop 1]) else None)"

text \<open>What a child closes.\<close>

fun child_closes :: "nat \<Rightarrow> nat \<Rightarrow> nat \<Rightarrow> pipe_end list \<Rightarrow> pipe_end list" where
  "child_closes loop i 0 t = t"
| "child_closes loop i (Suc n) t =
     child_closes loop (Suc i) n
       (if i \<noteq> loop then close_end (Recv i 1) (close_end (Recv i 0) t) else close_end (Recv i 1) t)"

definition father :: "byte list" where
  "father = map of_char ''i am your father''"

text \<open>The second loop, in the parent: \<open>pid loop\<close> is what \<^verbatim>\<open>fork\<close> returns; \<open>False\<close> when it fails and \<^verbatim>\<open>main\<close>
  returns -1. The child is entered with the ends it has left.\<close>

fun fork_children :: "(nat \<Rightarrow> int) \<Rightarrow> nat \<Rightarrow> nat \<Rightarrow> pipes \<Rightarrow> bool \<times> pipes" where
  "fork_children pid loop 0 s = (True, s)"
| "fork_children pid loop (Suc n) s =
     (if pid loop > 0
      then fork_children pid (Suc loop) n
        (s\<lparr>children := children s @ [(loop, child_closes loop 0 pipe_MAX_PID_CNT (open_ends s))],
           open_ends := close_end (Recv loop 0) (open_ends s),
           contents := (contents s)(loop := contents s loop @ father)\<rparr>)
      else (False, s))"

definition pipe2_main :: "(nat \<Rightarrow> bool) \<Rightarrow> (nat \<Rightarrow> bool) \<Rightarrow> (nat \<Rightarrow> int) \<Rightarrow> int \<times> pipes" where
  "pipe2_main ok1 ok2 pid =
     (let none = \<lparr>open_ends = [], contents = (\<lambda>i. []), children = []\<rparr> in
      case make_pipes ok1 ok2 0 pipe_MAX_PID_CNT [] of
        None \<Rightarrow> (- 1, none)
      | Some t \<Rightarrow>
          (case fork_children pid 0 pipe_MAX_PID_CNT (none\<lparr>open_ends := t\<rparr>) of
             (ok, s) \<Rightarrow> (if ok then 0 else - 1, s)))"

text \<open>The child at its \<^verbatim>\<open>read(pinfo[loop].recv_pipefd[0], buf, 1)\<close>: \<open>None\<close> on an error, otherwise what is printed
  of \<open>buf\<close>, the rest of which holds \<open>junk\<close>.\<close>

definition child_read :: "nat \<Rightarrow> pipe_end list \<Rightarrow> (nat \<Rightarrow> byte list) \<Rightarrow> byte list \<Rightarrow> byte list result option" where
  "child_read loop t cont junk =
     (if Recv loop 0 \<notin> set t then None
      else let buf = take 1 (cont loop) @ junk
           in Some (if 0 \<in> set buf then Inr (takeWhile (\<lambda>b. b \<noteq> 0) buf) else Inl OutOfBounds))"

definition ends_of :: "pipe_end list \<Rightarrow> pipe_end set" where
  "ends_of t = {e \<in> set t. case e of Recv i j \<Rightarrow> True | Send i j \<Rightarrow> False}"

section \<open>Lemmas\<close>

lemma fork_rounds_all:
  "(\<And>p l. forks p l) \<Longrightarrow> length (fork_rounds forks p loop rounds out) = 2 ^ rounds
   \<and> length (filter ((=) Round_end) (concat (map snd (fork_rounds forks p loop rounds out)))) + 2
       = length (filter ((=) Round_end) out) + 2 ^ (rounds + 1)"
proof (induction rounds arbitrary: p loop out)
  case (Suc rounds)
  from Suc.IH [OF Suc.prems, of p "Suc loop" "out @ [Parent_start loop, Round_end]"]
    Suc.IH [OF Suc.prems, of "p @ [loop]" "Suc loop" "[Child_start loop, Round_end]"] Suc.prems
  show ?case by simp
qed simp

lemma fork_rounds_bound: "length (fork_rounds forks p loop rounds out) \<le> 2 ^ rounds"
proof (induction rounds arbitrary: p loop out)
  case (Suc rounds)
  from Suc.IH [of p "Suc loop" "out @ [Parent_start loop, Round_end]"]
    Suc.IH [of "p @ [loop]" "Suc loop" "[Child_start loop, Round_end]"] Suc.IH [of p "Suc loop" "out @ [Round_end]"]
  show ?case by simp
qed simp

lemma ends_of_simps [simp]:
  "ends_of [] = {}" "ends_of (Recv i j # t) = insert (Recv i j) (ends_of t)" "ends_of (Send i j # t) = ends_of t"
  by (auto simp: ends_of_def)

lemma pipe2_result:
  assumes "\<And>i. ok1 i \<and> ok2 i" and "\<And>i. pid i > 0"
  shows "pipe2_main ok1 ok2 pid = (0, \<lparr>open_ends = [Recv 0 1, Send 0 0, Send 0 1, Recv 1 1, Send 1 0, Send 1 1, Recv 2 1, Send 2 0, Send 2 1],
    contents = (\<lambda>i. [])(0 := father, 1 := father, 2 := father),
    children = [(0, [Recv 0 0, Send 0 0, Send 0 1, Send 1 0, Send 1 1, Send 2 0, Send 2 1]),
      (1, [Send 0 0, Send 0 1, Recv 1 0, Send 1 0, Send 1 1, Send 2 0, Send 2 1]),
      (2, [Send 0 0, Send 0 1, Send 1 0, Send 1 1, Recv 2 0, Send 2 0, Send 2 1])]\<rparr>)"
  using assms
  by (simp add: pipe2_main_def pipe_MAX_PID_CNT_def numeral_3_eq_3 numeral_2_eq_2 close_end_def)

section \<open>Properties\<close>

text \<open>The process trees. When every \<^verbatim>\<open>fork\<close> of \<^verbatim>\<open>fork.cpp\<close> succeeds, four processes end and six rounds are
  reported; there are never more than four. In \<^verbatim>\<open>pipe2.cpp\<close>, when all calls succeed, every child is
  left with the reading end of its own pipe and no other end of the pipes from the
  parent, the parent with the writing ends, and every child finds the message. But a child prints its
  buffer after storing a single byte in it: without a zero in what the buffer held before, it
  reads past its end.\<close>

theorem process_trees:
  assumes "\<And>i. ok1 i \<and> ok2 i" and "\<And>i. pid i > 0" and "\<And>p l. forks p l"
  defines "s \<equiv> snd (pipe2_main ok1 ok2 pid)"
  shows "length (fork_main forks) = 4 \<and> length (filter ((=) Round_end) (concat (map snd (fork_main forks)))) = 6
    \<and> (\<forall>any. length (fork_main any) \<le> 4)
    \<and> fst (pipe2_main ok1 ok2 pid) = 0 \<and> map fst (children s) = [0, 1, 2] \<and> ends_of (open_ends s) = {Recv 0 1, Recv 1 1, Recv 2 1}
    \<and> (\<forall>(i, t) \<in> set (children s). ends_of t = {Recv i 0} \<and> contents s i = father
         \<and> (\<forall>junk. 0 \<notin> set junk \<longrightarrow> child_read i t (contents s) junk = Some (Inl OutOfBounds)))"
proof -
  have "hd father \<noteq> 0" "father \<noteq> []" by (simp_all add: father_def)
  then have f: "take (Suc 0) father = [hd father]" "hd father \<noteq> 0" by (simp_all add: take_Suc)
  have "length (fork_main any) \<le> 4" for any
    using fork_rounds_bound [of any "[]" 0 2 "[]"] by (simp add: fork_main_def fork_MAX_PID_CNT_def)
  then show ?thesis
    using fork_rounds_all [of forks "[]" 0 2 "[]"] pipe2_result [of ok1 ok2 pid] assms(1-3) f
    by (simp add: s_def fork_main_def fork_MAX_PID_CNT_def child_read_def Let_def)
qed

theorem process_trees_witness:
  "length (fork_main (\<lambda>p l. True)) = 4
   \<and> map fst (children (snd (pipe2_main (\<lambda>i. True) (\<lambda>i. True) (\<lambda>i. 7 + int i)))) = [0, 1, 2]"
  using process_trees [of "\<lambda>i. True" "\<lambda>i. True" "\<lambda>i. 7 + int i" "\<lambda>p l. True"] by simp

end
