(* ===== verification/Stl.thy ===== *)
theory Stl
  imports Prelude
begin

text \<open>
  \<^verbatim>\<open>c++/stl.cpp\<close>: containers of integers that are printed and from which values are removed in three ways:
  with the algorithm \<^verbatim>\<open>std::remove\<close> and \<^verbatim>\<open>erase\<close>, with a loop over iterators, and with \<^verbatim>\<open>list::remove\<close>. An
  iterator of a vector is the index of its element. The capacities that are printed are not
  specified and not modelled.
\<close>

section \<open>Operations\<close>

text \<open>\<^verbatim>\<open>std::remove\<close>: \<open>r\<close> walks over the elements and \<open>w\<close> is where the next one that is kept goes. The result is
  \<open>w\<close> and the elements, of which those from \<open>w\<close> on are left as they are.\<close>

function std_remove :: "int \<Rightarrow> nat \<Rightarrow> nat \<Rightarrow> int list \<Rightarrow> nat \<times> int list" where
  "std_remove x r w v =
     (if r < length v
      then if v ! r = x then std_remove x (Suc r) w v
           else std_remove x (Suc r) (Suc w) (v[w := v ! r])
      else (w, v))"
  by pat_completeness auto
termination
  by (relation "measure (\<lambda>(x, r, w, v). length v - r)") auto

text \<open>\<^verbatim>\<open>erase(first, last)\<close> and \<^verbatim>\<open>erase(it)\<close>.\<close>

definition erase_range :: "nat \<Rightarrow> nat \<Rightarrow> int list \<Rightarrow> int list result" where
  "erase_range i j v = (if i \<le> j \<and> j \<le> length v then Inr (take i v @ drop j v) else Inl OutOfBounds)"

definition erase_at :: "nat \<Rightarrow> int list \<Rightarrow> int list result" where
  "erase_at i v = (if i < length v then Inr (take i v @ drop (Suc i) v) else Inl OutOfBounds)"

definition erase_remove :: "int \<Rightarrow> int list \<Rightarrow> int list result" where
  "erase_remove x v = (let (w, v') = std_remove x 0 0 v in erase_range w (length v') v')"

text \<open>The loop of lines 63 to 69: \<^verbatim>\<open>it\<close> stays where it is after an \<^verbatim>\<open>erase\<close>.\<close>

function erase_loop :: "int \<Rightarrow> nat \<Rightarrow> int list \<Rightarrow> int list result" where
  "erase_loop x i v =
     (if i = length v then Inr v
      else if \<not> i < length v then Inl OutOfBounds
      else if v ! i = x then (case erase_at i v of Inl e \<Rightarrow> Inl e | Inr v' \<Rightarrow> erase_loop x i v')
      else erase_loop x (Suc i) v)"
  by pat_completeness auto
termination
  by (relation "measure (\<lambda>(x, i, v). length v - i)") (auto simp: erase_at_def split: if_splits)

text \<open>\<^verbatim>\<open>list::remove\<close>.\<close>

definition list_remove :: "int \<Rightarrow> int list \<Rightarrow> int list" where
  "list_remove x l = filter (\<lambda>y. y \<noteq> x) l"

definition initial :: "int list" where
  "initial = [1, 1, 2, 2, 3, 3, 4, 4, 5, 6]"

text \<open>\<^verbatim>\<open>for (int i = 0; i <= 10; i++) s.insert(i)\<close>, and the set in the order in which it is traversed.\<close>

definition the_set :: "int list" where
  "the_set = sorted_list_of_set (set [0..10])"

text \<open>The sequences that \<^verbatim>\<open>main\<close> prints, with the vector at the end (it is swapped with an empty one).\<close>

definition stl_main :: "(int list list \<times> int list) result" where
  "stl_main =
     rbind (erase_remove 3 initial) (\<lambda>v1.
     rbind (erase_loop 4 0 v1) (\<lambda>v2.
       Inr ([initial, initial, the_set, v1, v2, list_remove 3 initial], [])))"

section \<open>Lemmas\<close>

declare std_remove.simps [simp del] erase_loop.simps [simp del]

text \<open>What is before \<open>w\<close> are the elements that were kept, and what is from \<open>r\<close> on has not been touched.\<close>

lemma std_remove_keeps:
  assumes "w \<le> r" "r \<le> length v"
  shows "let (w', v') = std_remove x r w v in
    length v' = length v \<and> w' \<le> length v \<and> take w' v' = take w v @ filter (\<lambda>y. y \<noteq> x) (drop r v)"
  using assms
proof (induction x r w v rule: std_remove.induct)
  case (1 x r w v)
  show ?case
  proof (cases "r < length v")
    case True
    then have d: "drop r v = v ! r # drop (Suc r) v" by (simp add: Cons_nth_drop_Suc)
    show ?thesis
    proof (cases "v ! r = x")
      case eq: True
      with True 1 d show ?thesis by (subst std_remove.simps) simp
    next
      case False
      have "drop (Suc r) (v[w := v ! r]) = drop (Suc r) v" using 1(3) by simp
      moreover have "take (Suc w) (v[w := v ! r]) = take w v @ [v ! r]"
        using True 1(3) by (simp add: take_Suc_conv_app_nth)
      ultimately show ?thesis using True False 1 d by (subst std_remove.simps) simp
    qed
  next
    case False
    with 1 show ?thesis by (subst std_remove.simps) simp
  qed
qed

lemma erase_remove_filter: "erase_remove x v = Inr (filter (\<lambda>y. y \<noteq> x) v)"
  using std_remove_keeps [of 0 0 v x] by (auto simp: erase_remove_def erase_range_def Let_def split: prod.splits)

lemma erase_loop_filter:
  "i \<le> length v \<Longrightarrow> erase_loop x i v = Inr (take i v @ filter (\<lambda>y. y \<noteq> x) (drop i v))"
proof (induction x i v rule: erase_loop.induct)
  case (1 x i v)
  show ?case
  proof (cases "i = length v")
    case True
    then show ?thesis by (subst erase_loop.simps) simp
  next
    case False
    then have i: "i < length v" using 1(3) by simp
    then have d: "drop i v = v ! i # drop (Suc i) v" by (simp add: Cons_nth_drop_Suc)
    show ?thesis
    proof (cases "v ! i = x")
      case True
      with i have "erase_loop x i v = erase_loop x i (take i v @ drop (Suc i) v)"
        by (subst erase_loop.simps) (simp add: erase_at_def)
      also have "\<dots> = Inr (take i v @ filter (\<lambda>y. y \<noteq> x) (drop (Suc i) v))"
        using 1(1) [OF False] i True by (simp add: erase_at_def)
      finally show ?thesis using d True by simp
    next
      case neq: False
      with i have "erase_loop x i v = erase_loop x (Suc i) v" by (subst erase_loop.simps) simp
      also have "\<dots> = Inr (take (Suc i) v @ filter (\<lambda>y. y \<noteq> x) (drop (Suc i) v))"
        using 1(2) [OF False] i neq by simp
      finally show ?thesis using d neq i by (simp add: take_Suc_conv_app_nth)
    qed
  qed
qed

section \<open>Properties\<close>

text \<open>The three ways to remove a value are the same: \<^verbatim>\<open>std::remove\<close> with \<^verbatim>\<open>erase\<close>, the loop over iterators and
  \<^verbatim>\<open>list::remove\<close> all end, stay inside the container, and leave the other elements in their order.
  The program prints the sequences without threes and fours accordingly.\<close>

theorem removals_agree:
  "erase_remove x v = Inr (list_remove x v) \<and> erase_loop x 0 v = Inr (list_remove x v)
   \<and> stl_main = Inr ([initial, initial, [0..10], [1, 1, 2, 2, 4, 4, 5, 6], [1, 1, 2, 2, 5, 6], [1, 1, 2, 2, 4, 4, 5, 6]], [])"
proof (intro conjI)
  show "stl_main = Inr ([initial, initial, [0..10], [1, 1, 2, 2, 4, 4, 5, 6], [1, 1, 2, 2, 5, 6], [1, 1, 2, 2, 4, 4, 5, 6]], [])"
    by (simp add: stl_main_def erase_remove_filter erase_loop_filter initial_def list_remove_def the_set_def)
qed (simp_all add: erase_remove_filter erase_loop_filter list_remove_def)

end
