(* ===== verification/Singletons.thy ===== *)
theory Singletons
  imports Main
begin

text \<open>
  \<^verbatim>\<open>c++/singeleton.cpp\<close>: two singletons, each a static local variable of \<^verbatim>\<open>instance\<close> that a static
  member \<^verbatim>\<open>create_object_\<close> creates before \<^verbatim>\<open>main\<close>. The constructor of the one uses the other. A static
  local variable is initialised when control passes its declaration for the first time; to come back
  to the declaration in the course of the initialisation is undefined, here \<^const>\<open>None\<close>.
\<close>

section \<open>State\<close>

datatype static_local = Untouched | Initialising | Initialised

datatype cls = QMManager | QMSqlite

record singletons =
  local_of :: "cls \<Rightarrow> static_local"
  printed :: "string list"

definition puts :: "string \<Rightarrow> singletons \<Rightarrow> singletons" where
  "puts l s = s\<lparr>printed := printed s @ [l]\<rparr>"

definition mark :: "cls \<Rightarrow> static_local \<Rightarrow> singletons \<Rightarrow> singletons" where
  "mark c v s = s\<lparr>local_of := (local_of s)(c := v)\<rparr>"

text \<open>The declaration \<^verbatim>\<open>static C instance;\<close> for a class with the given constructor.\<close>

definition static_decl :: "cls \<Rightarrow> (singletons \<Rightarrow> singletons option) \<Rightarrow> singletons \<Rightarrow> singletons option" where
  "static_decl c ctor s =
     (case local_of s c of
        Initialised \<Rightarrow> Some s
      | Initialising \<Rightarrow> None
      | Untouched \<Rightarrow> map_option (mark c Initialised) (ctor (mark c Initialising s)))"

section \<open>Operations\<close>

definition QMSqlite_constructor :: "singletons \<Rightarrow> singletons option" where
  "QMSqlite_constructor s = Some (puts ''QMSqlite constructor'' s)"

definition QMSqlite_instance :: "singletons \<Rightarrow> singletons option" where
  "QMSqlite_instance = static_decl QMSqlite QMSqlite_constructor"

definition do_something :: "singletons \<Rightarrow> singletons" where
  "do_something s = puts ''QMSqlite do_something'' s"

definition QMManager_constructor :: "singletons \<Rightarrow> singletons option" where
  "QMManager_constructor s =
     map_option do_something (QMSqlite_instance (puts ''QMManager constructor'' s))"

definition QMManager_instance :: "singletons \<Rightarrow> singletons option" where
  "QMManager_instance = static_decl QMManager QMManager_constructor"

text \<open>The constructor of \<^verbatim>\<open>object_creator\<close> of either class, which only calls \<^verbatim>\<open>instance\<close>.\<close>

fun object_creator :: "cls \<Rightarrow> singletons \<Rightarrow> singletons option" where
  "object_creator QMManager s = QMManager_instance s"
| "object_creator QMSqlite s = QMSqlite_instance s"

text \<open>Static objects are initialised in the order of their definitions.\<close>

fun create_all :: "cls list \<Rightarrow> singletons \<Rightarrow> singletons option" where
  "create_all [] s = Some s"
| "create_all (c # cs) s = Option.bind (object_creator c s) (create_all cs)"

definition at_load :: singletons where
  "at_load = \<lparr>local_of = \<lambda>c. Untouched, printed = []\<rparr>"

text \<open>\<^verbatim>\<open>main\<close> does nothing but return.\<close>

definition singletons_main :: "(int \<times> singletons) option" where
  "singletons_main = map_option (Pair 0) (create_all [QMManager, QMSqlite] at_load)"

section \<open>Lemmas\<close>

text \<open>The states between two calls: no initialisation is under way, and with the first singleton comes the
  second.\<close>

definition settled :: "singletons \<Rightarrow> bool" where
  "settled s \<longleftrightarrow> (\<forall>c. local_of s c \<noteq> Initialising)
     \<and> (local_of s QMManager = Initialised \<longrightarrow> local_of s QMSqlite = Initialised)"

text \<open>What the first call of \<^verbatim>\<open>instance\<close> prints.\<close>

definition sqlite_news :: "singletons \<Rightarrow> string list" where
  "sqlite_news s = (if local_of s QMSqlite = Initialised then [] else [''QMSqlite constructor''])"

fun news :: "cls \<Rightarrow> singletons \<Rightarrow> string list" where
  "news QMSqlite s = sqlite_news s"
| "news QMManager s =
     (if local_of s QMManager = Initialised then []
      else ''QMManager constructor'' # sqlite_news s @ [''QMSqlite do_something''])"

fun needs :: "cls \<Rightarrow> cls set" where
  "needs QMManager = {QMManager, QMSqlite}"
| "needs QMSqlite = {QMSqlite}"

lemma state_simps [simp]:
  "local_of (puts l s) = local_of s" "printed (puts l s) = printed s @ [l]"
  "local_of (mark c v s) = (local_of s)(c := v)" "printed (mark c v s) = printed s"
  by (simp_all add: puts_def mark_def)

lemma sqlite_effect:
  assumes "local_of s QMSqlite \<noteq> Initialising"
  obtains s' where "QMSqlite_instance s = Some s'" "printed s' = printed s @ sqlite_news s"
    "local_of s' = (local_of s)(QMSqlite := Initialised)"
  using assms
  by (intro that[of "if local_of s QMSqlite = Initialised then s
      else mark QMSqlite Initialised (puts ''QMSqlite constructor'' (mark QMSqlite Initialising s))"])
    (auto simp: QMSqlite_instance_def static_decl_def QMSqlite_constructor_def sqlite_news_def fun_upd_idem
      split: static_local.splits)

lemma object_creator_effect:
  assumes "settled s"
  obtains s' where "object_creator c s = Some s'" "settled s'" "printed s' = printed s @ news c s"
    "local_of s' = (\<lambda>d. if d \<in> needs c then Initialised else local_of s d)"
proof (cases c)
  case QMSqlite
  obtain s1 where "QMSqlite_instance s = Some s1" "printed s1 = printed s @ sqlite_news s"
    "local_of s1 = (local_of s)(QMSqlite := Initialised)"
    using sqlite_effect assms by (auto simp: settled_def)
  with assms QMSqlite show ?thesis by (intro that[of s1]) (auto simp: settled_def)
next
  case QMManager
  show ?thesis
  proof (cases "local_of s QMManager")
    case Initialised
    with assms QMManager have "local_of s = (\<lambda>d. if d \<in> needs c then Initialised else local_of s d)"
      by (auto simp: settled_def)
    with Initialised assms QMManager show ?thesis
      by (intro that[of s]) (simp_all add: QMManager_instance_def static_decl_def)
  next
    case Untouched
    let ?t = "puts ''QMManager constructor'' (mark QMManager Initialising s)"
    obtain s1 where s1: "QMSqlite_instance ?t = Some s1" "printed s1 = printed ?t @ sqlite_news ?t"
      "local_of s1 = (local_of ?t)(QMSqlite := Initialised)"
      by (rule sqlite_effect[of ?t]) (use assms in \<open>auto simp: settled_def\<close>)
    show ?thesis
      by (rule that[of "mark QMManager Initialised (do_something s1)"])
        (use s1 Untouched assms QMManager in \<open>auto simp: QMManager_instance_def static_decl_def
          QMManager_constructor_def do_something_def sqlite_news_def settled_def\<close>)
  next
    case Initialising
    with assms show ?thesis by (simp add: settled_def)
  qed
qed

text \<open>What a sequence of calls prints.\<close>

fun all_news :: "cls list \<Rightarrow> string list" where
  "all_news [] = []"
| "all_news (QMManager # r) = [''QMManager constructor'', ''QMSqlite constructor'', ''QMSqlite do_something'']"
| "all_news (QMSqlite # r) = ''QMSqlite constructor''
     # (if QMManager \<in> set r then [''QMManager constructor'', ''QMSqlite do_something''] else [])"

definition rest_news :: "cls list \<Rightarrow> singletons \<Rightarrow> string list" where
  "rest_news cs s =
     (if local_of s QMManager = Initialised then []
      else if local_of s QMSqlite = Initialised
      then if QMManager \<in> set cs then [''QMManager constructor'', ''QMSqlite do_something''] else []
      else all_news cs)"

lemma create_all_effect:
  "settled s \<Longrightarrow> \<exists>s'. create_all cs s = Some s' \<and> printed s' = printed s @ rest_news cs s
    \<and> (\<forall>c. local_of s' c = (if \<exists>d \<in> set cs. c \<in> needs d then Initialised else local_of s c))"
proof (induction cs arbitrary: s)
  case Nil
  then show ?case by (simp add: rest_news_def)
next
  case (Cons c cs)
  obtain s1 where s1: "object_creator c s = Some s1" "settled s1" "printed s1 = printed s @ news c s"
    "local_of s1 = (\<lambda>d. if d \<in> needs c then Initialised else local_of s d)"
    by (rule object_creator_effect[OF Cons.prems])
  obtain s2 where s2: "create_all cs s1 = Some s2" "printed s2 = printed s1 @ rest_news cs s1"
    "\<forall>c. local_of s2 c = (if \<exists>d \<in> set cs. c \<in> needs d then Initialised else local_of s1 c)"
    using Cons.IH[OF s1(2)] by blast
  have "news c s @ rest_news cs s1 = rest_news (c # cs) s"
    using Cons.prems by (cases c) (simp_all add: rest_news_def s1(4) sqlite_news_def settled_def)
  with s1 s2 show ?case by auto
qed

section \<open>Properties\<close>

text \<open>However often and in whichever order \<^verbatim>\<open>instance\<close> of the two classes is called before \<^verbatim>\<open>main\<close>, and so
  whatever the order of the static objects, no initialisation comes back to itself, each
  constructor runs at most once, and \<^verbatim>\<open>do_something\<close> runs once, with the first singleton, on an
  initialised object. In the order of the file the constructor of \<^verbatim>\<open>QMManager\<close> starts first, and all is
  done when \<^verbatim>\<open>main\<close> starts.\<close>

theorem constructed_once:
  "(\<exists>s. create_all cs at_load = Some s
      \<and> printed s = all_news cs
      \<and> (\<forall>c. local_of s c = (if \<exists>d \<in> set cs. c \<in> needs d then Initialised else Untouched)))
   \<and> (\<exists>s. singletons_main = Some (0, s)
      \<and> printed s = [''QMManager constructor'', ''QMSqlite constructor'', ''QMSqlite do_something''])"
proof -
  have ok: "settled at_load" by (simp add: settled_def at_load_def)
  have "rest_news cs at_load = all_news cs" "printed at_load = []" "\<And>c. local_of at_load c = Untouched" for cs
    by (simp_all add: rest_news_def at_load_def)
  with create_all_effect[OF ok, of cs] create_all_effect[OF ok, of "[QMManager, QMSqlite]"]
  show ?thesis by (auto simp: singletons_main_def simp del: create_all.simps)
qed

end
