(* ===== verification/Spec2Isabelle.thy ===== *)
theory Spec2Isabelle
  imports Server_Life Block_Stack Reaping WorkQueue Semaphore SysvSem Shared_Map Message_Queue One_Pipe Blocked_Signal
    Udp Test_Server Unix_Server Threads Pipes Stl Singletons
begin

text \<open>
  Verification of the network library under \<^verbatim>\<open>src/netlib\<close> and of the servers and concurrent
  programs under \<^verbatim>\<open>src/net\<close>.

  \<^bold>\<open>The program.\<close> \<^verbatim>\<open>netlib\<close> is a reactor: a \<^verbatim>\<open>Channel\<close> holds the events wanted on a descriptor and the
  callbacks for them, a \<^verbatim>\<open>Poller\<close> keeps the channels registered with an epoll instance,
  an \<^verbatim>\<open>EventLoop\<close> waits for events and dispatches them to the channels, a \<^verbatim>\<open>Socket\<close> ties a
  channel to an input and an output \<^verbatim>\<open>Buffer\<close>, and a \<^verbatim>\<open>TcpServer\<close> accepts connections and owns their
  sockets; \<^verbatim>\<open>main.cpp\<close> is a small server on top. \<^verbatim>\<open>net/test/serv2.cpp\<close> and \<^verbatim>\<open>net/myser2\<close> are two
  servers that use epoll directly, the second one with several processes. The other
  programs exercise threads, semaphores, pipes, signals, message queues, datagrams and static objects.

  \<^bold>\<open>Theories.\<close>
  \<^item> \<open>Prelude\<close>: scalar types at their width, faults and the result type with its sequencing and its
    total-correctness predicate \<open>yields\<close>, loads and stores on blocks of memory.
  \<^item> \<open>Endian\<close>: byte orders of the host, \<^verbatim>\<open>htonl\<close> and its relatives, the network representation.
  \<^item> \<open>Byte_Stream\<close>: the abstract byte queue, as an operation interpreter on lists and as the
    locales \<open>byte_queue\<close> and \<open>integer_stream\<close>.
  \<^item> \<open>Buffer\<close> (\<^verbatim>\<open>netlib/Buffer.hpp\<close>, \<^verbatim>\<open>Buffer.cpp\<close>): the record \<open>buffer\<close> with its vector and its two
    indices as 64-bit words, one definition per member function. It interprets the locales of
    \<open>Byte_Stream\<close>. Shown are the refinement of the byte queue, the round trips of
    integers and headers, \<^verbatim>\<open>readFd\<close>, the searches, and what a wrapped length does.
  \<^item> \<open>Sys\<close>: descriptors, system calls and the interest list of an epoll instance (below).
  \<^item> \<open>Event_Registry\<close>: the contract between channels and poller, as the locale \<open>event_registry\<close>.
  \<^item> \<open>Channel\<close> (\<^verbatim>\<open>netlib/Channel.*\<close>): the record \<open>channel\<close> in a store of channels by address, the
    masks, and \<^verbatim>\<open>handleEvent\<close>, whose order of callbacks is characterised.
  \<^item> \<open>Poller\<close> (\<^verbatim>\<open>netlib/Poller.*\<close>): the map from descriptors to channels, \<^verbatim>\<open>poll\<close>, \<^verbatim>\<open>updateChannel\<close>,
    \<^verbatim>\<open>removeChannel\<close>. The invariant \<open>poller_ok\<close> relates the map, the states of the
    channels and the interest list of the kernel; every operation keeps it. The theory interprets
    \<open>event_registry\<close>.
  \<^item> \<open>EventLoop\<close> (\<^verbatim>\<open>netlib/EventLoop.*\<close>): the loop, one pass of it, the pending functors, and the
    \<^verbatim>\<open>enable\<close> and \<^verbatim>\<open>disable\<close> operations of channels, which go through the loop to the poller.
  \<^item> \<open>Socket\<close> (\<^verbatim>\<open>netlib/Socket.*\<close>): reading, writing, sending and closing of a connection.
  \<^item> \<open>TcpServer\<close> (\<^verbatim>\<open>netlib/TcpServer.*\<close>, \<^verbatim>\<open>main.cpp\<close>): the server with its reference-counted sockets,
    and the dispatch of an event through all the layers.
  \<^item> \<open>Conversation\<close>: messages and replies as they show in the trace of system calls, and the reference server
    that sends one reply for each message.
  \<^item> \<open>Server_Run\<close>: the invariant \<open>server_ok\<close> of \<^verbatim>\<open>main.cpp\<close>, which joins those of poller, loop, sockets,
    buffers and map of connections. Every handler and every pass keeps it without a fault while no peer hangs
    up (the locale \<open>loop_invariant\<close> of \<open>EventLoop\<close> is interpreted on it).
  \<^item> \<open>Server_Life\<close>: whole runs of \<^verbatim>\<open>main.cpp\<close>. Starting the server establishes the invariant, every message is
    answered with the next call, the bytes sent are those of the reference server as long as no write is cut short, the first peer that hangs up ends the server in the use of freed memory, and
    after 27 reports it is deaf.
  \<^item> \<open>Serv2\<close> (\<^verbatim>\<open>net/test/serv2.cpp\<close>) and \<open>Myser2\<close> (\<^verbatim>\<open>net/myser2\<close>): the servers that use epoll directly.
    \<open>Block_Stack\<close> (\<^verbatim>\<open>net/myser2/net.h\<close>): its stack of data blocks in shared memory, with 64-bit pointers.
    \<open>Reaping\<close> (\<^verbatim>\<open>net/myser2/net.cpp\<close>): its signal handlers, and that they leave no zombie.
  \<^item> \<open>Interleaving\<close>: runs of interleaved programs, and the locale \<open>ranked_system\<close> from which it
    follows that they end.
  \<^item> \<open>WorkQueue\<close> (\<^verbatim>\<open>net/pthread/pthread_create.c\<close>): a queue of messages between threads, with a mutex
    and a condition variable, and a reference-counted object.
  \<^item> \<open>Semaphore\<close> (\<^verbatim>\<open>net/semaphore/a.c\<close>) and \<open>SysvSem\<close> (\<^verbatim>\<open>net/semaphores/main.c\<close>): processes that share a POSIX
    semaphore, and processes that share a System V semaphore. \<open>Shared_Map\<close> (\<^verbatim>\<open>net/semaphore/b.c\<close>): processes that share a
    mapping and are ordered by their sleeps only.
  \<^item> \<open>One_Pipe\<close> (\<^verbatim>\<open>net/pipe/pipe.cpp\<close>) and \<open>Blocked_Signal\<close> (\<^verbatim>\<open>net/sig/main.c\<close>): a parent and a child that share
    a pipe, and that have handlers, masks and pending signals, as interleaved steps.
  \<^item> \<open>Message_Queue\<close> (\<^verbatim>\<open>net/messagequeue/main.c\<close>): the queue, and the message as the bytes that \<^verbatim>\<open>msgsnd\<close> reads.
  \<^item> \<open>Test_Server\<close> (\<^verbatim>\<open>net/test/serv.cpp\<close>, \<^verbatim>\<open>cli.cpp\<close>) and \<open>Unix_Server\<close> (\<^verbatim>\<open>net/unixdomain/unixdomain.cpp\<close>): blocking
    servers, followed on the results of their calls.
  \<^item> \<open>Decimal\<close>: numbers as text and back. \<open>Udp\<close> (\<^verbatim>\<open>net/udp\<close>, \<^verbatim>\<open>net/daemon\<close>): the datagram server, its daemon and the
    connected client with \<^verbatim>\<open>sock_ntop\<close>.
  \<^item> \<open>Threads\<close> (\<^verbatim>\<open>net/pthread/main.c\<close>): threads that upper-case their arguments. \<open>Pipes\<close> (\<^verbatim>\<open>net/fork.cpp\<close>,
    \<^verbatim>\<open>net/pipe/pipe2.cpp\<close>): process trees and the pipe ends they keep. \<open>Stl\<close> (\<^verbatim>\<open>c++/stl.cpp\<close>): three ways to remove
    elements from a container. \<open>Singletons\<close> (\<^verbatim>\<open>c++/singeleton.cpp\<close>): the initialisation of static objects.

  \<^bold>\<open>State, errors, loops.\<close> A class is a record; objects that others point to are in a store from
  addresses to records, so that a destroyed object is an address without a record. An
  operation takes the state and returns a result: \<open>Inl\<close> a fault (a failed \<^verbatim>\<open>assert\<close>, an access
  outside a block, to a destroyed object or through a null pointer, a fatal log entry)
  or \<open>Inr\<close> the value and the new state. The layers extend one record: the state of system
  calls, then channels, poller, loop, sockets, server. A callback is a value that the
  operations take a function \<open>run\<close> or \<open>call\<close> to execute; \<open>TcpServer\<close> ties the knot. Machine
  integers are words where they can wrap (\<^verbatim>\<open>size_t\<close> in \<open>Buffer\<close>, event masks, byte-order
  conversions, the reference count of \<^verbatim>\<open>foo\<close>) and are reduced explicitly where a wider number is converted to
  \<^verbatim>\<open>int\<close>. Loops that may run for ever (the event loop, the pending functors, the accept and
  receive loops) are partial functions into \<open>option\<close>, with \<open>None\<close> for a loop that does not
  return; the properties that speak of their results say that they return. There is no
  fuel. Threads and processes are step relations with a program counter for each thread;
  the bounds of 1480 steps in \<open>WorkQueue\<close>, 29 in \<open>Semaphore\<close>, 25 in \<open>Shared_Map\<close>, 14 in \<open>One_Pipe\<close> and 12 in \<open>Blocked_Signal\<close> are the
  potentials of the initial states.

  \<^bold>\<open>What the kernel and the libraries do\<close> is a parameter: the record \<open>os\<close> of \<open>Sys\<close> gives the
  outcome of every system call as a function of the calls that were made so far, and each
  call is recorded in the trace. Properties that rely on documented behaviour say so in their
  hypotheses (\<open>kernel_contract\<close> for whole runs, \<open>ctl_works\<close> for \<^verbatim>\<open>epoll_ctl\<close>, \<open>wait_contract\<close> for \<^verbatim>\<open>epoll_wait\<close>, bounds on what \<^verbatim>\<open>write\<close>,
  \<^verbatim>\<open>readv\<close> and \<^verbatim>\<open>recv\<close> return), and \<open>sample_os\<close> and \<open>calm_os\<close> are kernels that meet them. Host
  byte order, \<^verbatim>\<open>inet_addr\<close>, \<^verbatim>\<open>inet_aton\<close>, \<^verbatim>\<open>mmap\<close> and \<^verbatim>\<open>fork\<close> are arguments, and so are \<^verbatim>\<open>recv_from_cli\<close> and
  \<^verbatim>\<open>read_from_parent\<close>, which \<^verbatim>\<open>net.cpp\<close> calls and no file defines. For threads, the record
  \<open>choice\<close> holds what the library decides.

  \<^bold>\<open>Not modelled.\<close> Log and console output, except where it is what a program is for; the capacity of
  vectors, and what happens when memory runs out; \<^verbatim>\<open>recv_data(int, bool&)\<close> of \<^verbatim>\<open>myser2\<close>, which does not compile (a
  variable out of scope) and is not called; \<^verbatim>\<open>udpcli.cpp\<close>, \<^verbatim>\<open>taxi.c\<close> and \<^verbatim>\<open>c++_copy_constructor.cpp\<close>, which do not
  compile; the demonstrations of
  language features under \<^verbatim>\<open>src/c++\<close> other than \<^verbatim>\<open>stl.cpp\<close> and \<^verbatim>\<open>singeleton.cpp\<close>, which have neither state nor input.
\<close>

end
